(* ===== verification/Prelude.thy ===== *)
theory Prelude
  imports Main "HOL-Library.Word" "HOL-Library.Multiset" "HOL-Library.State_Monad"
begin

text \<open>
  Shared vocabulary of the development: bytes, Go lengths, the conversions Go makes when it
  passes an \<open>int\<close> to C (\<open>C.int\<close>, \<open>C.uint\<close>, \<open>C.size_t\<close>), big-endian numbers
  (\<open>math/big\<close>'s \<open>SetBytes\<close> and \<open>Bytes\<close>), the slice helpers with their run-time
  panics, and the named collections the component theories add to.
\<close>

unbundle bit_operations_syntax

named_theorems exec_simps \<open>symbolic execution of the model's operations\<close>
named_theorems vcg \<open>introduction rules of the weakest-precondition calculus\<close>
named_theorems own_simps \<open>effect of an event on the multiset of owned handles\<close>

section \<open>Bytes and integers\<close>

type_synonym byte = "8 word"

text \<open>A Go string is a sequence of bytes; \<open>char\<close> is a byte in Isabelle.\<close>

definition go_len :: "'a list \<Rightarrow> int" where
  "go_len xs = int (length xs)"

lemma go_len_nonneg [simp]: "0 \<le> go_len xs"
  by (simp add: go_len_def)

lemma go_len_Nil [simp]: "go_len [] = 0"
  by (simp add: go_len_def)

lemma go_len_eq_0 [simp]: "go_len xs = 0 \<longleftrightarrow> xs = []"
  by (simp add: go_len_def)

lemma go_len_pos [simp]: "0 < go_len xs \<longleftrightarrow> xs \<noteq> []"
  by (simp add: go_len_def)

lemma go_len_append [simp]: "go_len (xs @ ys) = go_len xs + go_len ys"
  by (simp add: go_len_def)

text \<open>\<open>C.int(n)\<close>: the low 32 bits, read as two's complement.\<close>

definition c_int :: "int \<Rightarrow> int" where
  "c_int n = sint (word_of_int n :: 32 word)"

text \<open>\<open>C.uint(n)\<close> and \<open>C.size_t(n)\<close>: the low 32 and 64 bits, unsigned.\<close>

definition c_uint :: "int \<Rightarrow> int" where
  "c_uint n = uint (word_of_int n :: 32 word)"

definition c_size_t :: "int \<Rightarrow> int" where
  "c_size_t n = uint (word_of_int n :: 64 word)"

lemma c_int_id: "- (2 ^ 31) \<le> n \<Longrightarrow> n < 2 ^ 31 \<Longrightarrow> c_int n = n"
  by (simp add: c_int_def sint_sbintrunc' signed_take_bit_int_eq_self)

lemma c_uint_id: "0 \<le> n \<Longrightarrow> n < 2 ^ 32 \<Longrightarrow> c_uint n = n"
  by (simp add: c_uint_def uint_word_of_int)

lemma c_size_t_id: "0 \<le> n \<Longrightarrow> n < 2 ^ 64 \<Longrightarrow> c_size_t n = n"
  by (simp add: c_size_t_def uint_word_of_int)

section \<open>Big-endian numbers\<close>

text \<open>\<open>new(big.Int).SetBytes(bs)\<close>.\<close>

definition set_bytes :: "byte list \<Rightarrow> nat" where
  "set_bytes bs = foldl (\<lambda>n b. 256 * n + unat b) 0 bs"

text \<open>\<open>x.Bytes()\<close> for a non-negative \<open>x\<close>: no leading zero byte, empty for zero.\<close>

fun bytes_of :: "nat \<Rightarrow> byte list" where
  "bytes_of n = (if n = 0 then [] else bytes_of (n div 256) @ [of_nat (n mod 256)])"

declare bytes_of.simps [simp del]

lemma bytes_of_0 [simp]: "bytes_of 0 = []"
  by (simp add: bytes_of.simps)

lemma bytes_of_pos: "0 < n \<Longrightarrow> bytes_of n = bytes_of (n div 256) @ [of_nat (n mod 256)]"
  by (subst bytes_of.simps) simp

lemma bytes_of_eq_Nil [simp]: "bytes_of n = [] \<longleftrightarrow> n = 0"
  by (subst bytes_of.simps) simp

lemma set_bytes_Nil [simp]: "set_bytes [] = 0"
  by (simp add: set_bytes_def)

lemma set_bytes_snoc [simp]: "set_bytes (bs @ [b]) = 256 * set_bytes bs + unat b"
  by (simp add: set_bytes_def)

lemma set_bytes_single [simp]: "set_bytes [b] = unat b"
  by (simp add: set_bytes_def)

lemma unat_of_nat_byte: "unat (of_nat (n mod 256) :: byte) = n mod 256"
  by (simp add: unat_of_nat)

lemma set_bytes_bytes_of [simp]: "set_bytes (bytes_of n) = n"
proof (induction n rule: bytes_of.induct)
  case (1 n)
  show ?case
  proof (cases "n = 0")
    case False
    with 1 show ?thesis by (simp add: bytes_of_pos [of n] unat_of_nat_byte)
  qed simp
qed

lemma unat_byte_lt: "unat (b :: byte) < 256"
  using unsigned_less [of b, where ?'a = nat] by simp

lemma set_bytes_replicate_0 [simp]: "set_bytes (replicate k 0 @ bs) = set_bytes bs"
proof -
  have "foldl (\<lambda>n b. 256 * n + unat b) 0 (replicate k (0 :: byte)) = 0"
    by (induction k) simp_all
  then show ?thesis by (simp add: set_bytes_def)
qed

lemma set_bytes_Cons_0 [simp]: "set_bytes (0 # bs) = set_bytes bs"
  using set_bytes_replicate_0 [of 1 bs] by simp

lemma set_bytes_pos: "bs \<noteq> [] \<Longrightarrow> hd bs \<noteq> 0 \<Longrightarrow> 0 < set_bytes bs"
proof (induction bs rule: rev_induct)
  case (snoc b bs)
  show ?case
  proof (cases bs)
    case Nil
    with snoc.prems show ?thesis by (simp add: unat_gt_0)
  next
    case (Cons c cs)
    with snoc have "0 < set_bytes bs" by simp
    then show ?thesis by simp
  qed
qed simp

text \<open>A byte list with no leading zero is the minimal encoding of its value.\<close>

lemma bytes_of_set_bytes: "bs = [] \<or> hd bs \<noteq> 0 \<Longrightarrow> bytes_of (set_bytes bs) = bs"
proof (induction bs rule: rev_induct)
  case (snoc b bs)
  have pos: "0 < 256 * set_bytes bs + unat b"
    using set_bytes_pos [of "bs @ [b]"] snoc.prems by simp
  have "bs = [] \<or> hd bs \<noteq> 0"
    using snoc.prems by (cases bs) auto
  with snoc.IH have "bytes_of (set_bytes bs) = bs" .
  moreover have "(256 * set_bytes bs + unat b) div 256 = set_bytes bs"
    using unat_byte_lt [of b] by simp
  moreover have "(256 * set_bytes bs + unat b) mod 256 = unat b"
    using unat_byte_lt [of b] by simp
  ultimately show ?case
    using pos by (simp add: bytes_of_pos)
qed simp

text \<open>Every byte list is its leading zeros followed by the minimal encoding of its value.\<close>

lemma bytes_split_zeros:
  "bs = replicate (length bs - length (bytes_of (set_bytes bs))) 0 @ bytes_of (set_bytes bs)"
proof (induction bs)
  case (Cons b bs)
  show ?case
  proof (cases "b = 0")
    case True
    have "length (bytes_of (set_bytes bs)) \<le> length bs"
      by (metis Cons.IH le_add2 length_append)
    then have "length (b # bs) - length (bytes_of (set_bytes bs))
        = Suc (length bs - length (bytes_of (set_bytes bs)))" by simp
    with True Cons.IH show ?thesis by simp
  next
    case False
    then have "bytes_of (set_bytes (b # bs)) = b # bs"
      using bytes_of_set_bytes [of "b # bs"] by simp
    then show ?thesis by simp
  qed
qed simp

lemma length_bytes_of_set_bytes: "length (bytes_of (set_bytes bs)) \<le> length bs"
  by (metis bytes_split_zeros le_add2 length_append)

lemma hd_bytes_of: "0 < n \<Longrightarrow> hd (bytes_of n) \<noteq> 0"
proof (induction n rule: bytes_of.induct)
  case (1 n)
  show ?case
  proof (cases "n div 256 = 0")
    case True
    then have n: "n < 256" by simp
    then have "unat (of_nat n :: byte) = n" by (simp add: unat_of_nat)
    with "1.prems" have "(of_nat n :: byte) \<noteq> 0" by (metis less_numeral_extra(3) unat_0)
    with "1.prems" n show ?thesis by (simp add: bytes_of_pos [of n])
  next
    case False
    with 1 have "hd (bytes_of (n div 256)) \<noteq> 0" by simp
    with "1.prems" False show ?thesis by (simp add: bytes_of_pos [of n] hd_append)
  qed
qed

section \<open>Lists\<close>

lemma take_drop_append_eq: "n \<le> length xs \<Longrightarrow> take n xs @ drop n xs = xs"
  by simp

lemma set_bytes_append_take_drop:
  "length rb \<le> c \<Longrightarrow> length (replicate (c - length rb) 0 @ rb) = c"
  by simp

end
