(* ===== verification/Cgo.thy ===== *)
theory Cgo
  imports Prelude "HOL-Library.Sublist"
begin

text \<open>
  The boundary between the Go package and libcrypto. Every cgo call the package makes is an
  event: the call with its arguments, and the library's answer. libcrypto is not part of the
  repository, so it is a parameter: the field \<open>lib\<close> of the world is an arbitrary function
  from the calls made so far to the answer of the next one. A theorem that quantifies over
  the world therefore holds for every behaviour of the library.

  An operation of the package is a computation of the state monad over the world that
  returns \<open>Inl\<close> an error or \<open>Inr\<close> a value. The multiset \<open>owned\<close> counts the C references
  the Go side holds (allocated or referenced and not yet released), and \<open>safe\<close> says that no
  call so far used or released a reference that was not held.
\<close>

section \<open>Errors\<close>

datatype farg = FStr string | FInt int

text \<open>
  The package's errors: the sentinels, \<open>*Error\<close>, \<open>fmt.Errorf\<close> without and with \<open>%w\<close>. A Go
  panic travels like an error that no code of the package catches, and \<open>Diverged\<close> marks a
  call that does not return.
\<close>

datatype err =
    ErrVerification
  | ErrClosed
  | ErrUnavailable
  | OsslError string "64 word list" "string list"
  | Errorf string "farg list"
  | Wrapf string err "farg list"
  | Panic string
  | Diverged

fun is_panic :: "err \<Rightarrow> bool" where
  "is_panic (Panic _) = True"
| "is_panic Diverged = True"
| "is_panic _ = False"

text \<open>\<open>errors.Is(e, target)\<close> for the sentinels.\<close>

fun errors_Is :: "err \<Rightarrow> err \<Rightarrow> bool" where
  "errors_Is (Wrapf f e as) t = (Wrapf f e as = t \<or> errors_Is e t)"
| "errors_Is e t = (e = t)"

section \<open>C objects, arguments and events\<close>

type_synonym ptr = nat

abbreviation NULL :: ptr where "NULL \<equiv> 0"

text \<open>The kinds of C object the package owns references to. \<open>HMem\<close> is \<open>malloc\<close>ed memory.\<close>

datatype hkind =
    HMem | HSecure | HBuf | HLibCtx | HProvider | HMd | HMdCtx | HMac | HMacCtx | HKdf | HKdfCtx
  | HCipher | HCipherCtx | HPkey | HPkeyCtx | HEncoder | HDecoder | HStore | HStoreInfo

type_synonym handle = "hkind \<times> ptr"

text \<open>The value of an \<open>OSSL_PARAM\<close>; numbers are as C receives them.\<close>

datatype pval =
    PUtf8 string | POctets "byte list" | PInt int | PUInt int | PSizeT int | PNilData int | POut int

datatype OSSL_PARAM = Param (param_keyp: ptr) (param_key: string) (param_data: ptr) (param_val: pval)
  | ParamEnd

datatype carg =
    APtr ptr
  | AStr ptr string
  | ABytes "byte list"
  | AOut int
  | AInt int
  | AParams "OSSL_PARAM list"
  | ANull

datatype lockop = Lock | Unlock | RLock | RUnlock

datatype mutex = MuObject | MuContext | MuSecureHeap | MuThreadBudget

text \<open>When an out parameter holds a new object: the call returned 1, or a positive value.\<close>

datatype outcome = Rc1 | RcPos

datatype ccall =
    New hkind string "handle list" "carg list"
  | NewOut outcome hkind string "handle list" "carg list"
  | UpRef hkind ptr
  | Free hkind ptr
  | Give string hkind ptr "handle list" "carg list"
  | Do string "handle list" "carg list"
  | Cleanse "byte list"
  | Mu lockop mutex

text \<open>
  What a call answers: its return value as an integer or pointer, and what it wrote through
  its out parameters; for a \<open>do_all\<close> call, the items it handed to the callback. A call reads
  only the fields its C declaration has.
\<close>

record cret =
  rc :: int
  rptr :: ptr
  rlen :: int
  rlen2 :: int
  rbuf :: "byte list"
  rbuf2 :: "byte list"
  rstr :: string
  rstr2 :: string
  rptrs :: "ptr list"
  rstrs :: "string list"
  rints :: "int list"
  rcode :: "64 word"

type_synonym event = "ccall \<times> cret"

section \<open>The world\<close>

text \<open>
  A \<open>Context\<close> (libctx.go) is mutable and shared by reference: keys point back to the context
  they came from. The world holds the contexts by address; address 0 is \<open>Default\<close>.
\<close>

record libctx =
  c_ctx :: ptr
  c_fips :: "ptr option"
  c_probes :: "string \<Rightarrow> err option option"

type_synonym cref = nat

record world =
  lib :: "event list \<Rightarrow> ccall \<Rightarrow> cret"
  hist :: "event list"
  ctxs :: "cref \<Rightarrow> libctx"
  nctx :: nat
  curve_nids :: "int list option"

type_synonym 'a go = "(world, err + 'a) state"

definition push :: "ccall \<Rightarrow> cret \<Rightarrow> world \<Rightarrow> world" where
  "push c r w = w\<lparr>hist := (c, r) # hist w\<rparr>"

definition call :: "ccall \<Rightarrow> (world, cret) state" where
  "call c = State (\<lambda>w. let r = lib w (hist w) c in (r, push c r w))"

abbreviation ret :: "'a \<Rightarrow> (world, 'a) state" where
  "ret x \<equiv> State_Monad.return x"

definition ok :: "'a \<Rightarrow> 'a go" where "ok x = ret (Inr x)"

definition fail :: "err \<Rightarrow> 'a go" where "fail e = ret (Inl e)"

text \<open>\<open>if err := m(); err != nil { return err }\<close>, then \<open>f\<close>.\<close>

definition must :: "'a go \<Rightarrow> ('a \<Rightarrow> 'b go) \<Rightarrow> 'b go" where
  "must m f = do { r \<leftarrow> m; case r of Inl e \<Rightarrow> fail e | Inr x \<Rightarrow> f x }"

text \<open>\<open>x, err := m(); if err != nil { h }\<close>, then \<open>f\<close>. A panic is not an error value.\<close>

definition onerr :: "'a go \<Rightarrow> (err \<Rightarrow> 'b go) \<Rightarrow> ('a \<Rightarrow> 'b go) \<Rightarrow> 'b go" where
  "onerr m h f = do {
     r \<leftarrow> m;
     case r of Inl e \<Rightarrow> if is_panic e then fail e else h e | Inr x \<Rightarrow> f x
   }"

definition lift :: "err + 'a \<Rightarrow> 'a go" where "lift r = ret r"

text \<open>\<open>defer d()\<close> followed by the rest of the function: the result is computed first.\<close>

definition deferring :: "(world, unit) state \<Rightarrow> (world, 'a) state \<Rightarrow> (world, 'a) state" where
  "deferring d m = do { r \<leftarrow> m; d; ret r }"

definition new :: "hkind \<Rightarrow> string \<Rightarrow> handle list \<Rightarrow> carg list \<Rightarrow> (world, ptr) state" where
  "new k f hs as = do { r \<leftarrow> call (New k f hs as); ret (rptr r) }"

definition free :: "hkind \<Rightarrow> ptr \<Rightarrow> (world, unit) state" where
  "free k p = do { call (Free k p); ret () }"

text \<open>A run-time panic of Go.\<close>

definition index_panic :: err where "index_panic = Panic ''index out of range''"

definition slice_panic :: err where "slice_panic = Panic ''slice bounds out of range''"

text \<open>\<open>&xs[0]\<close> panics on an empty slice.\<close>

definition addr0 :: "'a list \<Rightarrow> 'b go \<Rightarrow> 'b go" where
  "addr0 xs k = (if xs = [] then fail index_panic else k)"

text \<open>\<open>&buf[i]\<close> and \<open>buf[:n]\<close>.\<close>

definition addr_at :: "'a list \<Rightarrow> int \<Rightarrow> 'b go \<Rightarrow> 'b go" where
  "addr_at buf i k = (if 0 \<le> i \<and> i < go_len buf then k else fail index_panic)"

definition slice_to :: "'a list \<Rightarrow> int \<Rightarrow> ('a list \<Rightarrow> 'b go) \<Rightarrow> 'b go" where
  "slice_to buf n k = (if 0 \<le> n \<and> n \<le> go_len buf then k (take (nat n) buf) else fail slice_panic)"

text \<open>\<open>make([]byte, n)\<close> panics on a negative length.\<close>

definition make_bytes :: "int \<Rightarrow> (byte list \<Rightarrow> 'b go) \<Rightarrow> 'b go" where
  "make_bytes n k = (if n < 0 then fail (Panic ''makeslice: len out of range'') else k (replicate (nat n) 0))"

text \<open>The buffer after C wrote \<open>out\<close> at offset \<open>i\<close>.\<close>

definition write_at :: "byte list \<Rightarrow> int \<Rightarrow> byte list \<Rightarrow> byte list" where
  "write_at buf i out = take (length buf) (take (nat i) buf @ out @ drop (nat i + length out) buf)"

lemma length_write_at [simp]:
  "nat i \<le> length buf \<Longrightarrow> length (write_at buf i out) = length buf"
  by (simp add: write_at_def)

lemma length_write_at_le [simp]: "0 \<le> i \<Longrightarrow> i \<le> go_len buf \<Longrightarrow> go_len (write_at buf i out) = go_len buf"
  by (simp add: go_len_def)

lemma write_at_Nil [simp]: "0 \<le> i \<Longrightarrow> i \<le> go_len buf \<Longrightarrow> write_at buf i out = [] \<longleftrightarrow> buf = []"
  using length_write_at_le [of i buf out] by (simp only: go_len_eq_0 [symmetric])

lemma take_write_at [simp]:
  "go_len out \<le> go_len buf \<Longrightarrow> take (nat (go_len out)) (write_at buf 0 out) = out"
  by (simp add: write_at_def go_len_def)

lemma go_len_zeros [simp]: "0 \<le> n \<Longrightarrow> go_len (replicate (nat n) x) = n"
  by (simp add: go_len_def)

text \<open>\<open>C.CString(s)\<close>: what C reads ends at the first NUL byte. Go aborts when it cannot allocate.\<close>

definition c_string :: "string \<Rightarrow> string" where
  "c_string s = takeWhile (\<lambda>c. c \<noteq> CHR 0x00) s"

definition with_cstr :: "string \<Rightarrow> (carg \<Rightarrow> 'a go) \<Rightarrow> 'a go" where
  "with_cstr s k = do {
     p \<leftarrow> new HMem ''C.CString'' [] [];
     if p = NULL then fail (Panic ''out of C memory'')
     else deferring (free HMem p) (k (AStr p (c_string s)))
   }"

definition with_lock :: "mutex \<Rightarrow> 'a go \<Rightarrow> 'a go" where
  "with_lock mu m = do { call (Mu Lock mu); deferring (do { call (Mu Unlock mu); ret () }) m }"

definition with_rlock :: "mutex \<Rightarrow> 'a go \<Rightarrow> 'a go" where
  "with_rlock mu m = do { call (Mu RLock mu); deferring (do { call (Mu RUnlock mu); ret () }) m }"

section \<open>Ownership of C references\<close>

definition live_handles :: "handle list \<Rightarrow> handle set" where
  "live_handles hs = {h \<in> set hs. snd h \<noteq> NULL}"

fun param_handles :: "OSSL_PARAM \<Rightarrow> handle set" where
  "param_handles (Param kp k d v) = live_handles [(HMem, kp), (HMem, d)]"
| "param_handles ParamEnd = {}"

fun arg_handles :: "carg \<Rightarrow> handle set" where
  "arg_handles (AStr p s) = live_handles [(HMem, p)]"
| "arg_handles (AParams ps) = \<Union> (param_handles ` set ps)"
| "arg_handles _ = {}"

definition uses_of :: "handle list \<Rightarrow> carg list \<Rightarrow> handle set" where
  "uses_of hs as = live_handles hs \<union> \<Union> (arg_handles ` set as)"

text \<open>The references a call reads, releases and adds.\<close>

fun needs :: "ccall \<Rightarrow> handle set" where
  "needs (New k f hs as) = uses_of hs as"
| "needs (NewOut oc k f hs as) = uses_of hs as"
| "needs (UpRef k p) = live_handles [(k, p)]"
| "needs (Give f k p hs as) = uses_of hs as"
| "needs (Do f hs as) = uses_of hs as"
| "needs _ = {}"

fun dropped :: "ccall \<Rightarrow> cret \<Rightarrow> handle multiset" where
  "dropped (Free k p) r = (if p = NULL then {#} else {#(k, p)#})"
| "dropped (Give f k p hs as) r = (if rc r > 0 then {#(k, p)#} else {#})"
| "dropped _ r = {#}"

fun gained :: "ccall \<Rightarrow> cret \<Rightarrow> handle multiset" where
  "gained (New k f hs as) r = (if rptr r = NULL then {#} else {#(k, rptr r)#})"
| "gained (NewOut Rc1 k f hs as) r = (if rc r = 1 \<and> rptr r \<noteq> NULL then {#(k, rptr r)#} else {#})"
| "gained (NewOut RcPos k f hs as) r = (if rc r > 0 \<and> rptr r \<noteq> NULL then {#(k, rptr r)#} else {#})"
| "gained (UpRef k p) r = (if rc r = 1 then {#(k, p)#} else {#})"
| "gained _ r = {#}"

fun owned_of :: "event list \<Rightarrow> handle multiset" where
  "owned_of [] = {#}"
| "owned_of ((c, r) # h) = (owned_of h - dropped c r) + gained c r"

fun safe_of :: "event list \<Rightarrow> bool" where
  "safe_of [] = True"
| "safe_of ((c, r) # h) \<longleftrightarrow>
     safe_of h \<and> needs c \<subseteq> set_mset (owned_of h) \<and> dropped c r \<subseteq># owned_of h"

definition owned :: "world \<Rightarrow> handle multiset" where "owned w = owned_of (hist w)"

definition safe :: "world \<Rightarrow> bool" where "safe w = safe_of (hist w)"

lemma owned_push [simp]: "owned (push c r w) = (owned w - dropped c r) + gained c r"
  by (simp add: owned_def push_def)

lemma safe_push [simp]:
  "safe (push c r w) \<longleftrightarrow> safe w \<and> needs c \<subseteq> set_mset (owned w) \<and> dropped c r \<subseteq># owned w"
  by (simp add: safe_def owned_def push_def)

lemma push_sel [simp]:
  "lib (push c r w) = lib w" "ctxs (push c r w) = ctxs w" "nctx (push c r w) = nctx w"
  "curve_nids (push c r w) = curve_nids w" "hist (push c r w) = (c, r) # hist w"
  by (simp_all add: push_def)

lemma owned_upd [simp]:
  "owned (w\<lparr>ctxs := x\<rparr>) = owned w" "owned (w\<lparr>nctx := y\<rparr>) = owned w"
  "owned (w\<lparr>curve_nids := z\<rparr>) = owned w"
  "safe (w\<lparr>ctxs := x\<rparr>) = safe w" "safe (w\<lparr>nctx := y\<rparr>) = safe w"
  "safe (w\<lparr>curve_nids := z\<rparr>) = safe w"
  by (simp_all add: owned_def safe_def)

lemma live_handles_sub [simp]:
  "live_handles [] \<subseteq> S"
  "live_handles (h # hs) \<subseteq> S \<longleftrightarrow> (snd h \<noteq> NULL \<longrightarrow> h \<in> S) \<and> live_handles hs \<subseteq> S"
  by (auto simp: live_handles_def)

lemma uses_of_sub [simp]:
  "uses_of (h # hs) as \<subseteq> S \<longleftrightarrow> (snd h \<noteq> NULL \<longrightarrow> h \<in> S) \<and> uses_of hs as \<subseteq> S"
  by (auto simp: uses_of_def live_handles_def)

lemma uses_of_args [simp]:
  "uses_of [] [] = {}"
  "uses_of [] (a # as) = arg_handles a \<union> uses_of [] as"
  by (auto simp: uses_of_def live_handles_def)

lemma two_subset: "{#a, b#} \<subseteq># M \<Longrightarrow> b \<in># M \<and> a \<in># M - {#b#}"
  by (simp add: insert_subset_eq_iff add_mset_commute [of a b])

section \<open>Weakest preconditions\<close>

definition wp :: "(world, 'a) state \<Rightarrow> ('a \<Rightarrow> world \<Rightarrow> bool) \<Rightarrow> world \<Rightarrow> bool" where
  "wp m Q w = (case run_state m w of (a, w') \<Rightarrow> Q a w')"

lemma wp_return [simp]: "wp (State_Monad.return x) Q = Q x"
  by (simp add: wp_def fun_eq_iff)

lemma wp_bind [simp]: "wp (m \<bind> f) Q = wp m (\<lambda>a. wp (f a) Q)"
  by (simp add: wp_def fun_eq_iff split: prod.splits)

lemma wp_if [simp]: "wp (if b then m else n) Q w = (if b then wp m Q w else wp n Q w)"
  by simp

lemma wp_case_sum [simp]:
  "wp (case x of Inl a \<Rightarrow> f a | Inr b \<Rightarrow> g b) Q w
   = (case x of Inl a \<Rightarrow> wp (f a) Q w | Inr b \<Rightarrow> wp (g b) Q w)"
  by (cases x) simp_all

lemma wp_case_option [simp]:
  "wp (case x of None \<Rightarrow> m | Some a \<Rightarrow> f a) Q w
   = (case x of None \<Rightarrow> wp m Q w | Some a \<Rightarrow> wp (f a) Q w)"
  by (cases x) simp_all

lemma wp_case_prod [simp]: "wp (case x of (a, b) \<Rightarrow> f a b) Q w = (case x of (a, b) \<Rightarrow> wp (f a b) Q w)"
  by (cases x) simp

lemma wp_let [simp]: "wp (let x = t in f x) Q w = (let x = t in wp (f x) Q w)"
  by (simp add: Let_def)

lemma wp_call_eq: "wp (call c) Q w = Q (lib w (hist w) c) (push c (lib w (hist w) c) w)"
  by (simp add: wp_def call_def Let_def)

lemma wp_call [vcg]: "(\<And>r. Q r (push c r w)) \<Longrightarrow> wp (call c) Q w"
  by (simp add: wp_call_eq)

lemma wp_mono: "wp m P w \<Longrightarrow> (\<And>a w'. P a w' \<Longrightarrow> Q a w') \<Longrightarrow> wp m Q w"
  by (auto simp: wp_def split: prod.splits)

lemma wp_conj: "wp m P w \<Longrightarrow> wp m Q w \<Longrightarrow> wp m (\<lambda>a w'. P a w' \<and> Q a w') w"
  by (auto simp: wp_def split: prod.splits)

lemma wp_runD: "wp m Q w \<Longrightarrow> run_state m w = (a, w') \<Longrightarrow> Q a w'"
  by (simp add: wp_def)

lemma wpI: "(\<And>a w'. run_state m w = (a, w') \<Longrightarrow> Q a w') \<Longrightarrow> wp m Q w"
  by (simp add: wp_def split: prod.splits)

lemma wp_ok [simp]: "wp (ok x) Q = Q (Inr x)"
  by (simp add: ok_def)

lemma wp_fail [simp]: "wp (fail e) Q = Q (Inl e)"
  by (simp add: fail_def)

lemma wp_must [simp]:
  "wp (must m f) Q = wp m (\<lambda>r w'. case r of Inl e \<Rightarrow> Q (Inl e) w' | Inr x \<Rightarrow> wp (f x) Q w')"
  by (auto simp: wp_def must_def fail_def fun_eq_iff split: prod.splits sum.splits)

lemma wp_onerr [simp]:
  "wp (onerr m h f) Q = wp m (\<lambda>r w'. case r of
     Inl e \<Rightarrow> if is_panic e then Q (Inl e) w' else wp (h e) Q w' | Inr x \<Rightarrow> wp (f x) Q w')"
  by (auto simp: wp_def onerr_def fail_def fun_eq_iff split: prod.splits sum.splits)

lemma wp_lift [simp]: "wp (lift r) Q = Q r"
  by (simp add: lift_def)

lemma wp_deferring [simp]: "wp (deferring d m) Q = wp m (\<lambda>r. wp d (\<lambda>_. Q r))"
  by (simp add: deferring_def)

lemma wp_new [simp]: "wp (new k f hs as) Q = wp (call (New k f hs as)) (\<lambda>r. Q (rptr r))"
  by (simp add: new_def)

lemma wp_free [simp]: "wp (free k p) Q = wp (call (Free k p)) (\<lambda>r. Q ())"
  by (simp add: free_def)

lemmas guard_defs = addr0_def addr_at_def slice_to_def make_bytes_def

lemmas wp_defs = with_cstr_def with_lock_def with_rlock_def guard_defs

text \<open>Running an operation one step at a time on a concrete library.\<close>

lemma run_simps [exec_simps]:
  "run_state (call c) w = (lib w (hist w) c, push c (lib w (hist w) c) w)"
  "run_state (ok x) w = (Inr x, w)"
  "run_state (fail e) w = (Inl e, w)"
  "run_state (must m g) w = (case run_state m w of (r, w') \<Rightarrow>
     (case r of Inl e \<Rightarrow> (Inl e, w') | Inr x \<Rightarrow> run_state (g x) w'))"
  "run_state (onerr m h g) w = (case run_state m w of (r, w') \<Rightarrow>
     (case r of Inl e \<Rightarrow> if is_panic e then (Inl e, w') else run_state (h e) w'
      | Inr x \<Rightarrow> run_state (g x) w'))"
  "run_state (lift s) w = (s, w)"
  "run_state (deferring d m2) w = (case run_state m2 w of (r, w') \<Rightarrow> (r, snd (run_state d w')))"
  "run_state (new k f hs as) w = (case run_state (call (New k f hs as)) w of (r, w') \<Rightarrow> (rptr r, w'))"
  "run_state (free k p) w = ((), snd (run_state (call (Free k p)) w))"
  by (simp_all add: call_def Let_def ok_def fail_def must_def onerr_def lift_def
      deferring_def new_def free_def
      split: prod.splits sum.splits)

section \<open>Neutral computations\<close>

text \<open>
  What most operations promise of the world: they leave the multiset of owned references
  as it was, keep \<open>safe\<close>, only add to the history, and touch no context.
\<close>

definition keeps :: "world \<Rightarrow> world \<Rightarrow> bool" where
  "keeps w w' \<longleftrightarrow> owned w' = owned w \<and> (safe w \<longrightarrow> safe w') \<and> lib w' = lib w \<and> ctxs w' = ctxs w
     \<and> nctx w' = nctx w \<and> curve_nids w' = curve_nids w \<and> (\<exists>es. hist w' = es @ hist w)"

lemma keeps_refl [simp]: "keeps w w"
  by (simp add: keeps_def)

lemma keeps_trans: "keeps w w' \<Longrightarrow> keeps w' w'' \<Longrightarrow> keeps w w''"
  by (auto simp: keeps_def)

lemma keeps_sel:
  assumes "keeps w w'"
  shows "owned w' = owned w" "safe w \<Longrightarrow> safe w'" "lib w' = lib w" "ctxs w' = ctxs w"
    "nctx w' = nctx w" "curve_nids w' = curve_nids w"
  using assms by (auto simp: keeps_def)

text \<open>The same with a gain: on return the references \<open>D\<close> were added.\<close>

definition gains :: "handle multiset \<Rightarrow> world \<Rightarrow> world \<Rightarrow> bool" where
  "gains D w w' \<longleftrightarrow> owned w' = owned w + D \<and> (safe w \<longrightarrow> safe w') \<and> lib w' = lib w \<and> ctxs w' = ctxs w
     \<and> nctx w' = nctx w \<and> curve_nids w' = curve_nids w \<and> (\<exists>es. hist w' = es @ hist w)"

lemma gains_empty [simp]: "gains {#} w w' = keeps w w'"
  by (simp add: gains_def keeps_def)

text \<open>And with a loss: the references \<open>D\<close>, which had to be held, were given back.\<close>

definition loses :: "handle multiset \<Rightarrow> world \<Rightarrow> world \<Rightarrow> bool" where
  "loses D w w' \<longleftrightarrow> owned w' = owned w - D \<and> (safe w \<and> D \<subseteq># owned w \<longrightarrow> safe w') \<and> lib w' = lib w
     \<and> ctxs w' = ctxs w \<and> nctx w' = nctx w \<and> curve_nids w' = curve_nids w
     \<and> (\<exists>es. hist w' = es @ hist w)"

lemmas eff_defs = keeps_def gains_def loses_def

definition held :: "hkind \<Rightarrow> ptr \<Rightarrow> handle multiset" where
  "held k p = (if p = NULL then {#} else {#(k, p)#})"

lemma held_simps [simp]: "held k NULL = {#}" "p \<noteq> NULL \<Longrightarrow> held k p = {#(k, p)#}"
  by (simp_all add: held_def)

section \<open>What was done, in order\<close>

text \<open>The calls of a stretch of history that succeeded, newest first.\<close>

fun succ_name :: "event \<Rightarrow> string option" where
  "succ_name (Do f hs as, r) = (if rc r = 1 then Some f else None)"
| "succ_name (New k f hs as, r) = (if rptr r \<noteq> NULL then Some f else None)"
| "succ_name _ = None"

definition did :: "string list \<Rightarrow> world \<Rightarrow> world \<Rightarrow> bool" where
  "did fs w w' \<longleftrightarrow> (\<exists>es. hist w' = es @ hist w \<and> subseq fs (List.map_filter succ_name es))"

lemma map_filter_append:
  "List.map_filter f (xs @ ys) = List.map_filter f xs @ List.map_filter f ys"
  by (simp add: List.map_filter_def)

lemma keeps_did: "keeps w w' \<Longrightarrow> did [] w w'"
  by (auto simp: keeps_def did_def)

lemma did_refl [simp]: "did [] w w"
  by (rule keeps_did) simp

lemma did_trans: "did fs w w' \<Longrightarrow> did gs w' w'' \<Longrightarrow> did (gs @ fs) w w''"
  unfolding did_def by (force simp: map_filter_append intro: list_emb_append_mono)

text \<open>Reading the new part of a history off its end.\<close>

lemma ext_intros:
  "P [] \<Longrightarrow> \<exists>es. h = es @ h \<and> P es"
  "P ys \<Longrightarrow> \<exists>es. ys @ h = es @ h \<and> P es"
  "\<exists>es. t = es @ h \<and> P (x # es) \<Longrightarrow> \<exists>es. x # t = es @ h \<and> P es"
  "\<exists>es. t = es @ h \<and> P (ys @ es) \<Longrightarrow> \<exists>es. ys @ t = es @ h \<and> P es"
  by (force simp flip: append_Cons append_assoc)+

lemmas did_defs = did_def keeps_def map_filter_simps map_filter_append

lemma did_hist_cong: "hist w1 = hist w2 \<Longrightarrow> did fs w w1 = did fs w w2"
  by (simp add: did_def)

lemma did_upd [simp]:
  "did fs w (w'\<lparr>ctxs := x\<rparr>) = did fs w w'" "did fs w (w'\<lparr>nctx := y\<rparr>) = did fs w w'"
  "did fs w (w'\<lparr>curve_nids := z\<rparr>) = did fs w w'"
  by (simp_all add: did_def)

section \<open>What was seen\<close>

text \<open>The history only grows; an event is new, or the new events satisfy a test.\<close>

definition ext :: "world \<Rightarrow> world \<Rightarrow> bool" where
  "ext w w' \<longleftrightarrow> (\<exists>es. hist w' = es @ hist w)"

definition saw :: "event \<Rightarrow> world \<Rightarrow> world \<Rightarrow> bool" where
  "saw e w w' \<longleftrightarrow> (\<exists>es. hist w' = es @ hist w \<and> e \<in> set es)"

definition only :: "(ccall \<Rightarrow> bool) \<Rightarrow> world \<Rightarrow> world \<Rightarrow> bool" where
  "only P w w' \<longleftrightarrow> (\<exists>es. hist w' = es @ hist w \<and> list_all (P \<circ> fst) es)"

lemma ext_refl [simp]: "ext w w" by (simp add: ext_def)

lemma ext_trans: "ext w w' \<Longrightarrow> ext w' w'' \<Longrightarrow> ext w w''" by (auto simp: ext_def)

lemma keeps_ext: "keeps w w' \<Longrightarrow> ext w w'" by (simp add: keeps_def ext_def)

lemma only_ext: "only P w w' \<Longrightarrow> ext w w'" by (auto simp: only_def ext_def)

lemma only_refl [simp]: "only P w w" by (simp add: only_def)

lemma only_trans: "only P w w' \<Longrightarrow> only P w' w'' \<Longrightarrow> only P w w''"
  by (auto simp: only_def)

lemma only_mono: "only P w w' \<Longrightarrow> (\<And>c. P c \<Longrightarrow> R c) \<Longrightarrow> only R w w'"
  unfolding only_def by (auto simp: list_all_iff)

lemma ext_push [simp]: "ext w w' \<Longrightarrow> ext w (push c r w')"
  by (auto simp: ext_def)

lemma only_push: "only P w w' \<Longrightarrow> P c \<Longrightarrow> only P w (push c r w')"
  by (auto simp: only_def)

lemma ext_unpush: "ext (push c r w) w' \<Longrightarrow> ext w w'"
  by (auto simp: ext_def)

lemma saw_push: "ext w w' \<Longrightarrow> saw (c, r) w (push c r w')"
  by (auto simp: ext_def saw_def)

lemma saw_later: "saw e w w' \<Longrightarrow> ext w' w'' \<Longrightarrow> saw e w w''"
  by (auto simp: ext_def saw_def)

lemma saw_earlier: "ext w w' \<Longrightarrow> saw e w' w'' \<Longrightarrow> saw e w w''"
  by (auto simp: ext_def saw_def)

lemma saw_refl [simp]: "\<not> saw e w w"
  by (simp add: saw_def)

lemma saw_push_eq: "ext w w' \<Longrightarrow> saw e w (push c r w') \<longleftrightarrow> e = (c, r) \<or> saw e w w'"
  unfolding ext_def saw_def by (auto simp: append_eq_Cons_conv Cons_eq_append_conv)

fun mem_call :: "ccall \<Rightarrow> bool" where
  "mem_call (New HMem f hs as) = True"
| "mem_call (Free HMem p) = True"
| "mem_call _ = False"

section \<open>Concrete libraries\<close>

text \<open>
  A library to run the model on: every call succeeds and returns a fresh pointer, the error
  queue is empty. Worked instances override single calls.
\<close>

definition yes :: "event list \<Rightarrow> cret" where
  "yes h = \<lparr>rc = 1, rptr = Suc (length h), rlen = 0, rlen2 = 0, rbuf = [], rbuf2 = [], rstr = [],
     rstr2 = [], rptrs = [], rstrs = [], rints = [], rcode = 0\<rparr>"

definition no :: cret where
  "no = \<lparr>rc = 0, rptr = NULL, rlen = 0, rlen2 = 0, rbuf = [], rbuf2 = [], rstr = [],
     rstr2 = [], rptrs = [], rstrs = [], rints = [], rcode = 0\<rparr>"

definition lib_yes :: "event list \<Rightarrow> ccall \<Rightarrow> cret" where "lib_yes h c = yes h"

text \<open>The outcome of a run, from its result.\<close>

lemma run_fst: "fst (run_state m w) = r \<Longrightarrow> run_state m w = (r, snd (run_state m w))"
  by (simp add: prod_eq_iff)

text \<open>A world over a library \<open>L\<close> in which the references \<open>hs\<close> are held; \<open>Default\<close> and one more context exist.\<close>

definition world_of :: "(event list \<Rightarrow> ccall \<Rightarrow> cret) \<Rightarrow> handle list \<Rightarrow> world" where
  "world_of L hs = \<lparr>lib = L, hist = map (\<lambda>(k, p). (New k ''setup'' [] [], (yes [])\<lparr>rptr := p\<rparr>)) hs,
     ctxs = \<lambda>_. \<lparr>c_ctx = NULL, c_fips = None, c_probes = \<lambda>_. None\<rparr>, nctx = 1, curve_nids = None\<rparr>"

lemma world_of_sel [simp]:
  "lib (world_of L hs) = L" "nctx (world_of L hs) = 1" "curve_nids (world_of L hs) = None"
  "ctxs (world_of L hs) c = \<lparr>c_ctx = NULL, c_fips = None, c_probes = \<lambda>_. None\<rparr>"
  by (simp_all add: world_of_def)

lemma owned_world_of [simp]:
  "NULL \<notin> snd ` set hs \<Longrightarrow> owned (world_of L hs) = mset hs \<and> safe (world_of L hs)"
  by (induction hs) (auto simp: world_of_def owned_def safe_def)

end
