(* ===== verification/Errors.thy ===== *)
theory Errors
  imports Cgo "HOL-Library.While_Combinator"
begin

text \<open>
  errors.go and errors_common.go: the \<open>*Error\<close> type, the drain of OpenSSL's thread-local
  error queue, and the output bound the whole package shares; and the version and cleansing
  helpers of ossl.go. The queue lives in the library; what the code relies on is the
  documented behaviour \<open>err_queue\<close> of \<open>ERR_get_error\<close> and \<open>ERR_clear_error\<close>.
\<close>

section \<open>The error type\<close>

definition maxOutputLength :: int where "maxOutputLength = 64 * 2 ^ 20"

text \<open>\<open>strings.Join\<close>.\<close>

fun strings_Join :: "string list \<Rightarrow> string \<Rightarrow> string" where
  "strings_Join [] sep = []"
| "strings_Join [x] sep = x"
| "strings_Join (x # y # xs) sep = x @ sep @ strings_Join (y # xs) sep"

definition Error_Error :: "string \<Rightarrow> string list \<Rightarrow> string" where
  "Error_Error op msgs =
     (if msgs = [] then ''ossl: '' @ op @ '' failed (no detail on error queue)''
      else ''ossl: '' @ op @ '': '' @ strings_Join msgs ''; '')"

text \<open>The text \<open>%s\<close> prints for a library error; other errors keep their format.\<close>

fun err_text :: "err \<Rightarrow> string" where
  "err_text (OsslError op codes msgs) = Error_Error op msgs"
| "err_text ErrVerification = ''ossl: verification failed''"
| "err_text ErrClosed = ''ossl: resource is closed''"
| "err_text ErrUnavailable = ''ossl: built without cgo; OpenSSL is unavailable''"
| "err_text (Errorf f as) = f"
| "err_text (Wrapf f e as) = f"
| "err_text (Panic m) = m"
| "err_text Diverged = []"

text \<open>\<open>Error.Reason\<close>: the low twelve bits of a queued code, compared with the argument.\<close>

definition Error_Reason :: "64 word list \<Rightarrow> int \<Rightarrow> bool" where
  "Error_Reason codes reason = list_ex (\<lambda>c. uint (c AND 0xfff) = reason) codes"

section \<open>Draining the queue\<close>

abbreviation ERR_get_error :: ccall where "ERR_get_error \<equiv> Do ''ERR_get_error'' [] []"

abbreviation ERR_error_string_n :: "64 word \<Rightarrow> ccall" where
  "ERR_error_string_n c \<equiv> Do ''ERR_error_string_n'' [] [AInt (uint c), AOut 256]"

abbreviation ERR_clear_error :: ccall where "ERR_clear_error \<equiv> Do ''ERR_clear_error'' [] []"

type_synonym entry = "64 word \<times> string"

text \<open>One turn of the loop of \<open>newError\<close>; the flag says whether to go on.\<close>

definition drain_step :: "bool \<times> entry list \<times> world \<Rightarrow> bool \<times> entry list \<times> world" where
  "drain_step s = (case s of (_, acc, w) \<Rightarrow>
     (case run_state (call ERR_get_error) w of (r, w1) \<Rightarrow>
       if rcode r = 0 then (False, acc, w1)
       else (case run_state (call (ERR_error_string_n (rcode r))) w1 of (m, w2) \<Rightarrow>
         (True, acc @ [(rcode r, rstr m)], w2))))"

text \<open>\<open>None\<close> when the loop never ends.\<close>

definition drain :: "(world, entry list option) state" where
  "drain = State (\<lambda>w. case while_option fst drain_step (True, [], w) of
     None \<Rightarrow> (None, w) | Some (_, acc, w') \<Rightarrow> (Some acc, w'))"

definition newError :: "string \<Rightarrow> (world, err) state" where
  "newError op = do {
     es \<leftarrow> drain;
     ret (case es of None \<Rightarrow> Diverged | Some es \<Rightarrow> OsslError op (map fst es) (map snd es))
   }"

definition clearErrors :: "(world, unit) state" where
  "clearErrors = do { call ERR_clear_error; ret () }"

text \<open>\<open>return newError(op)\<close>.\<close>

definition failE :: "string \<Rightarrow> 'a go" where
  "failE op = do { e \<leftarrow> newError op; fail e }"

definition raiseSyntheticError :: "int \<Rightarrow> unit go" where
  "raiseSyntheticError reason = do {
     call (Do ''ERR_new'' [] []);
     call (Do ''ERR_set_error'' [] [AInt 128, AInt (c_int reason)]);
     ok ()
   }"

definition peekError :: "(world, 64 word) state" where
  "peekError = do { r \<leftarrow> call (Do ''ERR_peek_error'' [] []); ret (rcode r) }"

section \<open>Draining is neutral\<close>

fun lib_err :: "err \<Rightarrow> bool" where
  "lib_err (OsslError _ _ _) = True"
| "lib_err Diverged = True"
| "lib_err _ = False"

lemma keeps_neutral:
  "needs c = {} \<Longrightarrow> dropped c r = {#} \<Longrightarrow> gained c r = {#} \<Longrightarrow> keeps w (push c r w)"
  by (simp add: keeps_def)

lemma drain_step_keeps: "drain_step (b, acc, w) = (b', acc', w') \<Longrightarrow> keeps w w'"
  by (auto simp: drain_step_def exec_simps keeps_def split: if_splits)

lemma drain_keeps: "run_state drain w = (r, w') \<Longrightarrow> keeps w w'"
proof -
  assume run: "run_state drain w = (r, w')"
  show ?thesis
  proof (cases "while_option fst drain_step (True, [], w)")
    case None
    with run show ?thesis by (simp add: drain_def)
  next
    case (Some s)
    have "keeps w (snd (snd s))"
    proof (rule while_option_rule [OF _ Some, where P = "\<lambda>s. keeps w (snd (snd s))"])
      fix s :: "bool \<times> entry list \<times> world" assume "keeps w (snd (snd s))"
      then show "keeps w (snd (snd (drain_step s)))"
        by (cases s; cases "drain_step s") (auto dest: drain_step_keeps intro: keeps_trans)
    qed simp
    with run Some show ?thesis by (auto simp: drain_def split: prod.splits)
  qed
qed

lemma wp_newError [vcg]:
  "(\<And>e w'. lib_err e \<Longrightarrow> keeps w w' \<Longrightarrow> Q e w') \<Longrightarrow> wp (newError op) Q w"
  by (auto simp: newError_def intro!: wpI dest!: drain_keeps split: option.splits)

lemma wp_clearErrors [vcg]: "(\<And>w'. keeps w w' \<Longrightarrow> Q () w') \<Longrightarrow> wp clearErrors Q w"
  by (auto simp: clearErrors_def keeps_neutral intro!: vcg)

lemma wp_failE [vcg]:
  "(\<And>e w'. lib_err e \<Longrightarrow> keeps w w' \<Longrightarrow> Q (Inl e) w') \<Longrightarrow> wp (failE op) Q w"
  by (auto simp: failE_def intro!: vcg)

text \<open>Draining and clearing add only calls on the error queue to the history.\<close>

fun err_call :: "ccall \<Rightarrow> bool" where
  "err_call (Do f hs as) = (f \<in> {''ERR_get_error'', ''ERR_error_string_n'', ''ERR_clear_error''})"
| "err_call _ = False"

definition err_only :: "world \<Rightarrow> world \<Rightarrow> bool" where
  "err_only w w' \<longleftrightarrow> (\<exists>es. hist w' = es @ hist w \<and> list_all (err_call \<circ> fst) es)"

lemma err_only_refl [simp]: "err_only w w"
  by (simp add: err_only_def)

lemma err_only_trans: "err_only w w' \<Longrightarrow> err_only w' w'' \<Longrightarrow> err_only w w''"
  by (auto simp: err_only_def)

lemma drain_step_err_only: "drain_step (b, acc, w) = (b', acc', w') \<Longrightarrow> err_only w w'"
  by (auto simp: drain_step_def exec_simps err_only_def split: if_splits)

lemma drain_err_only: "run_state drain w = (r, w') \<Longrightarrow> err_only w w'"
proof -
  assume run: "run_state drain w = (r, w')"
  show ?thesis
  proof (cases "while_option fst drain_step (True, [], w)")
    case None
    with run show ?thesis by (simp add: drain_def)
  next
    case (Some s)
    have "err_only w (snd (snd s))"
    proof (rule while_option_rule [OF _ Some, where P = "\<lambda>s. err_only w (snd (snd s))"])
      fix s :: "bool \<times> entry list \<times> world" assume "err_only w (snd (snd s))"
      then show "err_only w (snd (snd (drain_step s)))"
        by (cases s; cases "drain_step s") (auto dest: drain_step_err_only intro: err_only_trans)
    qed simp
    with run Some show ?thesis by (auto simp: drain_def split: prod.splits)
  qed
qed

lemma newError_err_only: "wp (newError op) (\<lambda>e w'. lib_err e \<and> keeps w w' \<and> err_only w w') w"
  by (auto simp: newError_def intro!: wpI dest: drain_err_only drain_keeps split: option.splits)

lemma clearErrors_err_only: "wp clearErrors (\<lambda>_ w'. keeps w w' \<and> err_only w w') w"
  by (auto simp: clearErrors_def err_only_def keeps_neutral intro!: vcg)

lemma err_only_eq: "err_only w w' = only err_call w w'"
  by (simp add: err_only_def only_def)

lemma clearErrors_only: "(\<And>w'. only err_call w w' \<Longrightarrow> Q () w') \<Longrightarrow> wp clearErrors Q w"
  by (rule wp_mono [OF clearErrors_err_only]) (auto simp: err_only_eq)

lemma failE_only:
  "(\<And>e w'. lib_err e \<Longrightarrow> only err_call w w' \<Longrightarrow> Q (Inl e) w') \<Longrightarrow> wp (failE op) Q w"
  unfolding failE_def wp_bind by (rule wp_mono [OF newError_err_only]) (auto simp: err_only_eq)

lemmas trace_rules = wp_call clearErrors_only failE_only

text \<open>
  A policy is a test every call of an operation passes. A policy says nothing of the error
  queue and of plain memory, so that draining and copying never break it.
\<close>

locale call_policy =
  fixes policy :: "ccall \<Rightarrow> bool"
  assumes policy_err: "err_call c \<Longrightarrow> policy c"
    and policy_mem: "mem_call c \<Longrightarrow> policy c"
begin

lemma from_err: "only err_call w w1 \<Longrightarrow> only policy w w1"
  by (blast intro: only_mono policy_err)

lemma from_mem: "only mem_call w w1 \<Longrightarrow> only policy w w1"
  by (blast intro: only_mono policy_mem)

lemma after_err: "only policy w w1 \<Longrightarrow> only err_call w1 w2 \<Longrightarrow> only policy w w2"
  by (blast intro: only_trans from_err)

lemma after_mem: "only policy w w1 \<Longrightarrow> only mem_call w1 w2 \<Longrightarrow> only policy w w2"
  by (blast intro: only_trans from_mem)

end

text \<open>A filter that ignores the queue sees nothing of them.\<close>

lemma err_list_filter:
  "list_all (err_call \<circ> fst) es \<Longrightarrow> (\<And>c r. err_call c \<Longrightarrow> \<not> P (c, r)) \<Longrightarrow> filter P es = []"
  by (auto simp: list_all_iff filter_empty_conv)

section \<open>Documented behaviour of the queue\<close>

text \<open>
  ERR_get_error(3): the earliest entry is returned and removed, 0 if there is none;
  ERR_clear_error empties the queue; reading a message leaves it alone. The queue that a
  history leaves behind is \<open>q\<close>.
\<close>

definition err_queue :: "(event list \<Rightarrow> ccall \<Rightarrow> cret) \<Rightarrow> (event list \<Rightarrow> 64 word list) \<Rightarrow> bool" where
  "err_queue L q \<longleftrightarrow> (\<forall>h.
     0 \<notin> set (q h)
     \<and> rcode (L h ERR_get_error) = (case q h of [] \<Rightarrow> 0 | c # cs \<Rightarrow> c)
     \<and> q ((ERR_get_error, L h ERR_get_error) # h) = tl (q h)
     \<and> (\<forall>c. q ((ERR_error_string_n c, L h (ERR_error_string_n c)) # h) = q h)
     \<and> q ((ERR_clear_error, L h ERR_clear_error) # h) = [])"

lemma err_queueD:
  assumes "err_queue L q"
  shows "0 \<notin> set (q h)"
    and "rcode (L h ERR_get_error) = (case q h of [] \<Rightarrow> 0 | c # cs \<Rightarrow> c)"
    and "q ((ERR_get_error, L h ERR_get_error) # h) = tl (q h)"
    and "q ((ERR_error_string_n c, L h (ERR_error_string_n c)) # h) = q h"
    and "q ((ERR_clear_error, L h ERR_clear_error) # h) = []"
  using assms unfolding err_queue_def by blast+

definition queue_measure :: "(event list \<Rightarrow> 64 word list) \<Rightarrow> bool \<times> entry list \<times> world \<Rightarrow> nat" where
  "queue_measure q s = (case s of (b, _, w) \<Rightarrow> length (q (hist w)) + (if b then 1 else 0))"

lemma drain_step_queue:
  assumes Q: "err_queue (lib w) q"
    and d: "drain_step (b, acc, w) = (b', acc', w')"
  shows "(case q (hist w) of
       [] \<Rightarrow> \<not> b' \<and> acc' = acc \<and> q (hist w') = []
     | c # cs \<Rightarrow> b' \<and> map fst acc' = map fst acc @ [c] \<and> q (hist w') = cs) \<and> lib w' = lib w"
proof (cases "q (hist w)")
  case Nil
  with d show ?thesis
    by (auto simp: drain_step_def exec_simps err_queueD [OF Q])
next
  case (Cons c cs)
  with err_queueD(1) [OF Q, of "hist w"] have "c \<noteq> 0" by auto
  with Cons d show ?thesis
    by (auto simp: drain_step_def exec_simps err_queueD(2-4) [OF Q])
qed

lemma drain_queue:
  assumes q: "err_queue (lib w) q"
  shows "\<exists>acc w'. run_state drain w = (Some acc, w') \<and> map fst acc = q (hist w) \<and> q (hist w') = []"
proof -
  define I where "I = (\<lambda>s :: bool \<times> entry list \<times> world. case s of (b, acc, w') \<Rightarrow>
    lib w' = lib w \<and> map fst acc @ q (hist w') = q (hist w) \<and> (\<not> b \<longrightarrow> q (hist w') = []))"
  have step: "I (drain_step s) \<and> queue_measure q (drain_step s) < queue_measure q s"
    if "I s" "fst s" for s
  proof (cases s)
    case (fields b acc w1)
    obtain b' acc' w2 where d: "drain_step (b, acc, w1) = (b', acc', w2)"
      by (cases "drain_step (b, acc, w1)")
    from that fields have "err_queue (lib w1) q" using q by (simp add: I_def)
    from drain_step_queue [OF this d] that fields d show ?thesis
      by (auto simp: I_def queue_measure_def split: list.splits)
  qed
  have init: "I (True, [], w)" by (simp add: I_def)
  obtain s where s: "while_option fst drain_step (True, [], w) = Some s"
    using measure_while_option_Some [where P = I and b = fst and c = drain_step
        and f = "queue_measure q" and s = "(True, [], w)"] step init by blast
  have "I s" by (rule while_option_rule [OF _ s, where P = I]) (use step init in auto)
  moreover have "\<not> fst s" by (rule while_option_stop [OF s])
  ultimately show ?thesis using s by (cases s) (auto simp: I_def drain_def)
qed

text \<open>
  C18: over a library that keeps its error queue as documented, \<open>newError\<close> terminates, takes
  every code that was queued, in order, each with its message, and leaves the queue empty.
\<close>

theorem newError_complete:
  assumes "err_queue (lib w) q"
  shows "\<exists>msgs w'. run_state (newError op) w = (OsslError op (q (hist w)) msgs, w')
    \<and> length msgs = length (q (hist w)) \<and> q (hist w') = []"
proof -
  obtain acc w' where d: "run_state drain w = (Some acc, w')" "map fst acc = q (hist w)" "q (hist w') = []"
    using drain_queue [OF assms] by blast
  have "length acc = length (q (hist w))" by (metis d(2) length_map)
  with d show ?thesis by (simp add: newError_def)
qed

text \<open>A library with two errors pending at the start.\<close>

fun two_pending :: "event list \<Rightarrow> 64 word list" where
  "two_pending [] = [0x1C8000D5, 7]"
| "two_pending ((c, r) # h) = (if c = ERR_get_error then tl (two_pending h)
     else if c = ERR_clear_error then [] else two_pending h)"

definition lib_two_pending :: "event list \<Rightarrow> ccall \<Rightarrow> cret" where
  "lib_two_pending h c = (if c = ERR_get_error
     then no\<lparr>rcode := (case two_pending h of [] \<Rightarrow> 0 | x # xs \<Rightarrow> x)\<rparr> else yes h)"

lemma two_pending_queue: "err_queue lib_two_pending two_pending"
proof -
  have "0 \<notin> set (two_pending h)" for h
  proof (induction h rule: two_pending.induct)
    case (2 c r h)
    then show ?case by (cases "two_pending h") auto
  qed simp
  then show ?thesis by (simp add: err_queue_def lib_two_pending_def)
qed

lemma newError_complete_witness:
  "\<exists>msgs w'. run_state (newError ''op'') (world_of lib_two_pending [])
     = (OsslError ''op'' [0x1C8000D5, 7] msgs, w') \<and> length msgs = 2"
  using newError_complete [of "world_of lib_two_pending []" two_pending "''op''"] two_pending_queue
  by (auto simp: world_of_def)

text \<open>
  \<open>Reason\<close> compares the low twelve bits of each code with its argument, so no code ever
  matches a reason of 4096 or more, the range OpenSSL's own flag-carrying reasons live in.
\<close>

theorem Reason_range: "reason < 0 \<or> 4096 \<le> reason \<Longrightarrow> \<not> Error_Reason codes reason"
proof -
  assume r: "reason < 0 \<or> 4096 \<le> reason"
  have "uint (c AND mask 12) < 2 ^ 12" for c :: "64 word"
    by (simp flip: take_bit_eq_mask add: unsigned_take_bit_eq)
      (simp add: take_bit_eq_mod)
  then have "uint (c AND 0xfff) < 4096" for c :: "64 word"
    by (simp add: mask_eq_exp_minus_1)
  then have "uint (c AND 0xfff) \<noteq> reason" for c :: "64 word"
    using r by (metis leD uint_ge_0)
  then show ?thesis by (simp add: Error_Reason_def list_ex_iff)
qed

lemma Reason_range_witness: "\<not> Error_Reason [0x0308010C] 524556"
  by (rule Reason_range) simp

section \<open>Version and cleansing (ossl.go)\<close>

text \<open>\<open>Zero(b)\<close>: a non-empty slice is cleansed by C; the slice is all zeros afterwards.\<close>

definition Zero :: "byte list \<Rightarrow> (world, byte list) state" where
  "Zero b = (if b = [] then ret b
     else do { call (Cleanse b); ret (replicate (length b) 0) })"

lemma wp_Zero [vcg]:
  "(\<And>w'. keeps w w' \<Longrightarrow> Q (replicate (length b) 0) w') \<Longrightarrow> wp (Zero b) Q w"
  by (auto simp: Zero_def keeps_neutral intro!: vcg)

definition VersionNumber :: "(world, 64 word) state" where
  "VersionNumber = do { r \<leftarrow> call (Do ''OpenSSL_version_num'' [] []); ret (rcode r) }"

text \<open>The test of \<open>AtLeast\<close> on a version number \<open>v\<close>; \<open>uint64(x)\<close> of a Go \<open>int\<close>.\<close>

definition at_least :: "64 word \<Rightarrow> int \<Rightarrow> int \<Rightarrow> bool" where
  "at_least v major minor \<longleftrightarrow>
     (word_of_int major :: 64 word) < drop_bit 28 v AND 0xff
     \<or> (drop_bit 28 v AND 0xff = word_of_int major
        \<and> word_of_int minor \<le> drop_bit 20 v AND 0xff)"

definition AtLeast :: "int \<Rightarrow> int \<Rightarrow> (world, bool) state" where
  "AtLeast major minor = do { v \<leftarrow> VersionNumber; ret (at_least v major minor) }"

text \<open>\<open>strings.Contains\<close>.\<close>

fun strings_Contains :: "string \<Rightarrow> string \<Rightarrow> bool" where
  "strings_Contains [] t \<longleftrightarrow> t = []"
| "strings_Contains (c # s) t \<longleftrightarrow> take (length t) (c # s) = t \<or> strings_Contains s t"

definition Version :: "(world, string) state" where
  "Version = do { r \<leftarrow> call (Do ''OpenSSL_version'' [] []); ret (rstr r) }"

text \<open>\<open>BuildVersion\<close> is a constant of the headers: a parameter here.\<close>

definition CheckVersion :: "string \<Rightarrow> unit go" where
  "CheckVersion bt = do {
     rt \<leftarrow> Version;
     if \<not> strings_Contains bt rt
     then fail (Errorf ''ossl: libcrypto mismatch: compiled against %q, loaded %q (set LD_LIBRARY_PATH or link with -Wl,-rpath)''
       [FStr bt, FStr rt])
     else ok ()
   }"

end
