(* ===== verification/Params.thy ===== *)
theory Params
  imports Errors
begin

text \<open>
  params.go: the builder of \<open>OSSL_PARAM\<close> arrays. Every referent is copied into C memory of
  the arena, so a builder step allocates; a failed \<open>calloc\<close> panics and leaves the arena as
  far as it got. A builder step therefore returns the builder beside an optional panic.
\<close>

section \<open>The builder\<close>

record params =
  p_list :: "OSSL_PARAM list"
  p_arena :: "ptr list"
  p_ended :: bool
  p_freed :: bool

definition newParams :: params where
  "newParams = \<lparr>p_list = [], p_arena = [], p_ended = False, p_freed = False\<rparr>"

definition calloc_panic :: err where "calloc_panic = Panic ''ossl: C.calloc failed''"

type_synonym 'a pstep = "params \<Rightarrow> (world, params \<times> (err + 'a)) state"

text \<open>\<open>alloc\<close>: at least one byte, zeroed, remembered in the arena.\<close>

definition p_alloc :: "int \<Rightarrow> ptr pstep" where
  "p_alloc n p = do {
     q \<leftarrow> new HMem ''calloc'' [] [AInt 1, AInt (c_size_t (if n \<le> 0 then 1 else n))];
     if q = NULL then ret (p, Inl calloc_panic)
     else ret (p\<lparr>p_arena := p_arena p @ [q]\<rparr>, Inr q)
   }"

definition p_then :: "'a pstep \<Rightarrow> ('a \<Rightarrow> 'b pstep) \<Rightarrow> 'b pstep" where
  "p_then m f p = do {
     (p', r) \<leftarrow> m p;
     case r of Inl e \<Rightarrow> ret (p', Inl e) | Inr x \<Rightarrow> f x p'
   }"

definition p_append :: "OSSL_PARAM \<Rightarrow> unit pstep" where
  "p_append x p = ret (p\<lparr>p_list := p_list p @ [x]\<rparr>, Inr ())"

text \<open>\<open>cstr\<close> and \<open>cbytes\<close> copy into the arena; the value read back is the copied one.\<close>

definition p_cstr :: "string \<Rightarrow> ptr pstep" where
  "p_cstr s = p_alloc (go_len s + 1)"

definition p_cbytes :: "byte list \<Rightarrow> ptr pstep" where
  "p_cbytes b = p_alloc (go_len b)"

text \<open>Go evaluates the arguments of the constructor left to right: the key first.\<close>

definition UTF8 :: "string \<Rightarrow> string \<Rightarrow> unit pstep" where
  "UTF8 key val = p_then (p_cstr key) (\<lambda>k. p_then (p_cstr val) (\<lambda>v.
     p_append (Param k (c_string key) v (PUtf8 (c_string val)))))"

definition Octets :: "string \<Rightarrow> byte list \<Rightarrow> unit pstep" where
  "Octets key b = p_then (p_cstr key) (\<lambda>k. p_then (p_cbytes b) (\<lambda>v.
     p_append (Param k (c_string key) v (POctets b))))"

text \<open>The integer steps allocate the value first, then the key.\<close>

definition IntP :: "string \<Rightarrow> int \<Rightarrow> unit pstep" where
  "IntP key v = p_then (p_alloc 4) (\<lambda>q. p_then (p_cstr key) (\<lambda>k.
     p_append (Param k (c_string key) q (PInt (c_int v)))))"

definition UInt :: "string \<Rightarrow> int \<Rightarrow> unit pstep" where
  "UInt key v = p_then (p_alloc 4) (\<lambda>q. p_then (p_cstr key) (\<lambda>k.
     p_append (Param k (c_string key) q (PUInt (c_uint v)))))"

definition SizeT :: "string \<Rightarrow> int \<Rightarrow> unit pstep" where
  "SizeT key v = p_then (p_alloc 8) (\<lambda>q. p_then (p_cstr key) (\<lambda>k.
     p_append (Param k (c_string key) q (PSizeT (c_size_t v)))))"

definition OctetsOut :: "string \<Rightarrow> int \<Rightarrow> ptr pstep" where
  "OctetsOut key n = p_then (p_alloc n) (\<lambda>q. p_then (p_cstr key) (\<lambda>k.
     p_then (p_append (Param k (c_string key) q (POut (c_size_t n)))) (\<lambda>_ p. ret (p, Inr q))))"

definition OctetsNilData :: "string \<Rightarrow> int \<Rightarrow> unit pstep" where
  "OctetsNilData key n = p_then (p_cstr key) (\<lambda>k.
     p_append (Param k (c_string key) NULL (PNilData (c_size_t n))))"

text \<open>\<open>readOut\<close>: the first \<open>n\<close> bytes of a zeroed buffer after C wrote \<open>out\<close> to it.\<close>

definition readOut :: "byte list \<Rightarrow> int \<Rightarrow> byte list" where
  "readOut out n = take (nat (c_int n)) (out @ replicate (nat (c_int n)) 0)"

text \<open>\<open>c()\<close>: ends the array once and yields it; after \<open>free\<close> it panics.\<close>

definition p_c :: "params \<Rightarrow> err + (params \<times> OSSL_PARAM list)" where
  "p_c p = (if p_freed p then Inl (Panic ''ossl: params used after free'')
     else let p' = (if p_ended p then p else p\<lparr>p_list := p_list p @ [ParamEnd], p_ended := True\<rparr>)
       in if p_list p' = [] then Inl index_panic else Inr (p', p_list p'))"

fun free_all :: "ptr list \<Rightarrow> (world, unit) state" where
  "free_all [] = ret ()"
| "free_all (q # qs) = do { free HMem q; free_all qs }"

definition p_free :: "params \<Rightarrow> (world, params) state" where
  "p_free p = do { free_all (p_arena p); ret \<lparr>p_list = [], p_arena = [], p_ended = p_ended p, p_freed = True\<rparr> }"

fun p_steps :: "unit pstep list \<Rightarrow> unit pstep" where
  "p_steps [] = (\<lambda>p. ret (p, Inr ()))"
| "p_steps (s # ss) = p_then s (\<lambda>_. p_steps ss)"

text \<open>
  The two shapes of use. \<open>p := newParams(); defer p.free(); steps; use(p.c())\<close> releases the
  arena whatever happens; \<open>p := newParams().steps; defer p.free(); use(p.c())\<close> registers the
  release only once the chain is built.
\<close>

definition use_c :: "params \<Rightarrow> (OSSL_PARAM list \<Rightarrow> 'a go) \<Rightarrow> 'a go" where
  "use_c p k = (case p_c p of Inl e \<Rightarrow> fail e | Inr (p', ps) \<Rightarrow> k ps)"

definition drop_params :: "params \<Rightarrow> (world, unit) state" where
  "drop_params p = do { p_free p; ret () }"

definition with_params :: "unit pstep list \<Rightarrow> (OSSL_PARAM list \<Rightarrow> 'a go) \<Rightarrow> 'a go" where
  "with_params ss k = do {
     (p, r) \<leftarrow> p_steps ss newParams;
     deferring (drop_params p) (case r of Inl e \<Rightarrow> fail e | Inr _ \<Rightarrow> use_c p k)
   }"

definition with_chain :: "unit pstep list \<Rightarrow> (params \<Rightarrow> 'a go) \<Rightarrow> 'a go" where
  "with_chain ss k = do {
     (p, r) \<leftarrow> p_steps ss newParams;
     case r of Inl e \<Rightarrow> fail e | Inr _ \<Rightarrow> deferring (drop_params p) (k p)
   }"

text \<open>The dynamic value of a parameter given as \<open>any\<close>; other types by their name.\<close>

datatype any = AnyString string | AnyBytes "byte list" | AnyInt int | AnyUint "64 word" | AnyOther string

section \<open>Parameter names (params.go)\<close>

definition pKeyDigest :: string where "pKeyDigest = ''digest''"
definition pKeyCipher :: string where "pKeyCipher = ''cipher''"
definition pKeyKey :: string where "pKeyKey = ''key''"
definition pKeySalt :: string where "pKeySalt = ''salt''"
definition pKeyInfo :: string where "pKeyInfo = ''info''"
definition pKeyMode :: string where "pKeyMode = ''mode''"
definition pKeyIter :: string where "pKeyIter = ''iter''"
definition pKeyPassword :: string where "pKeyPassword = ''pass''"
definition pKeySize :: string where "pKeySize = ''size''"
definition pKeyCustom :: string where "pKeyCustom = ''custom''"
definition pKeyRSABits :: string where "pKeyRSABits = ''bits''"
definition pKeyGroupName :: string where "pKeyGroupName = ''group''"
definition pKeyAEADTag :: string where "pKeyAEADTag = ''tag''"
definition pKeyAEADTagLen :: string where "pKeyAEADTagLen = ''taglen''"
definition pKeyIV :: string where "pKeyIV = ''iv''"
definition pKeyIVLen :: string where "pKeyIVLen = ''ivlen''"
definition pKeyArgonLane :: string where "pKeyArgonLane = ''lanes''"
definition pKeyArgonMem :: string where "pKeyArgonMem = ''memcost''"
definition pKeyArgonAD :: string where "pKeyArgonAD = ''ad''"
definition pKeySecret :: string where "pKeySecret = ''secret''"
definition pKeyThreads :: string where "pKeyThreads = ''threads''"
definition pKeyContext :: string where "pKeyContext = ''context-string''"
definition pKeyInstance :: string where "pKeyInstance = ''instance''"
definition pKeyNonceType :: string where "pKeyNonceType = ''nonce-type''"
definition pKeyDeterministic :: string where "pKeyDeterministic = ''deterministic''"

lemmas pKey_defs = pKeyDigest_def pKeyCipher_def pKeyKey_def pKeySalt_def pKeyInfo_def pKeyMode_def
  pKeyIter_def pKeyPassword_def pKeySize_def pKeyCustom_def pKeyRSABits_def pKeyGroupName_def
  pKeyAEADTag_def pKeyAEADTagLen_def pKeyIV_def pKeyIVLen_def pKeyArgonLane_def pKeyArgonMem_def
  pKeyArgonAD_def pKeySecret_def pKeyThreads_def pKeyContext_def pKeyInstance_def
  pKeyNonceType_def pKeyDeterministic_def

text \<open>The keys are plain C strings.\<close>

lemma pKey_cstring [simp]:
  "c_string pKeyDigest = pKeyDigest" "c_string pKeyCipher = pKeyCipher"
  "c_string pKeyKey = pKeyKey" "c_string pKeySalt = pKeySalt"
  "c_string pKeyInfo = pKeyInfo" "c_string pKeyMode = pKeyMode"
  "c_string pKeyIter = pKeyIter" "c_string pKeyPassword = pKeyPassword"
  "c_string pKeySize = pKeySize" "c_string pKeyCustom = pKeyCustom"
  "c_string pKeyRSABits = pKeyRSABits" "c_string pKeyGroupName = pKeyGroupName"
  "c_string pKeyAEADTag = pKeyAEADTag" "c_string pKeyAEADTagLen = pKeyAEADTagLen"
  "c_string pKeyIV = pKeyIV" "c_string pKeyIVLen = pKeyIVLen"
  "c_string pKeyArgonLane = pKeyArgonLane" "c_string pKeyArgonMem = pKeyArgonMem"
  "c_string pKeyArgonAD = pKeyArgonAD" "c_string pKeySecret = pKeySecret"
  "c_string pKeyThreads = pKeyThreads" "c_string pKeyContext = pKeyContext"
  "c_string pKeyInstance = pKeyInstance" "c_string pKeyNonceType = pKeyNonceType"
  "c_string pKeyDeterministic = pKeyDeterministic"
  by (simp_all add: pKey_defs c_string_def)

section \<open>The arena owns every referent\<close>

definition blocks :: "ptr list \<Rightarrow> handle multiset" where
  "blocks qs = mset (map (\<lambda>q. (HMem, q)) qs)"

lemma blocks_simps [simp]:
  "blocks [] = {#}" "blocks (q # qs) = add_mset (HMem, q) (blocks qs)"
  "blocks (ps @ qs) = blocks ps + blocks qs"
  by (simp_all add: blocks_def)

lemma set_blocks: "set_mset (blocks qs) = (\<lambda>q. (HMem, q)) ` set qs"
  by (simp add: blocks_def)

text \<open>What a parameter says to the library, whatever memory it lives in.\<close>

fun param_view :: "OSSL_PARAM list \<Rightarrow> (string \<times> pval) list" where
  "param_view [] = []"
| "param_view (Param k s d v # ps) = (s, v) # param_view ps"
| "param_view (ParamEnd # ps) = []"

text \<open>
  Well-formedness of a builder under construction: no NULL block is recorded, every pointer
  in the array is a block of the arena, and no end marker was written.
\<close>

definition wf_params :: "params \<Rightarrow> bool" where
  "wf_params p \<longleftrightarrow> NULL \<notin> set (p_arena p) \<and> \<not> p_freed p \<and> \<not> p_ended p
     \<and> ParamEnd \<notin> set (p_list p)
     \<and> \<Union> (param_handles ` set (p_list p)) \<subseteq> set_mset (blocks (p_arena p))"

lemma wf_newParams [simp]: "wf_params newParams"
  by (simp add: wf_params_def newParams_def)

lemma newParams_sel [simp]: "p_arena newParams = []" "p_list newParams = []"
  by (simp_all add: newParams_def)

text \<open>
  What a builder step promises: the references gained are exactly the blocks the arena grew
  by, whether it panicked or not, and nothing else of the world changes.
\<close>

definition grows :: "params \<Rightarrow> world \<Rightarrow> params \<Rightarrow> world \<Rightarrow> bool" where
  "grows p w p' w' \<longleftrightarrow> (\<exists>qs. p_arena p' = p_arena p @ qs \<and> owned w' = owned w + blocks qs)
     \<and> (safe w \<longrightarrow> safe w') \<and> lib w' = lib w \<and> ctxs w' = ctxs w \<and> nctx w' = nctx w
     \<and> curve_nids w' = curve_nids w
     \<and> (\<exists>es. hist w' = es @ hist w \<and> list_all (mem_call \<circ> fst) es)"

lemma grows_refl [simp]: "grows p w p w"
  by (auto simp: grows_def)

lemma grows_trans: "grows p w p' w' \<Longrightarrow> grows p' w' p'' w'' \<Longrightarrow> grows p w p'' w''"
  unfolding grows_def by (auto simp: ac_simps)

lemma wp_p_alloc [vcg]:
  assumes "\<And>w'. grows p w p w' \<Longrightarrow> Q (p, Inl calloc_panic) w'"
    and "\<And>q w'. q \<noteq> NULL \<Longrightarrow> grows p w (p\<lparr>p_arena := p_arena p @ [q]\<rparr>) w'
       \<Longrightarrow> Q (p\<lparr>p_arena := p_arena p @ [q]\<rparr>, Inr q) w'"
  shows "wp (p_alloc n p) Q w"
  using assms by (auto simp: p_alloc_def grows_def intro!: vcg)

text \<open>A step that adds one parameter reading \<open>kv\<close>.\<close>

definition pstep_ok :: "unit pstep \<Rightarrow> string \<times> pval \<Rightarrow> bool" where
  "pstep_ok m kv \<longleftrightarrow> (\<forall>p w. wf_params p \<longrightarrow>
     wp (m p) (\<lambda>(p', r) w'. wf_params p' \<and> grows p w p' w'
       \<and> (case r of Inl e \<Rightarrow> e = calloc_panic
          | Inr _ \<Rightarrow> param_view (p_list p') = param_view (p_list p) @ [kv])) w)"

lemma param_view_append:
  "ParamEnd \<notin> set ps \<Longrightarrow> param_view (ps @ qs) = param_view ps @ param_view qs"
  by (induction ps rule: param_view.induct) auto

lemma wf_arena [simp]:
  "NULL \<notin> set qs \<Longrightarrow> wf_params p \<Longrightarrow> wf_params (p\<lparr>p_arena := p_arena p @ qs\<rparr>)"
  by (auto simp: wf_params_def)

lemma wf_append [simp]:
  "wf_params (p\<lparr>p_arena := a\<rparr>) \<Longrightarrow> param_handles (Param k s d v) \<subseteq> set_mset (blocks a) \<Longrightarrow>
   wf_params (p\<lparr>p_arena := a, p_list := p_list p @ [Param k s d v]\<rparr>)"
  by (simp add: wf_params_def)

lemma view_append_wf [simp]:
  "wf_params p \<Longrightarrow> param_view (p_list p @ [Param k s d v]) = param_view (p_list p) @ [(s, v)]"
  by (simp add: wf_params_def param_view_append)

lemma wp_p_then [simp]:
  "wp (p_then m f p) Q = wp (m p) (\<lambda>(p', r) w'. case r of Inl e \<Rightarrow> Q (p', Inl e) w'
     | Inr x \<Rightarrow> wp (f x p') Q w')"
  by (auto simp: p_then_def wp_def fun_eq_iff split: prod.splits sum.splits)

lemma wp_p_append [simp]: "wp (p_append x p) Q = Q (p\<lparr>p_list := p_list p @ [x]\<rparr>, Inr ())"
  by (simp add: p_append_def)

lemma grows_list [simp]: "grows p w (p'\<lparr>p_list := l\<rparr>) w' \<longleftrightarrow> grows p w p' w'"
  by (simp add: grows_def)

lemmas pstep_defs = p_cstr_def p_cbytes_def UTF8_def Octets_def IntP_def UInt_def SizeT_def
  OctetsOut_def OctetsNilData_def

lemmas pstep_proof = grows_def set_blocks

lemma pstep_UTF8: "pstep_ok (UTF8 k v) (c_string k, PUtf8 (c_string v))"
  unfolding pstep_ok_def by (auto simp: pstep_defs pstep_proof intro!: vcg)

lemma pstep_Octets: "pstep_ok (Octets k b) (c_string k, POctets b)"
  unfolding pstep_ok_def by (auto simp: pstep_defs pstep_proof intro!: vcg)

lemma pstep_IntP: "pstep_ok (IntP k v) (c_string k, PInt (c_int v))"
  unfolding pstep_ok_def by (auto simp: pstep_defs pstep_proof intro!: vcg)

lemma pstep_UInt: "pstep_ok (UInt k v) (c_string k, PUInt (c_uint v))"
  unfolding pstep_ok_def by (auto simp: pstep_defs pstep_proof intro!: vcg)

lemma pstep_SizeT: "pstep_ok (SizeT k v) (c_string k, PSizeT (c_size_t v))"
  unfolding pstep_ok_def by (auto simp: pstep_defs pstep_proof intro!: vcg)

lemma pstep_OctetsNilData: "pstep_ok (OctetsNilData k n) (c_string k, PNilData (c_size_t n))"
  unfolding pstep_ok_def by (auto simp: pstep_defs pstep_proof intro!: vcg)

lemmas pstep_oks = pstep_UTF8 pstep_Octets pstep_IntP pstep_UInt pstep_SizeT pstep_OctetsNilData

lemma wp_OctetsOut:
  assumes wf: "wf_params p"
    and "\<And>p' w'. wf_params p' \<Longrightarrow> grows p w p' w' \<Longrightarrow> Q (p', Inl calloc_panic) w'"
    and "\<And>p' q w'. wf_params p' \<Longrightarrow> grows p w p' w' \<Longrightarrow>
      param_view (p_list p') = param_view (p_list p) @ [(c_string k, POut (c_size_t n))] \<Longrightarrow>
      Q (p', Inr q) w'"
  shows "wp (OctetsOut k n p) Q w"
proof -
  have "wp (OctetsOut k n p) (\<lambda>(p', r) w'. wf_params p' \<and> grows p w p' w'
      \<and> (case r of Inl e \<Rightarrow> e = calloc_panic
         | Inr _ \<Rightarrow> param_view (p_list p') = param_view (p_list p) @ [(c_string k, POut (c_size_t n))])) w"
    using wf by (auto simp: pstep_defs pstep_proof intro!: vcg)
  then show ?thesis
    by (rule wp_mono) (auto split: sum.splits intro: assms(2,3))
qed

lemma wp_p_steps:
  assumes "list_all2 pstep_ok ss kvs" "wf_params p"
  shows "wp (p_steps ss p) (\<lambda>(p', r) w'. wf_params p' \<and> grows p w p' w'
      \<and> (case r of Inl e \<Rightarrow> e = calloc_panic
         | Inr _ \<Rightarrow> param_view (p_list p') = param_view (p_list p) @ kvs)) w"
  using assms
proof (induction ss kvs arbitrary: p w rule: list_all2_induct)
  case Nil
  then show ?case by simp
next
  case (Cons s ss kv kvs)
  have "wp (s p) (\<lambda>(p', r) w'. wf_params p' \<and> grows p w p' w'
       \<and> (case r of Inl e \<Rightarrow> e = calloc_panic
          | Inr _ \<Rightarrow> param_view (p_list p') = param_view (p_list p) @ [kv])) w"
    using Cons.hyps(1) Cons.prems by (simp add: pstep_ok_def)
  then show ?case
    unfolding p_steps.simps wp_p_then
  proof (rule wp_mono, clarsimp split: sum.splits)
    fix p' u w'
    assume p': "wf_params p'" "grows p w p' w'"
      "param_view (p_list p') = param_view (p_list p) @ [kv]"
    show "wp (p_steps ss p') (\<lambda>(p', r) w'. wf_params p' \<and> grows p w p' w'
        \<and> (case r of Inl e \<Rightarrow> e = calloc_panic
           | Inr x \<Rightarrow> param_view (p_list p') = param_view (p_list p) @ kv # kvs)) w'"
      by (rule wp_mono [OF Cons.IH [OF p'(1)]])
         (auto split: sum.splits intro: grows_trans [OF p'(2)] simp: p'(3))
  qed
qed

lemma wp_p_stepsI:
  assumes "list_all2 pstep_ok ss kvs" "wf_params p"
    and "\<And>p' w'. wf_params p' \<Longrightarrow> grows p w p' w' \<Longrightarrow> Q (p', Inl calloc_panic) w'"
    and "\<And>p' w'. wf_params p' \<Longrightarrow> grows p w p' w' \<Longrightarrow>
      param_view (p_list p') = param_view (p_list p) @ kvs \<Longrightarrow> Q (p', Inr ()) w'"
  shows "wp (p_steps ss p) Q w"
  by (rule wp_mono [OF wp_p_steps [OF assms(1,2)]]) (auto split: sum.splits intro: assms(3,4))

text \<open>Steps that all add a parameter, whichever.\<close>

definition psteps_ok :: "unit pstep list \<Rightarrow> bool" where
  "psteps_ok ss \<longleftrightarrow> (\<forall>s \<in> set ss. \<exists>kv. pstep_ok s kv)"

lemma psteps_ok_simps [simp]:
  "psteps_ok []" "psteps_ok (s # ss) \<longleftrightarrow> (\<exists>kv. pstep_ok s kv) \<and> psteps_ok ss"
  "psteps_ok (ss @ ts) \<longleftrightarrow> psteps_ok ss \<and> psteps_ok ts"
  by (auto simp: psteps_ok_def)

lemma psteps_ok_each [simp]:
  "\<exists>a b. pstep_ok (UTF8 k s) (a, b)" "\<exists>a b. pstep_ok (Octets k bs) (a, b)" "\<exists>a b. pstep_ok (IntP k v) (a, b)"
  "\<exists>a b. pstep_ok (UInt k v) (a, b)" "\<exists>a b. pstep_ok (SizeT k v) (a, b)"
  "\<exists>a b. pstep_ok (OctetsNilData k v) (a, b)"
  by (blast intro: pstep_oks)+

lemma psteps_ok_all2: "psteps_ok ss \<Longrightarrow> \<exists>kvs. list_all2 pstep_ok ss kvs"
  by (induction ss) (auto simp: list_all2_Cons1 simp del: split_paired_Ex)

section \<open>Using and releasing an array\<close>

text \<open>Releasing the arena gives back exactly its blocks.\<close>

lemma wp_free_all:
  "NULL \<notin> set qs \<Longrightarrow> wp (free_all qs) (\<lambda>_ w'. loses (blocks qs) w w') w"
proof (induction qs arbitrary: w)
  case Nil
  then show ?case by (simp add: loses_def)
next
  case (Cons q qs)
  show ?case
    unfolding free_all.simps wp_bind wp_free
  proof (rule wp_call, rule wp_mono [OF Cons.IH])
    fix r :: cret and w' :: world
    assume "loses (blocks qs) (push (Free HMem q) r w) w'"
    with Cons.prems show "loses (blocks (q # qs)) w w'"
      by (auto simp: loses_def insert_subset_eq_iff)
  qed (use Cons.prems in simp)
qed

lemma wp_drop_params:
  assumes "NULL \<notin> set (p_arena p)"
  shows "wp (drop_params p) (\<lambda>_ w'. loses (blocks (p_arena p)) w w') w"
  using wp_free_all [OF assms] by (simp add: drop_params_def p_free_def)

text \<open>An array the library may read: it says \<open>kvs\<close> and its memory is held.\<close>

definition live_params :: "(string \<times> pval) list \<Rightarrow> OSSL_PARAM list \<Rightarrow> world \<Rightarrow> bool" where
  "live_params kvs ps w \<longleftrightarrow> param_view ps = kvs
     \<and> \<Union> (param_handles ` set ps) \<subseteq> set_mset (owned w)"

lemma p_c_wf:
  assumes "wf_params p"
  shows "\<exists>p'. p_c p = Inr (p', p_list p @ [ParamEnd]) \<and> p_arena p' = p_arena p"
  using assms by (auto simp: p_c_def wf_params_def Let_def)

text \<open>
  The body of \<open>with_params\<close> sees a live array with the content the steps built; what it gains
  is what the whole gains, and a failed allocation gains nothing.
\<close>

lemma wp_drop_after:
  assumes p: "wf_params p" "grows newParams w p w1" and g: "gains D w1 w2"
    and post: "\<And>w'. gains D w w' \<Longrightarrow> Q w'"
  shows "wp (drop_params p) (\<lambda>_ w'. Q w') w2"
proof (rule wp_mono [OF wp_drop_params])
  show "NULL \<notin> set (p_arena p)" using p by (simp add: wf_params_def)
  fix u :: unit and w' assume "loses (blocks (p_arena p)) w2 w'"
  with p g have "gains D w w'"
    by (auto simp: loses_def grows_def gains_def)
  then show "Q w'" by (rule post)
qed

definition reads_params :: "world \<Rightarrow> (string \<times> pval) list \<Rightarrow> OSSL_PARAM list \<Rightarrow> world \<Rightarrow> bool" where
  "reads_params w kvs ps w1 \<longleftrightarrow> live_params kvs ps w1 \<and> (\<forall>h. h \<in># owned w \<longrightarrow> h \<in># owned w1) \<and> (safe w \<longrightarrow> safe w1)
     \<and> lib w1 = lib w \<and> ctxs w1 = ctxs w \<and> nctx w1 = nctx w \<and> curve_nids w1 = curve_nids w"

lemmas reads_defs = reads_params_def live_params_def

lemma grows_reads:
  assumes "wf_params p" "grows newParams w p w1"
  shows "reads_params w (param_view (p_list p)) (p_list p @ [ParamEnd]) w1"
  using assms by (auto simp: reads_params_def live_params_def wf_params_def grows_def param_view_append)

lemma wp_use_c:
  assumes p: "wf_params p" "grows newParams w p w1"
    and body: "\<And>ps. reads_params w (param_view (p_list p)) ps w1 \<Longrightarrow> wp (k ps) Q w1"
  shows "wp (use_c p k) Q w1"
  using p_c_wf [OF p(1)] body [OF grows_reads [OF p]] by (auto simp: use_c_def)

lemma wp_with_params:
  assumes ss: "list_all2 pstep_ok ss kvs"
    and body: "\<And>ps w1. reads_params w kvs ps w1 \<Longrightarrow>
      wp (k ps) (\<lambda>r w2. gains (D r) w1 w2 \<and> P r) w1"
    and post: "\<And>r w'. gains (D r) w w' \<Longrightarrow> P r \<Longrightarrow> Q r w'"
    and panic: "\<And>w'. keeps w w' \<Longrightarrow> Q (Inl calloc_panic) w'"
  shows "wp (with_params ss k) Q w"
  unfolding with_params_def wp_bind
proof (rule wp_p_stepsI [OF ss wf_newParams], goal_cases)
  case (1 p w1)
  show ?case using 1 by (auto intro!: wp_drop_after [where D = "{#}"] panic)
next
  case (2 p w1)
  show ?case
    using 2 by (auto intro!: wp_use_c wp_mono [OF body] wp_drop_after [OF 2(1,2)] post)
qed

lemma wp_with_chain:
  assumes ss: "list_all2 pstep_ok ss kvs"
    and body: "\<And>p w1. wf_params p \<Longrightarrow> grows newParams w p w1 \<Longrightarrow> param_view (p_list p) = kvs \<Longrightarrow>
      wp (k p) (\<lambda>r w2. gains (D r) w1 w2 \<and> P r) w1"
    and post: "\<And>r w'. gains (D r) w w' \<Longrightarrow> P r \<Longrightarrow> Q r w'"
    and panic: "\<And>w' qs. gains (blocks qs) w w' \<Longrightarrow> Q (Inl calloc_panic) w'"
  shows "wp (with_chain ss k) Q w"
  unfolding with_chain_def wp_bind
proof (rule wp_p_stepsI [OF ss wf_newParams], goal_cases)
  case (1 p w1)
  then show ?case by (auto simp: grows_def gains_def intro!: panic)
next
  case (2 p w1)
  show ?case
    using 2 by (auto intro!: wp_mono [OF body] wp_drop_after [OF 2(1,2)] post)
qed

section \<open>The trace of a parameter array\<close>

text \<open>Around the use of the array, only memory is allocated and released.\<close>

lemma grows_mem: "grows p w p' w' \<Longrightarrow> only mem_call w w'"
  by (auto simp: grows_def only_def)

lemma free_all_mem: "wp (free_all qs) (\<lambda>_ w'. only mem_call w w' \<and> lib w' = lib w) w"
proof (induction qs arbitrary: w)
  case (Cons q qs)
  have "only mem_call w (push (Free HMem q) r w)" for r by (simp add: only_push)
  then show ?case
    unfolding free_all.simps wp_bind wp_free
    by (intro wp_call wp_mono [OF Cons.IH]) (auto intro: only_trans)
qed simp

lemma drop_params_mem: "wp (drop_params p) (\<lambda>_ w'. only mem_call w w' \<and> lib w' = lib w) w"
  using free_all_mem by (simp add: drop_params_def p_free_def)

lemma wp_with_chain_trace:
  assumes ss: "list_all2 pstep_ok ss kvs"
    and body: "\<And>p w1. wf_params p \<Longrightarrow> grows newParams w p w1 \<Longrightarrow> param_view (p_list p) = kvs \<Longrightarrow>
      wp (k p) (\<lambda>r w2. P r w1 w2) w1"
    and post: "\<And>r w1 w2 w'. only mem_call w w1 \<Longrightarrow> lib w1 = lib w \<Longrightarrow> P r w1 w2 \<Longrightarrow>
      only mem_call w2 w' \<Longrightarrow> lib w' = lib w2 \<Longrightarrow> Q r w'"
    and panic: "\<And>w'. only mem_call w w' \<Longrightarrow> lib w' = lib w \<Longrightarrow> Q (Inl calloc_panic) w'"
  shows "wp (with_chain ss k) Q w"
  unfolding with_chain_def wp_bind
proof (rule wp_p_stepsI [OF ss wf_newParams], goal_cases)
  case (1 p w1)
  then show ?case by (auto simp: grows_def only_def intro!: panic)
next
  case (2 p w1)
  then have w1: "only mem_call w w1" "lib w1 = lib w" by (auto simp: grows_def only_def)
  show ?case
    using 2 by (auto intro!: wp_mono [OF body] wp_mono [OF drop_params_mem] post [OF w1])
qed

section \<open>Composing neutral operations\<close>

text \<open>
  Most operations leave the references as they were. The exception is a \<open>calloc\<close> that fails
  while a parameter chain is built: it panics before the release of the arena is registered.
  \<open>neutral_op I m\<close> says so of \<open>m\<close> in every world where \<open>I\<close> holds, an assertion that survives
  calls which only add references.
\<close>

definition neutral :: "err + 'a \<Rightarrow> world \<Rightarrow> world \<Rightarrow> bool" where
  "neutral r w w' \<longleftrightarrow> r = Inl calloc_panic \<or> keeps w w'"

definition neutral_op :: "(world \<Rightarrow> bool) \<Rightarrow> 'a go \<Rightarrow> bool" where
  "neutral_op I m \<longleftrightarrow> (\<forall>w. I w \<longrightarrow> wp m (\<lambda>r w'. neutral r w w') w)"

definition stable :: "(world \<Rightarrow> bool) \<Rightarrow> bool" where
  "stable I \<longleftrightarrow> (\<forall>w w' D. I w \<longrightarrow> gains D w w' \<longrightarrow> I w')"

lemma stableD: "stable I \<Longrightarrow> I w \<Longrightarrow> gains D w w' \<Longrightarrow> I w'"
  unfolding stable_def by blast

lemma stable_keeps: "stable I \<Longrightarrow> I w \<Longrightarrow> keeps w w' \<Longrightarrow> I w'"
  using stableD [of I w "{#}" w'] by simp

lemma neutral_opD: "neutral_op I m \<Longrightarrow> I w \<Longrightarrow> wp m (\<lambda>r w'. neutral r w w') w"
  by (simp add: neutral_op_def)

lemma neutral_keeps: "keeps w w' \<Longrightarrow> neutral r w w'"
  by (simp add: neutral_def)

lemma neutral_op_keeps: "(\<And>w. I w \<Longrightarrow> wp m (\<lambda>r w'. keeps w w') w) \<Longrightarrow> neutral_op I m"
  unfolding neutral_op_def by (blast intro: wp_mono neutral_keeps)

lemma neutral_op_pure [simp, intro]:
  "neutral_op I (ok x)" "neutral_op I (fail e)" "neutral_op I (lift r)" "neutral_op I (failE op)"
  by (auto simp: neutral_op_def intro!: vcg neutral_keeps)

lemma neutral_op_weaken: "neutral_op J m \<Longrightarrow> (\<And>w. I w \<Longrightarrow> J w) \<Longrightarrow> neutral_op I m"
  by (simp add: neutral_op_def)

lemma neutral_simps [simp]:
  "neutral (Inr x) w w' = keeps w w'"
  "neutral (Inl e) w w' \<longleftrightarrow> e = calloc_panic \<or> keeps w w'"
  by (simp_all add: neutral_def)

lemma calloc_is_panic [simp]: "is_panic calloc_panic"
  by (simp add: calloc_panic_def)

lemma neutral_error: "\<not> is_panic e \<Longrightarrow> neutral (Inl e) w w' \<Longrightarrow> keeps w w'"
  by (auto simp: neutral_def)

lemma neutral_after:
  assumes "neutral_op I m" "stable I" "I w" "keeps w w'"
  shows "wp m (\<lambda>r. neutral r w) w'"
  using neutral_opD [OF assms(1) stable_keeps [OF assms(2,3,4)]]
  by (rule wp_mono) (auto simp: neutral_def intro: keeps_trans [OF assms(4)])

lemma neutral_op_must:
  assumes "stable I" "neutral_op I m" "\<And>x. neutral_op I (f x)"
  shows "neutral_op I (must m f)"
  unfolding neutral_op_def wp_must
proof (intro allI impI)
  fix w assume w: "I w"
  show "wp m (\<lambda>r w'. case r of Inl e \<Rightarrow> neutral (Inl e) w w' | Inr x \<Rightarrow> wp (f x) (\<lambda>r. neutral r w) w') w"
    by (rule wp_mono [OF neutral_opD [OF assms(2) w]])
      (auto split: sum.splits intro!: neutral_after [OF assms(3,1) w])
qed

lemma neutral_op_onerr:
  assumes "stable I" "neutral_op I m" "\<And>e. neutral_op I (h e)" "\<And>x. neutral_op I (f x)"
  shows "neutral_op I (onerr m h f)"
  unfolding neutral_op_def wp_onerr
proof (intro allI impI)
  fix w assume w: "I w"
  show "wp m (\<lambda>r w'. case r of Inl e \<Rightarrow> if is_panic e then neutral (Inl e) w w' else wp (h e) (\<lambda>r. neutral r w) w'
      | Inr x \<Rightarrow> wp (f x) (\<lambda>r. neutral r w) w') w"
    by (rule wp_mono [OF neutral_opD [OF assms(2) w]])
      (auto split: sum.splits dest: neutral_error
        intro!: neutral_after [OF assms(3,1) w] neutral_after [OF assms(4,1) w])
qed

lemma neutral_op_bind:
  assumes "stable I" "\<And>w. I w \<Longrightarrow> wp m (\<lambda>_ w'. keeps w w') w" "\<And>x. neutral_op I (f x)"
  shows "neutral_op I (m \<bind> f)"
  unfolding neutral_op_def wp_bind
  by (auto intro!: wp_mono [OF assms(2)] neutral_after [OF assms(3,1)])

lemma neutral_op_guards:
  assumes "\<And>b. neutral_op I (k b)" "neutral_op I m"
  shows "neutral_op I (make_bytes n k)" "neutral_op I (slice_to buf n k)"
    "neutral_op I (addr0 buf m)" "neutral_op I (addr_at buf n m)"
  using assms by (simp_all add: guard_defs)

lemma neutral_op_guard:
  "(\<And>b. neutral_op I (k b)) \<Longrightarrow> neutral_op I (make_bytes n k)"
  "(\<And>b. neutral_op I (k b)) \<Longrightarrow> neutral_op I (slice_to buf n k)"
  "neutral_op I m \<Longrightarrow> neutral_op I (addr0 buf m)" "neutral_op I m \<Longrightarrow> neutral_op I (addr_at buf n m)"
  by (simp_all add: guard_defs)

lemma neutral_op_if: "(b \<Longrightarrow> neutral_op I m) \<Longrightarrow> (\<not> b \<Longrightarrow> neutral_op I n) \<Longrightarrow> neutral_op I (if b then m else n)"
  by simp

lemma clear_keeps: "wp clearErrors (\<lambda>_ w'. keeps w w') w"
  by (auto intro: vcg)

lemma do_keeps: "uses_of hs as \<subseteq> set_mset (owned w) \<Longrightarrow> wp (call (Do f hs as)) (\<lambda>_ w'. keeps w w') w"
  by (auto simp: keeps_def intro!: vcg)

lemma stable_conj: "stable I \<Longrightarrow> stable J \<Longrightarrow> stable (\<lambda>w. I w \<and> J w)"
  unfolding stable_def by blast

lemma stable_holds: "stable (\<lambda>w. p \<noteq> NULL \<longrightarrow> (k, p) \<in># owned w)"
  by (auto simp: stable_def gains_def)

text \<open>A temporary object, released however its use ends.\<close>

lemma neutral_op_temp:
  assumes "stable I" "\<And>w. I w \<Longrightarrow> uses_of hs as \<subseteq> set_mset (owned w)"
    and "\<And>p. p \<noteq> NULL \<Longrightarrow> neutral_op (\<lambda>w. I w \<and> (k, p) \<in># owned w) (m p)"
  shows "neutral_op I (do { p \<leftarrow> new k f hs as; if p = NULL then failE op else deferring (free k p) (m p) })"
  unfolding neutral_op_def wp_bind wp_new
proof (intro allI impI, rule wp_call)
  fix w r assume w: "I w"
  let ?w = "push (New k f hs as) r w"
  show "wp (if rptr r = NULL then failE op else deferring (free k (rptr r)) (m (rptr r))) (\<lambda>r. neutral r w) ?w"
  proof (cases "rptr r = NULL")
    case True
    with assms(2) [OF w] show ?thesis by (auto simp: neutral_def keeps_def intro!: vcg)
  next
    case False
    then have g: "gains {#(k, rptr r)#} w ?w" using assms(2) [OF w] by (simp add: gains_def)
    then have "I ?w \<and> (k, rptr r) \<in># owned ?w" using stableD [OF assms(1) w] by (simp add: gains_def)
    from neutral_opD [OF assms(3) [OF False] this] show ?thesis
      using False unfolding wp_if wp_deferring wp_free
      by (auto elim!: wp_mono intro!: wp_call) (use g in \<open>auto simp: neutral_def keeps_def gains_def\<close>)
  qed
qed

lemma neutral_op_lock:
  assumes "stable I" "neutral_op I m"
  shows "neutral_op I (with_rlock mu m)" "neutral_op I (with_lock mu m)"
proof -
  have m: "wp m (\<lambda>r w'. \<forall>op2 r2. neutral r w (push (Mu op2 mu) r2 w')) (push (Mu op1 mu) r1 w)" if "I w" for op1 r1 w
  proof -
    have "keeps w (push (Mu op1 mu) r1 w)" by (simp add: keeps_def)
    from neutral_after [OF assms(2,1) that this] show ?thesis
      by (rule wp_mono) (auto simp: neutral_def keeps_def)
  qed
  show "neutral_op I (with_rlock mu m)" "neutral_op I (with_lock mu m)"
    unfolding neutral_op_def with_rlock_def with_lock_def
    by (auto intro!: wp_call wp_mono [OF m])
qed

lemma neutral_op_cstr:
  assumes "stable I" "\<And>p. neutral_op (\<lambda>w. I w \<and> (HMem, p) \<in># owned w) (k (AStr p (c_string s)))"
  shows "neutral_op I (with_cstr s k)"
  unfolding neutral_op_def with_cstr_def wp_bind wp_new
proof (intro allI impI, rule wp_call)
  fix w r assume w: "I w"
  let ?w = "push (New HMem ''C.CString'' [] []) r w"
  show "wp (if rptr r = NULL then fail (Panic ''out of C memory'')
      else deferring (free HMem (rptr r)) (k (AStr (rptr r) (c_string s)))) (\<lambda>r. neutral r w) ?w"
  proof (cases "rptr r = NULL")
    case True
    then show ?thesis by (auto simp: neutral_def keeps_def intro!: vcg)
  next
    case False
    then have g: "gains {#(HMem, rptr r)#} w ?w" by (simp add: gains_def)
    then have "I ?w \<and> (HMem, rptr r) \<in># owned ?w" using stableD [OF assms(1) w] by (simp add: gains_def)
    from neutral_opD [OF assms(2) this] show ?thesis
      using False unfolding wp_if wp_deferring wp_free
      by (auto elim!: wp_mono intro!: wp_call) (use g in \<open>auto simp: neutral_def keeps_def gains_def\<close>)
  qed
qed

end
