(* ===== verification/Libctx.thy ===== *)
theory Libctx
  imports Params
begin

text \<open>
  libctx.go, provider.go and fips.go: the library context, the providers loaded into it, and
  the FIPS restriction. A \<open>*Context\<close> is an address of the world, \<open>None\<close> for nil; the
  operations that change the context update the world at that address.
\<close>

section \<open>Contexts in the world\<close>

definition get_ctx :: "cref \<Rightarrow> (world, libctx) state" where
  "get_ctx c = State (\<lambda>w. (ctxs w c, w))"

definition put_ctx :: "cref \<Rightarrow> libctx \<Rightarrow> (world, unit) state" where
  "put_ctx c x = State (\<lambda>w. ((), w\<lparr>ctxs := (ctxs w)(c := x)\<rparr>))"

definition alloc_ctx :: "libctx \<Rightarrow> (world, cref) state" where
  "alloc_ctx x = State (\<lambda>w. (nctx w, w\<lparr>ctxs := (ctxs w)(nctx w := x), nctx := Suc (nctx w)\<rparr>))"

lemma wp_ctx [simp]:
  "wp (get_ctx c) G w = G (ctxs w c) w"
  "wp (put_ctx c x) P w = P () (w\<lparr>ctxs := (ctxs w)(c := x)\<rparr>)"
  "wp (alloc_ctx x) Q w = Q (nctx w) (w\<lparr>ctxs := (ctxs w)(nctx w := x), nctx := Suc (nctx w)\<rparr>)"
  by (simp_all add: wp_def get_ctx_def put_ctx_def alloc_ctx_def)

lemma run_ctx [exec_simps]:
  "run_state (get_ctx c) w = (ctxs w c, w)"
  "run_state (put_ctx c x) w = ((), w\<lparr>ctxs := (ctxs w)(c := x)\<rparr>)"
  "run_state (alloc_ctx x) w
   = (nctx w, w\<lparr>ctxs := (ctxs w)(nctx w := x), nctx := Suc (nctx w)\<rparr>)"
  by (simp_all add: get_ctx_def put_ctx_def alloc_ctx_def)

text \<open>\<open>var Default = &Context{}\<close> lives at address 0.\<close>

definition Default :: cref where "Default = 0"

definition default_ctx :: libctx where
  "default_ctx = \<lparr>c_ctx = NULL, c_fips = None, c_probes = \<lambda>_. None\<rparr>"

definition Context_ptr :: "cref \<Rightarrow> (world, ptr) state" where
  "Context_ptr c = do { x \<leftarrow> get_ctx c; ret (c_ctx x) }"

definition NewContext :: "cref go" where
  "NewContext = do {
     clearErrors;
     p \<leftarrow> new HLibCtx ''OSSL_LIB_CTX_new'' [] [];
     if p = NULL then failE ''OSSL_LIB_CTX_new''
     else do { c \<leftarrow> alloc_ctx \<lparr>c_ctx = p, c_fips = None, c_probes = \<lambda>_. None\<rparr>; ok c }
   }"

definition SetDefaultProperties :: "cref option \<Rightarrow> string \<Rightarrow> unit go" where
  "SetDefaultProperties c propq = (case c of None \<Rightarrow> fail ErrClosed | Some c \<Rightarrow> do {
     clearErrors;
     with_cstr propq (\<lambda>cq. do {
       cp \<leftarrow> Context_ptr c;
       r \<leftarrow> call (Do ''EVP_set_default_properties'' [(HLibCtx, cp)] [cq]);
       if rc r \<noteq> 1 then failE ''EVP_set_default_properties'' else ok ()
     })
   })"

section \<open>Providers (provider.go)\<close>

record provider = prov :: ptr

text \<open>
  A method that changes its receiver returns the receiver beside its result. The pointer is
  cleared before the C call, so it is cleared whatever the call answers.
\<close>

definition Unload :: "provider option \<Rightarrow> (world, provider option \<times> (err + unit)) state" where
  "Unload p = (case p of None \<Rightarrow> ret (None, Inr ()) | Some x \<Rightarrow>
     if prov x = NULL then ret (p, Inr ()) else do {
       r \<leftarrow> call (Free HProvider (prov x));
       if rc r \<noteq> 1 then do { e \<leftarrow> newError ''OSSL_PROVIDER_unload''; ret (Some (x\<lparr>prov := NULL\<rparr>), Inl e) }
       else ret (Some (x\<lparr>prov := NULL\<rparr>), Inr ())
     })"

definition providerAvailable :: "cref \<Rightarrow> string \<Rightarrow> bool go" where
  "providerAvailable c name = with_cstr name (\<lambda>cname. do {
     cp \<leftarrow> Context_ptr c;
     r \<leftarrow> call (Do ''OSSL_PROVIDER_available'' [(HLibCtx, cp)] [cname]);
     ok (rc r = 1)
   })"

definition ProviderAvailable :: "cref option \<Rightarrow> string \<Rightarrow> bool go" where
  "ProviderAvailable c name = (case c of None \<Rightarrow> ok False | Some c \<Rightarrow> providerAvailable c name)"

text \<open>The fallback is put back only on the failure path, and only if it was there before.\<close>

definition restoreDefault :: "cref \<Rightarrow> err \<Rightarrow> provider go" where
  "restoreDefault c e = must (providerAvailable c ''default'') (\<lambda>has.
     if has then fail e else with_cstr ''default'' (\<lambda>cdef. do {
       cp \<leftarrow> Context_ptr c;
       p \<leftarrow> new HProvider ''OSSL_PROVIDER_try_load'' [(HLibCtx, cp)] [cdef, AInt 1];
       (if p \<noteq> NULL then do { call (Free HProvider p); ret () } else ret ());
       clearErrors;
       fail e
     }))"

definition LoadProvider :: "cref option \<Rightarrow> string \<Rightarrow> provider go" where
  "LoadProvider c name = (case c of None \<Rightarrow> fail ErrClosed | Some c \<Rightarrow> do {
     clearErrors;
     with_cstr name (\<lambda>cname. must (providerAvailable c ''default'') (\<lambda>hadDefault. do {
       cp \<leftarrow> Context_ptr c;
       p \<leftarrow> new HProvider ''OSSL_PROVIDER_load'' [(HLibCtx, cp)] [cname];
       if p = NULL then do {
         e \<leftarrow> newError (''OSSL_PROVIDER_load('' @ name @ '')'');
         if hadDefault then restoreDefault c e else fail e
       } else ok \<lparr>prov = p\<rparr>
     }))
   })"

section \<open>Enumerating providers\<close>

definition MAX_PROVIDERS :: nat where "MAX_PROVIDERS = 64"

text \<open>The C callback, once per provider.\<close>

fun ossl_collect_provider :: "ptr \<Rightarrow> ptr list \<Rightarrow> ptr list" where
  "ossl_collect_provider p items = (if length items < MAX_PROVIDERS then items @ [p] else items)"

record providerInfo =
  pi_Name :: string
  pi_Version :: string
  pi_Active :: bool

fun provider_infos :: "ptr list \<Rightarrow> (providerInfo list) go" where
  "provider_infos [] = ok []"
| "provider_infos (p # ps) = do {
     r \<leftarrow> call (Do ''ossl_provider_info'' [] [APtr p]);
     if rc r \<noteq> 1 then failE ''OSSL_PROVIDER_get_params''
     else must (provider_infos ps) (\<lambda>is.
       ok (\<lparr>pi_Name = rstr r, pi_Version = rstr2 r, pi_Active = rlen r \<noteq> 0\<rparr> # is))
   }"

definition Providers :: "cref option \<Rightarrow> (providerInfo list) go" where
  "Providers c = (case c of None \<Rightarrow> fail ErrClosed | Some c \<Rightarrow> do {
     clearErrors;
     cp \<leftarrow> Context_ptr c;
     r \<leftarrow> call (Do ''OSSL_PROVIDER_do_all'' [(HLibCtx, cp)] []);
     if rc r \<noteq> 1 then failE ''OSSL_PROVIDER_do_all''
     else (let items = fold ossl_collect_provider (rptrs r) [] in
       if length items \<ge> MAX_PROVIDERS
       then fail (Errorf ''ossl: more than %d providers loaded; enumeration would be truncated''
         [FInt (int MAX_PROVIDERS)])
       else provider_infos items)
   })"

section \<open>Availability probes\<close>

text \<open>An optional C string: NULL when the Go string is empty.\<close>

definition with_optcstr :: "string \<Rightarrow> (carg \<Rightarrow> 'a go) \<Rightarrow> 'a go" where
  "with_optcstr s k = (if s = [] then k ANull else with_cstr s k)"

text \<open>Fetch an object, give it back, and say whether it was there.\<close>

definition probe_fetch :: "hkind \<Rightarrow> string \<Rightarrow> cref \<Rightarrow> carg list \<Rightarrow> bool go" where
  "probe_fetch k fname c as = do {
     cp \<leftarrow> Context_ptr c;
     p \<leftarrow> new k fname [(HLibCtx, cp)] as;
     (if p \<noteq> NULL then free k p else ret ());
     clearErrors;
     ok (p \<noteq> NULL)
   }"

definition KeyAlgorithmAvailable :: "cref option \<Rightarrow> string \<Rightarrow> bool go" where
  "KeyAlgorithmAvailable c alg = (case c of None \<Rightarrow> ok False | Some c \<Rightarrow>
     if alg = [] then ok False
     else with_cstr alg (\<lambda>calg. probe_fetch HPkeyCtx ''EVP_PKEY_CTX_new_from_name'' c [calg, ANull]))"

definition DigestAvailable :: "cref option \<Rightarrow> string \<Rightarrow> string \<Rightarrow> bool go" where
  "DigestAvailable c name propq = (case c of None \<Rightarrow> ok False | Some c \<Rightarrow>
     with_cstr name (\<lambda>cname. with_optcstr propq (\<lambda>cq. probe_fetch HMd ''EVP_MD_fetch'' c [cname, cq])))"

definition CipherAvailable :: "cref option \<Rightarrow> string \<Rightarrow> string \<Rightarrow> bool go" where
  "CipherAvailable c name propq = (case c of None \<Rightarrow> ok False | Some c \<Rightarrow>
     with_cstr name (\<lambda>cname. with_optcstr propq (\<lambda>cq.
       probe_fetch HCipher ''EVP_CIPHER_fetch'' c [cname, cq])))"

section \<open>FIPS (fips.go)\<close>

definition LoadConfig :: "cref option \<Rightarrow> string \<Rightarrow> unit go" where
  "LoadConfig c path = (case c of None \<Rightarrow> fail ErrClosed | Some c \<Rightarrow> do {
     clearErrors;
     with_cstr path (\<lambda>cpath. do {
       cp \<leftarrow> Context_ptr c;
       r \<leftarrow> call (Do ''OSSL_LIB_CTX_load_config'' [(HLibCtx, cp)] [cpath]);
       if rc r \<noteq> 1 then failE (''OSSL_LIB_CTX_load_config('' @ path @ '')'') else ok ()
     })
   })"

definition SelfTest :: "provider option \<Rightarrow> unit go" where
  "SelfTest p = (case p of None \<Rightarrow> fail ErrClosed | Some x \<Rightarrow>
     if prov x = NULL then fail ErrClosed else do {
       clearErrors;
       r \<leftarrow> call (Do ''OSSL_PROVIDER_self_test'' [(HProvider, prov x)] []);
       if rc r \<noteq> 1 then failE ''OSSL_PROVIDER_self_test'' else ok ()
     })"

text \<open>The error of \<open>prov.Unload()\<close> is dropped; a call that does not return does not return.\<close>

definition drop_provider :: "provider \<Rightarrow> unit go" where
  "drop_provider p = do {
     (_, r) \<leftarrow> Unload (Some p);
     case r of Inl e \<Rightarrow> if is_panic e then fail e else ok () | Inr _ \<Rightarrow> ok ()
   }"

definition EnableFIPS :: "cref option \<Rightarrow> string \<Rightarrow> unit go" where
  "EnableFIPS c configPath = (case c of
     None \<Rightarrow> fail (Errorf ''ossl: EnableFIPS requires a Context from NewContext, not the implicit global default'' [])
   | Some a \<Rightarrow> do {
       x \<leftarrow> get_ctx a;
       if c_ctx x = NULL
       then fail (Errorf ''ossl: EnableFIPS requires a Context from NewContext, not the implicit global default'' [])
       else must (LoadConfig c configPath) (\<lambda>_. do {
         r \<leftarrow> LoadProvider c ''fips'';
         case r of
           Inl e \<Rightarrow> fail (if is_panic e then e
             else Wrapf ''ossl: loading the fips provider after %s: %w'' e [FStr configPath])
         | Inr p \<Rightarrow> do {
             t \<leftarrow> SelfTest (Some p);
             case t of
               Inl e \<Rightarrow> must (drop_provider p) (\<lambda>_. fail e)
             | Inr _ \<Rightarrow> do {
                 clearErrors;
                 cp \<leftarrow> Context_ptr a;
                 r \<leftarrow> call (Do ''EVP_default_properties_enable_fips'' [(HLibCtx, cp)] [AInt 1]);
                 if rc r \<noteq> 1
                 then must (drop_provider p) (\<lambda>_. failE ''EVP_default_properties_enable_fips'')
                 else do {
                   x \<leftarrow> get_ctx a;
                   put_ctx a (x\<lparr>c_fips := Some (prov p)\<rparr>);
                   ok ()
                 }
               }
           }
       })
     })"

definition FIPSEnabled :: "cref option \<Rightarrow> (world, bool) state" where
  "FIPSEnabled c = (case c of None \<Rightarrow> ret False | Some a \<Rightarrow> do {
     cp \<leftarrow> Context_ptr a;
     r \<leftarrow> call (Do ''EVP_default_properties_is_fips_enabled'' [(HLibCtx, cp)] []);
     ret (rc r = 1)
   })"

text \<open>\<open>Close\<close>: the provider goes before the context it was loaded into.\<close>

definition close_fips :: "cref \<Rightarrow> unit go" where
  "close_fips a = do {
     x \<leftarrow> get_ctx a;
     case c_fips x of None \<Rightarrow> ok () | Some p \<Rightarrow> must (drop_provider \<lparr>prov = p\<rparr>) (\<lambda>_. do {
       y \<leftarrow> get_ctx a;
       put_ctx a (y\<lparr>c_fips := None\<rparr>);
       ok ()
     })
   }"

definition close_libctx :: "cref \<Rightarrow> unit go" where
  "close_libctx a = do {
     x \<leftarrow> get_ctx a;
     if c_ctx x = NULL then ok () else do {
       free HLibCtx (c_ctx x);
       put_ctx a (x\<lparr>c_ctx := NULL\<rparr>);
       ok ()
     }
   }"

definition Context_Close :: "cref option \<Rightarrow> unit go" where
  "Context_Close c = (case c of None \<Rightarrow> ok () | Some a \<Rightarrow> must (close_fips a) (\<lambda>_. close_libctx a))"

definition NewFIPSContext :: "string \<Rightarrow> cref go" where
  "NewFIPSContext configPath = must NewContext (\<lambda>c. do {
     r \<leftarrow> EnableFIPS (Some c) configPath;
     case r of
       Inl e \<Rightarrow> if is_panic e then fail e else must (Context_Close (Some c)) (\<lambda>_. fail e)
     | Inr _ \<Rightarrow> ok c
   })"

section \<open>Ownership\<close>

text \<open>A context whose \<open>OSSL_LIB_CTX\<close> is held; \<open>Default\<close> and a closed one hold none.\<close>

definition ctx_live :: "cref \<Rightarrow> world \<Rightarrow> bool" where
  "ctx_live c w \<longleftrightarrow> (c_ctx (ctxs w c) \<noteq> NULL \<longrightarrow> (HLibCtx, c_ctx (ctxs w c)) \<in># owned w)"

lemma keeps_live: "ctx_live c w \<Longrightarrow> keeps w w' \<Longrightarrow> ctx_live c w'"
  by (simp add: ctx_live_def keeps_def)

lemma wp_Context_ptr [simp]: "wp (Context_ptr c) Q w = Q (c_ctx (ctxs w c)) w"
  by (simp add: Context_ptr_def)

lemma wp_SetDefaultProperties:
  "(\<And>a. c = Some a \<Longrightarrow> ctx_live a w) \<Longrightarrow> (\<And>r w'. keeps w w' \<Longrightarrow> Q r w')
   \<Longrightarrow> wp (SetDefaultProperties c q) Q w"
  by (auto simp: SetDefaultProperties_def wp_defs ctx_live_def keeps_def intro!: vcg split: option.splits)

lemma wp_LoadConfig [vcg]:
  "(\<And>a. c = Some a \<Longrightarrow> ctx_live a w) \<Longrightarrow> (\<And>r w'. keeps w w' \<Longrightarrow> Q r w')
   \<Longrightarrow> wp (LoadConfig c q) Q w"
  by (auto simp: LoadConfig_def wp_defs ctx_live_def keeps_def intro!: vcg split: option.splits)

lemma wp_providerAvailable [vcg]:
  "ctx_live c w \<Longrightarrow> (\<And>r w'. keeps w w' \<Longrightarrow> Q r w') \<Longrightarrow> wp (providerAvailable c name) Q w"
  by (auto simp: providerAvailable_def wp_defs ctx_live_def keeps_def intro!: vcg)

lemma wp_restoreDefault [vcg]:
  "ctx_live c w \<Longrightarrow> (\<And>e' w'. keeps w w' \<Longrightarrow> Q (Inl e') w') \<Longrightarrow> wp (restoreDefault c e) Q w"
  by (auto simp: restoreDefault_def wp_defs ctx_live_def keeps_def intro!: vcg split: sum.splits)

lemma wp_LoadProvider [vcg]:
  assumes "\<And>a. c = Some a \<Longrightarrow> ctx_live a w"
    and "\<And>e w'. keeps w w' \<Longrightarrow> Q (Inl e) w'"
    and "\<And>p w'. p \<noteq> NULL \<Longrightarrow> gains {#(HProvider, p)#} w w' \<Longrightarrow> Q (Inr \<lparr>prov = p\<rparr>) w'"
  shows "wp (LoadProvider c name) Q w"
  using assms
  by (auto simp: LoadProvider_def wp_defs ctx_live_def keeps_def gains_def intro!: vcg
      split: option.splits sum.splits)

lemma wp_SelfTest [vcg]:
  assumes "\<And>x. p = Some x \<Longrightarrow> prov x \<noteq> NULL \<Longrightarrow> (HProvider, prov x) \<in># owned w"
    and "\<And>e w'. keeps w w' \<Longrightarrow> Q (Inl e) w'"
    and "\<And>w'. keeps w w' \<Longrightarrow> did [''OSSL_PROVIDER_self_test''] w w' \<Longrightarrow> Q (Inr ()) w'"
  shows "wp (SelfTest p) Q w"
  using assms
  by (auto simp: SelfTest_def keeps_def did_defs intro!: vcg ext_intros split: option.splits)

lemma clear_null [simp]: "prov x = NULL \<Longrightarrow> x\<lparr>prov := NULL\<rparr> = x"
  by (cases x) simp

lemma Unload_spec:
  "wp (Unload p) (\<lambda>(p', r) w'. loses (case p of None \<Rightarrow> {#} | Some x \<Rightarrow> held HProvider (prov x)) w w'
     \<and> p' = map_option (prov_update (\<lambda>_. NULL)) p) w"
  by (auto simp: Unload_def eff_defs held_def intro!: vcg split: option.splits)

lemmas wp_Unload [vcg] = wp_mono [OF Unload_spec]

lemma drop_provider_spec:
  "wp (drop_provider p) (\<lambda>_ w'. loses (held HProvider (prov p)) w w') w"
  by (auto simp: drop_provider_def intro!: vcg split: sum.splits)

lemmas wp_drop_provider [vcg] = wp_mono [OF drop_provider_spec]

lemma NewContext_spec:
  "wp NewContext (\<lambda>r w'. case r of
      Inl e \<Rightarrow> keeps w w'
    | Inr c \<Rightarrow> \<exists>p. p \<noteq> NULL \<and> c = nctx w \<and> owned w' = owned w + {#(HLibCtx, p)#} \<and> (safe w \<longrightarrow> safe w')
        \<and> lib w' = lib w \<and> curve_nids w' = curve_nids w \<and> nctx w' = Suc (nctx w)
        \<and> ctxs w' = (ctxs w)(nctx w := \<lparr>c_ctx = p, c_fips = None, c_probes = \<lambda>_. None\<rparr>)) w"
  by (auto simp: NewContext_def eff_defs intro!: vcg)

lemmas wp_NewContext [vcg] = wp_mono [OF NewContext_spec]

text \<open>
  \<open>EnableFIPS\<close>: an error leaves the references and the context as they were; success keeps
  one more provider reference, remembered in the context.
\<close>

lemma EnableFIPS_spec:
  assumes "\<And>a. c = Some a \<Longrightarrow> ctx_live a w"
  shows "wp (EnableFIPS c path) (\<lambda>r w'. case r of
      Inl e \<Rightarrow> keeps w w'
    | Inr _ \<Rightarrow> \<exists>a p. c = Some a \<and> c_ctx (ctxs w a) \<noteq> NULL \<and> p \<noteq> NULL
        \<and> owned w' = owned w + {#(HProvider, p)#} \<and> (safe w \<longrightarrow> safe w') \<and> lib w' = lib w
        \<and> ctxs w' = (ctxs w)(a := (ctxs w a)\<lparr>c_fips := Some p\<rparr>)) w"
  using assms
  by (auto simp: EnableFIPS_def eff_defs ctx_live_def held_def intro!: vcg split: option.splits sum.splits)

text \<open>What \<open>Close\<close> gives back.\<close>

definition ctx_refs :: "libctx \<Rightarrow> handle multiset" where
  "ctx_refs x = (case c_fips x of None \<Rightarrow> {#} | Some p \<Rightarrow> held HProvider p) + held HLibCtx (c_ctx x)"

lemma Context_Close_spec:
  assumes "owned w = M + ctx_refs (ctxs w a)"
  shows "wp (Context_Close (Some a)) (\<lambda>r w'. case r of
      Inl e \<Rightarrow> is_panic e
    | Inr _ \<Rightarrow> owned w' = M \<and> (safe w \<longrightarrow> safe w') \<and> lib w' = lib w
        \<and> ctxs w' = (ctxs w)(a := (ctxs w a)\<lparr>c_ctx := NULL, c_fips := None\<rparr>)) w"
  using assms
  by (cases "ctxs w a")
     (auto simp: Context_Close_def close_fips_def close_libctx_def drop_provider_def ctx_refs_def
       eff_defs held_def intro!: vcg split: option.splits sum.splits)

lemma LoadConfig_did:
  "wp (LoadConfig c q) (\<lambda>r w'. r = Inr () \<longrightarrow> did [''OSSL_LIB_CTX_load_config''] w w') w"
  by (auto simp: LoadConfig_def wp_defs did_defs intro!: vcg ext_intros split: option.splits)

lemma restoreDefault_error: "wp (restoreDefault c e) (\<lambda>r w'. isl r) w"
  by (auto simp: restoreDefault_def providerAvailable_def wp_defs intro!: vcg split: sum.splits)

lemma providerAvailable_did: "wp (providerAvailable c n) (\<lambda>r w'. \<exists>es. hist w' = es @ hist w) w"
  by (auto simp: providerAvailable_def wp_defs intro!: vcg)

lemma LoadProvider_did:
  "wp (LoadProvider c q) (\<lambda>r w'. \<not> isl r \<longrightarrow> did [''OSSL_PROVIDER_load''] w w') w"
  by (auto simp: LoadProvider_def wp_defs did_defs intro!: vcg wp_mono [OF restoreDefault_error]
      wp_mono [OF providerAvailable_did] ext_intros
      split: option.splits sum.splits)

lemma SelfTest_did:
  "wp (SelfTest p) (\<lambda>r w'. \<not> isl r \<longrightarrow> did [''OSSL_PROVIDER_self_test''] w w') w"
  by (auto simp: SelfTest_def did_defs intro!: vcg ext_intros split: option.splits)

lemma wp_True [simp]: "wp m (\<lambda>_ _. True) w"
  by (auto intro: wpI)

text \<open>The last step of \<open>EnableFIPS\<close>, with the trace of the steps before it.\<close>

lemma did4:
  assumes "did [a] w w1" "did [b] w1 w2" "did [c] w2 w3" "did [d] w3 w4"
  shows "did [d, c, b, a] w w4"
  using did_trans [OF did_trans [OF did_trans [OF assms(1,2)] assms(3)] assms(4)] by simp




text \<open>
  Enabling FIPS twice on one context forgets the first provider reference: after the
  second success and a clean \<open>Close\<close> the first reference is still held, so the provider is
  never unloaded.
\<close>

theorem EnableFIPS_twice_leaks:
  assumes "c_fips (ctxs w a) = Some old" "old \<noteq> NULL"
    and "owned w = M + ctx_refs (ctxs w a)" "safe w"
    and "run_state (EnableFIPS (Some a) path) w = (Inr (), w1)"
    and "run_state (Context_Close (Some a)) w1 = (Inr (), w2)"
  shows "owned w2 = M + {#(HProvider, old)#} \<and> c_fips (ctxs w2 a) = None"
proof -
  have live: "ctx_live a w" using assms(1-3) by (auto simp: ctx_live_def ctx_refs_def held_def)
  obtain p where p: "p \<noteq> NULL" "owned w1 = owned w + {#(HProvider, p)#}"
      "ctxs w1 = (ctxs w)(a := (ctxs w a)\<lparr>c_fips := Some p\<rparr>)"
    using wp_runD [OF EnableFIPS_spec assms(5)] live by auto
  have "owned w1 = (M + {#(HProvider, old)#}) + ctx_refs (ctxs w1 a)"
    using assms(1-3) p by (simp add: ctx_refs_def)
  from wp_runD [OF Context_Close_spec [OF this] assms(6)] show ?thesis by simp
qed

text \<open>A context that is already restricted, over a library where every call succeeds.\<close>

definition w_fips :: world where
  "w_fips = (world_of lib_yes [(HLibCtx, 5), (HProvider, 6)])
     \<lparr>ctxs := (\<lambda>_. default_ctx)(1 := \<lparr>c_ctx = 5, c_fips = Some 6, c_probes = \<lambda>_. None\<rparr>), nctx := 2\<rparr>"

lemmas libctx_run = exec_simps EnableFIPS_def LoadConfig_def LoadProvider_def providerAvailable_def
  SelfTest_def clearErrors_def with_cstr_def Context_ptr_def Context_Close_def close_fips_def
  close_libctx_def drop_provider_def Unload_def lib_yes_def yes_def SetDefaultProperties_def

lemma EnableFIPS_twice_leaks_witness:
  "owned (snd (run_state (Context_Close (Some 1)) (snd (run_state (EnableFIPS (Some 1) ''f.cnf'') w_fips))))
   = {#(HProvider, 6)#}"
proof -
  have "fst (run_state (EnableFIPS (Some 1) ''f.cnf'') w_fips) = Inr ()"
    "fst (run_state (Context_Close (Some 1)) (snd (run_state (EnableFIPS (Some 1) ''f.cnf'') w_fips))) = Inr ()"
    by (simp_all add: libctx_run w_fips_def)
  moreover have "owned w_fips = {#} + ctx_refs (ctxs w_fips 1)" "safe w_fips" "c_fips (ctxs w_fips 1) = Some 6"
    by (simp_all add: w_fips_def ctx_refs_def)
  ultimately show ?thesis
    using EnableFIPS_twice_leaks [of w_fips 1 6 "{#}" "''f.cnf''"] by (simp add: prod_eq_iff)
qed

text \<open>
  A closed context is not refused: it has become the implicit global one, so pinning a
  property query on it pins the query on the whole process, exactly as on \<open>Default\<close>.
\<close>

theorem closed_context_is_default:
  assumes "owned w = M + ctx_refs (ctxs w a)" "a \<noteq> Default" "c_ctx (ctxs w Default) = NULL"
    and "run_state (Context_Close (Some a)) w = (Inr (), w1)"
  shows "run_state (SetDefaultProperties (Some a) q) w1 = run_state (SetDefaultProperties (Some Default) q) w1"
proof -
  have "c_ctx (ctxs w1 a) = NULL \<and> c_ctx (ctxs w1 Default) = NULL"
    using wp_runD [OF Context_Close_spec [OF assms(1)] assms(4)] assms(2,3) by simp
  then show ?thesis
    by (simp add: SetDefaultProperties_def clearErrors_def with_cstr_def Context_ptr_def exec_simps)
qed

lemma closed_context_is_default_witness:
  "let w1 = snd (run_state (Context_Close (Some 1)) w_fips) in
     run_state (SetDefaultProperties (Some 1) ''fips=no'') w1
     = run_state (SetDefaultProperties (Some Default) ''fips=no'') w1"
proof -
  have "fst (run_state (Context_Close (Some 1)) w_fips) = Inr ()"
    by (simp add: libctx_run w_fips_def)
  moreover have "owned w_fips = {#} + ctx_refs (ctxs w_fips 1)" "c_ctx (ctxs w_fips Default) = NULL"
    by (simp_all add: w_fips_def ctx_refs_def default_ctx_def Default_def)
  ultimately show ?thesis
    using closed_context_is_default [of w_fips "{#}" 1] by (simp add: prod_eq_iff Let_def Default_def)
qed

section \<open>The fallback to the default provider\<close>

text \<open>The events of a load that concern the default provider.\<close>

fun asks_default :: "event \<Rightarrow> bool" where
  "asks_default (Do f hs as, r) = (f = ''OSSL_PROVIDER_available'' \<and> (\<exists>p \<in> set as. \<exists>q. p = AStr q ''default''))"
| "asks_default _ = False"

fun restores :: "event \<Rightarrow> bool" where
  "restores (New k f hs as, r) = (f = ''OSSL_PROVIDER_try_load'' \<and> AInt 1 \<in> set as)"
| "restores _ = False"

text \<open>What a failed load leaves, read off the answers, oldest first.\<close>

definition fallback_kept :: "event list \<Rightarrow> bool" where
  "fallback_kept es = (case map (\<lambda>e. rc (snd e) = 1) (rev (filter asks_default es)) of
     [] \<Rightarrow> False
   | [had] \<Rightarrow> \<not> had \<and> filter restores es = []
   | [had, has] \<Rightarrow> had \<and> (has \<longleftrightarrow> filter restores es = [])
   | _ \<Rightarrow> False)"

lemma err_call_default: "err_call c \<Longrightarrow> \<not> asks_default (c, r) \<and> \<not> restores (c, r)"
  by (cases c) auto

lemma err_list_default [simp]:
  assumes "list_all (err_call \<circ> fst) es"
  shows "filter asks_default es = []" "filter restores es = []"
  using err_list_filter [OF assms] err_call_default by blast+

text \<open>
  A failed \<open>LoadProvider\<close> asks whether the default provider was active before the load; if
  it was, it asks again afterwards and loads it back, keeping fallbacks, exactly when it is
  gone. A context without it is left as narrow as it was.
\<close>

theorem LoadProvider_fallback:
  "wp (LoadProvider (Some a) name) (\<lambda>r w'. case r of
      Inl e \<Rightarrow> is_panic e \<or> (\<exists>es. hist w' = es @ hist w \<and> fallback_kept es)
    | Inr _ \<Rightarrow> True) w"
  by (auto simp: LoadProvider_def restoreDefault_def providerAvailable_def wp_defs err_only_def
      fallback_kept_def c_string_def intro!: ext_intros wp_call wp_mono [OF newError_err_only] wp_mono [OF clearErrors_err_only]
      split: sum.splits)

end
