(* ===== verification/Lifecycle.thy ===== *)
theory Lifecycle
  imports Libctx
begin

text \<open>
  The contract every closable resource of the package promises: \<open>Close\<close> on nil is a no-op, the
  first \<open>Close\<close> gives back exactly the references the resource holds, a later one nothing.
\<close>

text \<open>The same world but for the references: \<open>M\<close> is held.\<close>

definition now_owns :: "handle multiset \<Rightarrow> world \<Rightarrow> world \<Rightarrow> bool" where
  "now_owns M w w' \<longleftrightarrow> owned w' = M \<and> (safe w \<longrightarrow> safe w') \<and> lib w' = lib w \<and> ctxs w' = ctxs w
     \<and> nctx w' = nctx w \<and> curve_nids w' = curve_nids w \<and> (\<exists>es. hist w' = es @ hist w)"

lemma keeps_now_owns: "keeps w w' \<longleftrightarrow> now_owns (owned w) w w'"
  by (auto simp: keeps_def now_owns_def)

lemma now_owns_trans: "now_owns M w w' \<Longrightarrow> now_owns N w' w'' \<Longrightarrow> now_owns N w w''"
  by (auto simp: now_owns_def)

lemma loses_now_owns: "loses D w w' \<Longrightarrow> owned w = M + D \<Longrightarrow> now_owns M w w'"
  by (auto simp: loses_def now_owns_def)

text \<open>The life of a resource: made, used, whatever the use returns, and closed twice.\<close>

definition session :: "'r go \<Rightarrow> ('r \<Rightarrow> unit go) \<Rightarrow> ('r option \<Rightarrow> ('r option) go) \<Rightarrow> ('r option) go" where
  "session mk use close = must mk (\<lambda>x.
     onerr (use x) (\<lambda>_. must (close (Some x)) close) (\<lambda>_. must (close (Some x)) close))"

text \<open>At its end the references are what they were; a failed \<open>calloc\<close> kills the process.\<close>

definition balanced :: "world \<Rightarrow> err + 'a \<Rightarrow> world \<Rightarrow> bool" where
  "balanced w r w' \<longleftrightarrow> (case r of Inl e \<Rightarrow> is_panic e | Inr _ \<Rightarrow> False) \<or> now_owns (owned w) w w'"

locale closable =
  fixes close :: "'r option \<Rightarrow> ('r option) go"
    and closed :: "'r \<Rightarrow> bool"
    and refs :: "'r \<Rightarrow> handle multiset"
  assumes close_nil: "close None = ok None"
    and close_open: "\<not> closed x \<Longrightarrow> owned w = M + refs x \<Longrightarrow>
      wp (close (Some x)) (\<lambda>r w'. \<exists>y. r = Inr (Some y) \<and> closed y \<and> refs y = {#} \<and> now_owns M w w') w"
    and close_closed: "closed x \<Longrightarrow> wp (close (Some x)) (\<lambda>r w'. r = Inr (Some x) \<and> keeps w w') w"
begin

text \<open>Closing twice is closing once: nothing is released a second time.\<close>

lemma close_twice:
  assumes "\<not> closed x" "owned w = M + refs x"
  shows "wp (must (close (Some x)) close)
    (\<lambda>r w'. \<exists>y. r = Inr (Some y) \<and> closed y \<and> now_owns M w w') w"
  unfolding wp_must
proof (rule wp_mono [OF close_open [OF assms]], elim exE conjE)
  fix r w1 and y :: 'r
  assume y: "r = Inr (Some y)" "closed y" and m: "now_owns M w w1"
  show "case r of Inl e \<Rightarrow> \<exists>y. Inl e = Inr (Some y) \<and> closed y \<and> now_owns M w w1
    | Inr x \<Rightarrow> wp (close x) (\<lambda>r w'. \<exists>y. r = Inr (Some y) \<and> closed y \<and> now_owns M w w') w1"
    unfolding y(1) sum.case
  proof (rule wp_mono [OF close_closed [OF y(2)]], elim conjE)
    fix r and w2
    assume "r = Inr (Some y)" "keeps w1 w2"
    then show "\<exists>y. r = Inr (Some y) \<and> closed y \<and> now_owns M w w2"
      using y m by (auto simp: now_owns_def keeps_def)
  qed
qed

text \<open>A resource made, used neutrally and closed leaves the references as they were.\<close>

lemma close_session_any:
  assumes "closed x \<longrightarrow> refs x = {#}" "gains (refs x) w w1" "keeps w1 w2"
  shows "wp (must (close (Some x)) close) (\<lambda>_ w'. now_owns (owned w) w w') w2"
proof -
  have own: "owned w2 = owned w + refs x" and k: "now_owns (owned w2) w w2"
    using assms(2,3) by (auto simp: gains_def keeps_def now_owns_def)
  show ?thesis
  proof (cases "closed x")
    case True
    then have "keeps w w2" using own k assms(1) by (simp add: keeps_now_owns)
    then show ?thesis
      unfolding wp_must
      by (auto intro!: wp_mono [OF close_closed [OF True]] simp flip: keeps_now_owns) (meson keeps_trans)
  next
    case False
    show ?thesis
      by (rule wp_mono [OF close_twice [OF False own]]) (blast intro: now_owns_trans [OF k])
  qed
qed

lemma close_session:
  "\<not> closed x \<Longrightarrow> gains (refs x) w w1 \<Longrightarrow> keeps w1 w2 \<Longrightarrow>
   wp (must (close (Some x)) close) (\<lambda>_ w'. now_owns (owned w) w w') w2"
  by (rule close_session_any) auto

lemma session_any:
  assumes mk: "wp mk (\<lambda>r w1. case r of Inl e \<Rightarrow> is_panic e \<or> keeps w w1
      | Inr x \<Rightarrow> gains (refs x) w w1 \<and> (closed x \<longrightarrow> refs x = {#}) \<and> I x w1) w"
    and use: "\<And>x. neutral_op (I x) (use x)"
  shows "wp (session mk use close) (balanced w) w"
  unfolding session_def wp_must
proof (rule wp_mono [OF mk], goal_cases)
  case (1 r w1)
  show ?case
  proof (cases r)
    case (Inl e)
    with 1 show ?thesis by (auto simp: balanced_def keeps_now_owns)
  next
    case (Inr x)
    with 1 have x: "gains (refs x) w w1" "closed x \<longrightarrow> refs x = {#}" "I x w1" by auto
    have fin: "wp (must (close (Some x)) close) (balanced w) w2" if "keeps w1 w2" for w2
      by (rule wp_mono [OF close_session_any [OF x(2,1) that]]) (simp add: balanced_def)
    show ?thesis
      unfolding Inr sum.case wp_onerr
    proof (rule wp_mono [OF neutral_opD [OF use x(3)]], goal_cases)
      case (1 r w2)
      then show ?case
        by (cases r) (auto simp: balanced_def simp del: wp_must dest: neutral_error intro: fin)
    qed
  qed
qed

lemma session_balanced:
  assumes mk: "wp mk (\<lambda>r w1. case r of Inl e \<Rightarrow> is_panic e \<or> keeps w w1
      | Inr x \<Rightarrow> gains (refs x) w w1 \<and> \<not> closed x \<and> I x w1) w"
    and use: "\<And>x. neutral_op (I x) (use x)"
  shows "wp (session mk use close) (balanced w) w"
  by (rule session_any [OF wp_mono [OF mk] use]) (auto split: sum.splits)

end

end
