(* ===== verification/Secure.thy ===== *)
theory Secure
  imports Lifecycle
begin

text \<open>
  secure.go: the process-wide secure heap and buffers held in it. The two C shims around the
  allocator's macros are the calls \<open>ossl_secure_zalloc\<close> and the release of an \<open>HSecure\<close>
  reference.
\<close>

definition InitSecureHeap :: "int \<Rightarrow> int \<Rightarrow> unit go" where
  "InitSecureHeap sz minAlloc =
     (if sz \<le> 0 \<or> minAlloc \<le> 0
      then fail (Errorf ''ossl: secure heap size and minimum allocation must be positive'' [])
      else if sz AND (sz - 1) \<noteq> 0 \<or> minAlloc AND (minAlloc - 1) \<noteq> 0
      then fail (Errorf ''ossl: secure heap size (%d) and minimum allocation (%d) must be powers of two''
        [FInt sz, FInt minAlloc])
      else with_lock MuSecureHeap (do {
        i \<leftarrow> call (Do ''CRYPTO_secure_malloc_initialized'' [] []);
        if rc i = 1 then fail (Errorf ''ossl: the secure heap is already initialised'' [])
        else do {
          clearErrors;
          r \<leftarrow> call (Do ''CRYPTO_secure_malloc_init'' [] [AInt (c_size_t sz), AInt (c_size_t minAlloc)]);
          if rc r \<noteq> 1 then failE ''CRYPTO_secure_malloc_init'' else ok ()
        }
      }))"

definition DoneSecureHeap :: "unit go" where
  "DoneSecureHeap = with_lock MuSecureHeap (do {
     clearErrors;
     r \<leftarrow> call (Do ''CRYPTO_secure_malloc_done'' [] []);
     if rc r \<noteq> 1 then failE ''CRYPTO_secure_malloc_done'' else ok ()
   })"

definition SecureHeapInitialized :: "(world, bool) state" where
  "SecureHeapInitialized = do {
     r \<leftarrow> call (Do ''CRYPTO_secure_malloc_initialized'' [] []);
     ret (rc r = 1)
   }"

definition SecureHeapUsed :: "(world, int) state" where
  "SecureHeapUsed = do {
     i \<leftarrow> SecureHeapInitialized;
     if \<not> i then ret 0 else do { r \<leftarrow> call (Do ''CRYPTO_secure_used'' [] []); ret (rlen r) }
   }"

record secureBuffer =
  sb_ptr :: ptr
  sb_n :: int

definition NewSecureBuffer :: "int \<Rightarrow> secureBuffer go" where
  "NewSecureBuffer n =
     (if n \<le> 0 then fail (Errorf ''ossl: secure buffer size must be positive, got %d'' [FInt n])
      else if n > maxOutputLength
      then fail (Errorf ''ossl: secure buffer size %d exceeds the maximum of %d bytes'' [FInt n, FInt maxOutputLength])
      else do {
        i \<leftarrow> SecureHeapInitialized;
        if \<not> i then fail (Errorf ''ossl: secure heap is not initialised; call InitSecureHeap first'' [])
        else do {
          clearErrors;
          p \<leftarrow> new HSecure ''ossl_secure_zalloc'' [] [AInt (c_size_t n)];
          if p = NULL then do {
            u \<leftarrow> SecureHeapUsed;
            fail (Errorf ''ossl: secure heap exhausted allocating %d bytes (%d in use)'' [FInt n, FInt u])
          } else do {
            a \<leftarrow> call (Do ''CRYPTO_secure_allocated'' [(HSecure, p)] []);
            if rc a \<noteq> 1 then do {
              free HSecure p;
              fail (Errorf ''ossl: allocation of %d bytes did not come from the secure heap'' [FInt n])
            } else ok \<lparr>sb_ptr = p, sb_n = n\<rparr>
          }
        }
      })"

text \<open>\<open>Bytes\<close> is a view of the C memory: where it starts and how long it is.\<close>

definition SecureBuffer_Bytes :: "secureBuffer option \<Rightarrow> (ptr \<times> int) option" where
  "SecureBuffer_Bytes b = (case b of None \<Rightarrow> None | Some x \<Rightarrow>
     if sb_ptr x = NULL then None else Some (sb_ptr x, sb_n x))"

definition SecureBuffer_Len :: "secureBuffer option \<Rightarrow> int" where
  "SecureBuffer_Len b = (case b of None \<Rightarrow> 0 | Some x \<Rightarrow> sb_n x)"

definition SecureBuffer_Close :: "secureBuffer option \<Rightarrow> (secureBuffer option) go" where
  "SecureBuffer_Close b = (case b of None \<Rightarrow> ok None | Some x \<Rightarrow>
     if sb_ptr x \<noteq> NULL then do { free HSecure (sb_ptr x); ok (Some (x\<lparr>sb_ptr := NULL, sb_n := 0\<rparr>)) }
     else ok (Some x))"

section \<open>Powers of two\<close>

lemma and_pred_pow2: "(2 ^ k :: int) AND (2 ^ k - 1) = 0"
proof -
  have "(2 ^ k :: int) AND (2 ^ k - 1) = take_bit k (2 ^ k)"
    by (simp add: take_bit_eq_mask mask_eq_exp_minus_1)
  then show ?thesis by (simp add: take_bit_eq_mod)
qed

lemma pow2_of_and_pred:
  fixes n :: int
  assumes "0 < n" "n AND (n - 1) = 0"
  shows "\<exists>k. n = 2 ^ k"
  using assms
proof (induction "nat n" arbitrary: n rule: less_induct)
  case less
  show ?case
  proof (cases "n = 1")
    case True
    then have "n = 2 ^ 0" by simp
    then show ?thesis by blast
  next
    case False
    have even: "even n"
    proof (rule ccontr)
      assume odd: "odd n"
      then obtain q where q: "n = 2 * q + 1" by (elim oddE)
      then have "n AND (n - 1) = 2 * q" by (simp add: and_int_rec [of "2 * q + 1"])
      with less.prems(2) q False show False by simp
    qed
    then obtain m where m: "n = 2 * m" by (elim evenE)
    have "n AND (n - 1) = (2 * m) AND (2 * (m - 1) + 1)" using m by (simp add: algebra_simps)
    also have "\<dots> = 2 * (m AND (m - 1))"
    proof -
      have "(2 * m - 1) div 2 = m - 1" by presburger
      then show ?thesis by (subst and_int_rec) simp
    qed
    finally have "n AND (n - 1) = 2 * (m AND (m - 1))" .
    with less.prems m have "0 < m" "m AND (m - 1) = 0" "nat m < nat n" by auto
    from less.hyps [OF this(3,1,2)] obtain k where "m = 2 ^ k" by blast
    with m have "n = 2 ^ Suc k" by simp
    then show ?thesis by blast
  qed
qed

lemma power_of_two_test: "0 < n \<Longrightarrow> n AND (n - 1) = 0 \<longleftrightarrow> (\<exists>k. n = (2 :: int) ^ k)"
  using pow2_of_and_pred and_pred_pow2 by blast

section \<open>What the library is asked\<close>

text \<open>The arena is sized in powers of two; the counter is only read on a heap that exists.\<close>

fun heap_call :: "ccall \<Rightarrow> bool" where
  "heap_call (Do f hs [AInt n, AInt m]) \<longleftrightarrow>
     f \<noteq> ''CRYPTO_secure_malloc_init'' \<or> ((\<exists>j. n = c_size_t (2 ^ j)) \<and> (\<exists>k. m = c_size_t (2 ^ k)))"
| "heap_call _ = True"

fun reads_counter :: "event \<Rightarrow> bool" where
  "reads_counter (Do f hs as, r) \<longleftrightarrow> f = ''CRYPTO_secure_used''"
| "reads_counter _ = False"

fun heap_there :: "event \<Rightarrow> bool" where
  "heap_there (Do f hs as, r) \<longleftrightarrow> f = ''CRYPTO_secure_malloc_initialized'' \<and> rc r = 1"
| "heap_there _ = False"

text \<open>Newest first: each read of the counter comes right after the answer that the heap exists.\<close>

fun counter_guarded :: "event list \<Rightarrow> bool" where
  "counter_guarded [] = True"
| "counter_guarded (e # es) \<longleftrightarrow> counter_guarded es
     \<and> (reads_counter e \<longrightarrow> (case es of [] \<Rightarrow> False | e' # _ \<Rightarrow> heap_there e'))"

interpretation heap: call_policy heap_call
proof
  fix c
  show "err_call c \<Longrightarrow> heap_call c" by (cases c rule: heap_call.cases) auto
  show "mem_call c \<Longrightarrow> heap_call c" by (cases c rule: heap_call.cases) auto
qed

text \<open>
  \<open>InitSecureHeap\<close> sizes the arena only in powers of two: its bit test accepts a positive
  size exactly when it is one, and the library is asked for nothing else.
\<close>

theorem InitSecureHeap_powers:
  "wp (InitSecureHeap sz minAlloc) (\<lambda>r w'. only heap_call w w' \<and> keeps w w'
     \<and> (isl r \<or> ((\<exists>j. sz = 2 ^ j) \<and> (\<exists>k. minAlloc = 2 ^ k)))) w"
proof (cases "0 < sz \<and> 0 < minAlloc \<and> sz AND (sz - 1) = 0 \<and> minAlloc AND (minAlloc - 1) = 0")
  case False
  then show ?thesis by (auto simp: InitSecureHeap_def not_less)
next
  case True
  then obtain j k where jk: "sz = 2 ^ j" "minAlloc = 2 ^ k" using pow2_of_and_pred by blast
  have only: "wp (InitSecureHeap sz minAlloc) (\<lambda>r w'. only heap_call w w') w"
    using True unfolding InitSecureHeap_def with_lock_def
    by (auto simp: jk intro!: trace_rules only_push elim!: heap.after_err [rotated]) blast+
  have keep: "wp (InitSecureHeap sz minAlloc) (\<lambda>r w'. keeps w w') w"
    by (auto simp: InitSecureHeap_def with_lock_def keeps_def intro!: vcg)
  show ?thesis using wp_conj [OF only keep] by (rule wp_mono) (use jk in auto)
qed

section \<open>Buffers\<close>

definition buffer_refs :: "secureBuffer \<Rightarrow> handle multiset" where
  "buffer_refs x = held HSecure (sb_ptr x)"

interpretation buffer: closable SecureBuffer_Close "\<lambda>x. sb_ptr x = NULL" buffer_refs
  by unfold_locales
    (auto simp: SecureBuffer_Close_def buffer_refs_def now_owns_def held_def intro!: vcg)

lemma SecureHeapUsed_keeps [vcg]: "(\<And>n w'. keeps w w' \<Longrightarrow> Q n w') \<Longrightarrow> wp SecureHeapUsed Q w"
  by (auto simp: SecureHeapUsed_def SecureHeapInitialized_def keeps_def intro!: vcg)

lemma NewSecureBuffer_spec:
  "wp (NewSecureBuffer n) (\<lambda>r w'. case r of Inl e \<Rightarrow> keeps w w'
     | Inr b \<Rightarrow> gains (buffer_refs b) w w' \<and> sb_ptr b \<noteq> NULL \<and> sb_n b = n \<and> 0 < n \<and> n \<le> maxOutputLength
         \<and> (\<exists>r. rc r = 1 \<and> saw (Do ''CRYPTO_secure_allocated'' [(HSecure, sb_ptr b)] [], r) w w')) w"
  by (auto simp: NewSecureBuffer_def SecureHeapInitialized_def eff_defs buffer_refs_def saw_def
      intro!: vcg ext_intros) blast+

text \<open>
  C25: a secure buffer is only handed out when the library confirmed that its memory came from
  the secure heap, with a size within the bounds; a refusal gives the memory back; and a
  buffer made and closed twice leaves the references as they were.
\<close>

theorem SecureBuffer_from_heap:
  "wp (NewSecureBuffer n) (\<lambda>r w'. case r of
       Inl e \<Rightarrow> keeps w w'
     | Inr b \<Rightarrow> 0 < sb_n b \<and> sb_n b \<le> maxOutputLength
         \<and> (\<exists>r. rc r = 1 \<and> saw (Do ''CRYPTO_secure_allocated'' [(HSecure, sb_ptr b)] [], r) w w')) w
   \<and> wp (session (NewSecureBuffer n) (\<lambda>_. ok ()) SecureBuffer_Close) (balanced w) w"
proof
  show "wp (NewSecureBuffer n) (\<lambda>r w'. case r of
       Inl e \<Rightarrow> keeps w w'
     | Inr b \<Rightarrow> 0 < sb_n b \<and> sb_n b \<le> maxOutputLength
         \<and> (\<exists>r. rc r = 1 \<and> saw (Do ''CRYPTO_secure_allocated'' [(HSecure, sb_ptr b)] [], r) w w')) w"
    by (rule wp_mono [OF NewSecureBuffer_spec]) (auto split: sum.splits)
  show "wp (session (NewSecureBuffer n) (\<lambda>_. ok ()) SecureBuffer_Close) (balanced w) w"
    by (rule buffer.session_balanced [where I = "\<lambda>_ _. True"], rule wp_mono [OF NewSecureBuffer_spec])
      (auto split: sum.splits)
qed

text \<open>
  The counter of the arena segfaults on a heap that was never set up: it is read only right
  after the library said that there is one.
\<close>

lemma SecureHeapUsed_guarded:
  "wp SecureHeapUsed (\<lambda>_ w'. \<exists>es. hist w' = es @ hist w \<and> counter_guarded es) w"
  by (auto simp: SecureHeapUsed_def SecureHeapInitialized_def intro!: vcg ext_intros)

end
