(* ===== verification/Padding.thy ===== *)
theory Padding
  imports Errors "HOL-Library.Signed_Division"
begin

text \<open>
  cipher_sym.go: the padding schemes the package applies itself. A scheme is a Go \<open>int\<close>, so
  it may be out of range; OpenSSL applies PKCS#7. The locale \<open>padding\<close> is the contract
  \<open>Cipher\<close> relies on; ISO/IEC 7816-4 and ANSI X9.23 satisfy it.
\<close>

section \<open>Schemes\<close>

definition PaddingPKCS7 :: int where "PaddingPKCS7 = 0"
definition PaddingNone :: int where "PaddingNone = 1"
definition PaddingISO7816 :: int where "PaddingISO7816 = 2"
definition PaddingX923 :: int where "PaddingX923 = 3"
definition PaddingZero :: int where "PaddingZero = 4"

lemmas scheme_defs = PaddingPKCS7_def PaddingNone_def PaddingISO7816_def PaddingX923_def PaddingZero_def

definition PaddingScheme_String :: "int \<Rightarrow> string" where
  "PaddingScheme_String p =
     (if p = PaddingPKCS7 then ''PKCS#7''
      else if p = PaddingNone then ''none''
      else if p = PaddingISO7816 then ''ISO/IEC 7816-4''
      else if p = PaddingX923 then ''ANSI X9.23''
      else if p = PaddingZero then ''zero''
      else ''unknown'')"

text \<open>Go's \<open>%\<close> truncates and panics on zero; \<open>make\<close> panics on a negative length.\<close>

definition go_rem :: "int \<Rightarrow> int \<Rightarrow> (int \<Rightarrow> err + 'a) \<Rightarrow> err + 'a" where
  "go_rem a b k = (if b = 0 then Inl (Panic ''integer divide by zero'') else k (a smod b))"

definition go_make :: "int \<Rightarrow> (byte list \<Rightarrow> err + 'a) \<Rightarrow> err + 'a" where
  "go_make n k = (if n < 0 then Inl (Panic ''makeslice: len out of range'') else k (replicate (nat n) 0))"

definition applyPadding :: "int \<Rightarrow> byte list \<Rightarrow> int \<Rightarrow> err + byte list" where
  "applyPadding p xs block =
     (if p = PaddingNone then Inr xs
      else if p = PaddingZero then go_rem (go_len xs) block (\<lambda>r.
        let n = (if block - r = block then 0 else block - r) in
        go_make n (\<lambda>zs. Inr (xs @ zs)))
      else if p = PaddingISO7816 then go_rem (go_len xs) block (\<lambda>r.
        let n = block - r in go_make (n - 1) (\<lambda>zs. Inr (xs @ [0x80] @ zs)))
      else if p = PaddingX923 then go_rem (go_len xs) block (\<lambda>r.
        let n = block - r in go_make (n - 1) (\<lambda>zs. Inr (xs @ zs @ [word_of_int n])))
      else Inl (Errorf ''ossl: padding scheme %v is applied by OpenSSL, not here''
        [FStr (PaddingScheme_String p)]))"

text \<open>\<open>i := len(in) - 1; for i >= 0 && in[i] == 0x00 { i-- }\<close>.\<close>

function iso_scan :: "byte list \<Rightarrow> int \<Rightarrow> int" where
  "iso_scan xs i = (if 0 \<le> i \<and> xs ! nat i = 0 then iso_scan xs (i - 1) else i)"
  by pat_completeness auto
termination by (relation "measure (\<lambda>(xs, i). nat (i + 1))") auto

declare iso_scan.simps [simp del]

definition removePadding :: "int \<Rightarrow> byte list \<Rightarrow> int \<Rightarrow> err + byte list" where
  "removePadding p xs block =
     (if p = PaddingISO7816 then
        (if xs = [] then Inl ErrVerification
         else let i = iso_scan xs (go_len xs - 1) in
           if i < 0 \<or> xs ! nat i \<noteq> 0x80 then Inl ErrVerification else Inr (take (nat i) xs))
      else if p = PaddingX923 then
        (if xs = [] then Inl ErrVerification
         else go_rem (go_len xs) block (\<lambda>r.
           if r \<noteq> 0 then Inl ErrVerification
           else let n = uint (last xs) in
             if n = 0 \<or> n > block \<or> n > go_len xs then Inl ErrVerification
             else let body = take (nat (go_len xs - n)) xs;
                      pad = butlast (drop (nat (go_len xs - n)) xs);
                      acc = fold (\<lambda>b a. a OR b) pad 0
               in if acc \<noteq> 0 then Inl ErrVerification else Inr body))
      else Inr xs)"

section \<open>ISO/IEC 7816-4\<close>

lemma smod_pos: "0 \<le> a \<Longrightarrow> 0 < b \<Longrightarrow> a smod b = a mod (b :: int)"
  by (cases "a = 0") (simp_all add: signed_modulo_int_def)

text \<open>The scan, as the part of the string left when trailing zeros are dropped.\<close>

lemma iso_scan_eq:
  "n \<le> length xs \<Longrightarrow>
   iso_scan xs (int n - 1) = int (length (dropWhile (\<lambda>b. b = 0) (rev (take n xs)))) - 1"
proof (induction n)
  case 0
  show ?case by (subst iso_scan.simps) simp
next
  case (Suc n)
  then show ?case by (subst iso_scan.simps) (simp add: take_Suc_conv_app_nth)
qed

lemma dropWhile_replicate [simp]: "dropWhile (\<lambda>b. b = x) (replicate k x @ ys) = dropWhile (\<lambda>b. b = x) ys"
  by (induction k) auto

text \<open>Removal accepts exactly the strings that end in 0x80 and zeros, however many.\<close>

lemma removePadding_ISO:
  "removePadding PaddingISO7816 ys b = Inr xs \<longleftrightarrow> (\<exists>k. ys = xs @ 0x80 # replicate k 0)"
proof
  assume "\<exists>k. ys = xs @ 0x80 # replicate k 0"
  then obtain k where ys: "ys = xs @ 0x80 # replicate k 0" ..
  then have "iso_scan ys (go_len ys - 1) = int (length xs)"
    using iso_scan_eq [of "length ys" ys] by (simp add: go_len_def)
  with ys show "removePadding PaddingISO7816 ys b = Inr xs"
    by (simp add: removePadding_def scheme_defs Let_def)
next
  assume r: "removePadding PaddingISO7816 ys b = Inr xs"
  define zs where "zs = dropWhile (\<lambda>b. b = 0) (rev ys)"
  define k where "k = length (takeWhile (\<lambda>b. b = 0) (rev ys))"
  have "takeWhile (\<lambda>b. b = 0) (rev ys) = replicate k 0"
    unfolding k_def by (rule replicate_length_same [symmetric]) (auto dest: set_takeWhileD)
  then have "rev ys = replicate k 0 @ zs"
    unfolding zs_def by (metis takeWhile_dropWhile_id)
  then have ys: "ys = rev zs @ replicate k 0" by (metis rev_append rev_replicate rev_rev_ident)
  have scan: "iso_scan ys (go_len ys - 1) = int (length zs) - 1"
    using iso_scan_eq [of "length ys" ys] by (simp add: go_len_def zs_def)
  have nat1: "nat (int m - 1) = m - 1" for m by simp
  from r scan have "zs \<noteq> []" "ys ! (length zs - 1) = 0x80" "xs = take (length zs - 1) ys"
    by (auto simp: removePadding_def scheme_defs Let_def nat1 split: if_splits)
  then show "\<exists>k. ys = xs @ 0x80 # replicate k 0"
    using ys by (cases zs) (auto simp: nth_append)
qed

section \<open>ANSI X9.23\<close>

lemma fold_or_0: "fold (\<lambda>b a. a OR b) xs (a :: byte) = 0 \<longleftrightarrow> a = 0 \<and> (\<forall>b \<in> set xs. b = 0)"
proof (induction xs arbitrary: a)
  case (Cons x xs)
  have "a OR x = 0 \<longleftrightarrow> a = 0 \<and> x = 0"
    by (auto simp: bit_eq_iff bit_or_iff)
  with Cons show ?case by auto
qed simp

lemma all_zero: "(\<forall>b \<in> set xs. b = 0) \<longleftrightarrow> xs = replicate (length xs) 0"
  by (metis in_set_replicate replicate_length_same)

lemma uint_of_nat_byte: "n < 256 \<Longrightarrow> uint (of_nat n :: byte) = int n"
  by (simp add: unsigned_of_nat take_bit_int_eq_self take_bit_nat_eq_self)

lemma removePadding_X923:
  assumes "0 < b"
  shows "removePadding PaddingX923 ys b = Inr xs \<longleftrightarrow>
    (\<exists>n. 0 < n \<and> n < 256 \<and> int n \<le> b \<and> ys = xs @ replicate (n - 1) 0 @ [of_nat n]
       \<and> go_len ys mod b = 0)"
proof (rule iffI [rotated], elim exE conjE)
  fix n
  assume n: "0 < n" "n < 256" "int n \<le> b" "ys = xs @ replicate (n - 1) 0 @ [of_nat n]"
    "go_len ys mod b = 0"
  have "last ys = of_nat n" unfolding n(4) by simp
  then have "uint (last ys) = int n" using uint_of_nat_byte [OF n(2)] by metis
  moreover have "nat (go_len ys - int n) = length xs" "int n \<le> go_len ys" "ys \<noteq> []"
    using n(1,4) by (auto simp: go_len_def)
  moreover have "butlast (drop (length xs) ys) = replicate (n - 1) 0"
    using n(4) by (simp add: butlast_append)
  moreover have "go_len ys smod b = 0"
    using n(5) assms by (simp add: smod_pos go_len_def)
  ultimately show "removePadding PaddingX923 ys b = Inr xs"
    using n(1,3,4) assms
    by (simp add: removePadding_def scheme_defs Let_def go_rem_def fold_or_0)
next
  assume r: "removePadding PaddingX923 ys b = Inr xs"
  define n where "n = unat (last ys)"
  have n: "uint (last ys) = int n" by (simp add: n_def)
  from r assms have ys: "ys \<noteq> []" "go_len ys mod b = 0" "0 < n" "int n \<le> b" "n \<le> length ys"
      and xs: "xs = take (length ys - n) ys"
      and z: "\<forall>b \<in> set (butlast (drop (length ys - n) ys)). b = 0"
    by (auto simp: removePadding_def scheme_defs Let_def go_rem_def smod_pos fold_or_0 go_len_def n
        nat_diff_distrib split: if_splits)
  have d: "drop (length ys - n) ys \<noteq> []" "length (drop (length ys - n) ys) = n"
    using ys by auto
  have "butlast (drop (length ys - n) ys) = replicate (n - 1) 0"
    using z d(2) by (metis all_zero length_butlast)
  moreover have "last (drop (length ys - n) ys) = of_nat n"
    using ys d by (simp add: last_drop n_def)
  ultimately have "drop (length ys - n) ys = replicate (n - 1) 0 @ [of_nat n]"
    using d(1) by (metis append_butlast_last_id)
  then have "ys = xs @ replicate (n - 1) 0 @ [of_nat n]"
    unfolding xs by (metis append_take_drop_id)
  moreover have "n < 256" unfolding n_def by (rule unat_byte_lt)
  ultimately show "\<exists>n. 0 < n \<and> n < 256 \<and> int n \<le> b \<and> ys = xs @ replicate (n - 1) 0 @ [of_nat n]
       \<and> go_len ys mod b = 0"
    by (intro exI [of _ n] conjI) (use ys in simp_all)
qed

section \<open>The contract\<close>

text \<open>
  What \<open>Cipher\<close> needs of a scheme at a block size it supports: padding never fails, fills up
  whole blocks with at least one byte and at most a block, and removal undoes it.
\<close>

locale codec =
  fixes enc :: "'a \<Rightarrow> int \<Rightarrow> err + 'b" and dec :: "'b \<Rightarrow> int \<Rightarrow> err + 'a"
    and fits :: "'a \<Rightarrow> int \<Rightarrow> bool"
  assumes roundtrip: "fits x b \<Longrightarrow> \<exists>y. enc x b = Inr y \<and> dec y b = Inr x"
begin

lemma enc_inj: "fits x b \<Longrightarrow> fits x' b \<Longrightarrow> enc x b = enc x' b \<Longrightarrow> x = x'"
  using roundtrip [of x b] roundtrip [of x' b] by auto

lemma dec_enc: "fits x b \<Longrightarrow> enc x b = Inr y \<Longrightarrow> dec y b = Inr x"
  using roundtrip [of x b] by auto

end

locale padding = codec pad unpad "\<lambda>_. fits"
  for pad unpad :: "byte list \<Rightarrow> int \<Rightarrow> err + byte list" and fits :: "int \<Rightarrow> bool" +
  assumes pad_length: "fits b \<Longrightarrow> pad xs b = Inr ys \<Longrightarrow>
    go_len ys mod b = 0 \<and> go_len xs < go_len ys \<and> go_len ys \<le> go_len xs + b"
begin

text \<open>A cipher that inverts on whole blocks, used between the two, gives the plaintext back.\<close>

lemma through_cipher:
  assumes "fits b" "pad xs b = Inr ys" "go_len ys mod b = 0 \<Longrightarrow> D (E ys) = ys"
  shows "unpad (D (E ys)) b = Inr xs"
  using assms pad_length [OF assms(1,2)] dec_enc by simp

end

lemma pad_total:
  assumes "0 < b"
  shows "(go_len xs + (b - go_len xs mod b)) mod b = 0" "0 < b - go_len xs mod b" "b - go_len xs mod b \<le> b"
proof -
  have "(go_len xs + (b - go_len xs mod b)) = b + (go_len xs div b) * b"
    by (simp add: minus_mod_eq_div_mult algebra_simps)
  then show "(go_len xs + (b - go_len xs mod b)) mod b = 0" by (metis mod_add_self1 mod_mult_self2_is_0)
qed (use assms pos_mod_bound [of b "go_len xs"] pos_mod_sign [of b "go_len xs"] in linarith)+

lemma applyPadding_ISO:
  assumes "0 < b"
  shows "applyPadding PaddingISO7816 xs b
    = Inr (xs @ 0x80 # replicate (nat (b - go_len xs mod b) - 1) 0)"
proof -
  define n where "n = nat (b - go_len xs mod b)"
  have n: "b - go_len xs mod b = int n" "0 < n" "nat (int n - 1) = n - 1" "\<not> int n - 1 < 0"
    using pad_total(2) [OF assms, of xs] by (auto simp: n_def)
  show ?thesis
    unfolding n(1) using assms n(2-)
    by (simp add: applyPadding_def scheme_defs go_rem_def go_make_def smod_pos Let_def n(1))
qed

lemma applyPadding_X923:
  assumes "0 < b"
  shows "applyPadding PaddingX923 xs b
    = Inr (xs @ replicate (nat (b - go_len xs mod b) - 1) 0 @ [of_nat (nat (b - go_len xs mod b))])"
proof -
  define n where "n = nat (b - go_len xs mod b)"
  have n: "b - go_len xs mod b = int n" "0 < n" "nat (int n - 1) = n - 1" "\<not> int n - 1 < 0"
    using pad_total(2) [OF assms, of xs] by (auto simp: n_def)
  show ?thesis
    unfolding n(1) using assms n(2-)
    by (simp add: applyPadding_def scheme_defs go_rem_def go_make_def smod_pos Let_def n(1))
qed

lemma go_len_Cons [simp]: "go_len (x # xs) = go_len xs + 1"
  by (simp add: go_len_def)

lemma go_len_replicate [simp]: "go_len (replicate n x) = int n"
  by (simp add: go_len_def)

interpretation iso: padding "applyPadding PaddingISO7816" "removePadding PaddingISO7816" "\<lambda>b. 0 < b"
proof
  fix b :: int and xs ys :: "byte list"
  assume b: "0 < b"
  show "\<exists>ys. applyPadding PaddingISO7816 xs b = Inr ys \<and> removePadding PaddingISO7816 ys b = Inr xs"
    using b by (auto simp: applyPadding_ISO removePadding_ISO)
  assume "applyPadding PaddingISO7816 xs b = Inr ys"
  then show "go_len ys mod b = 0 \<and> go_len xs < go_len ys \<and> go_len ys \<le> go_len xs + b"
    using b pad_total [OF b, of xs] by (auto simp: applyPadding_ISO algebra_simps)
qed

text \<open>The length byte of X9.23 limits its blocks to 255 bytes.\<close>

interpretation x923: padding "applyPadding PaddingX923" "removePadding PaddingX923" "\<lambda>b. 0 < b \<and> b < 256"
proof
  fix b :: int and xs ys :: "byte list"
  assume b: "0 < b \<and> b < 256"
  define n where "n = nat (b - go_len xs mod b)"
  have "0 < b" using b by simp
  note t = pad_total [OF this, of xs]
  have i: "int n = b - go_len xs mod b" using t(2) by (simp add: n_def)
  have n: "0 < n" "n < 256" "int n \<le> b" "(go_len xs + int n) mod b = 0"
    using i t b by (linarith, linarith, linarith, simp only: i t)
  have len: "go_len (xs @ replicate (n - 1) 0 @ [of_nat n :: byte]) = go_len xs + int n"
    using n by simp
  show "\<exists>ys. applyPadding PaddingX923 xs b = Inr ys \<and> removePadding PaddingX923 ys b = Inr xs"
    using b n len
    by (auto simp: applyPadding_X923 removePadding_X923 n_def [symmetric] intro!: exI [of _ n])
  assume "applyPadding PaddingX923 xs b = Inr ys"
  then have "ys = xs @ replicate (n - 1) 0 @ [of_nat n]"
    using b by (simp add: applyPadding_X923 n_def)
  then show "go_len ys mod b = 0 \<and> go_len xs < go_len ys \<and> go_len ys \<le> go_len xs + b"
    using n len by simp
qed

section \<open>Properties\<close>

text \<open>
  C14: for every block size below 256, ANSI X9.23 padding is exactly inverted by its removal:
  removal accepts a string of whole blocks if and only if it is the padding of what it
  returns. So a ciphertext whose padding was altered in any way is refused.
\<close>

theorem X923_exact:
  assumes "0 < b" "b < 256"
  shows "removePadding PaddingX923 ys b = Inr xs \<longleftrightarrow> applyPadding PaddingX923 xs b = Inr ys"
proof
  assume "applyPadding PaddingX923 xs b = Inr ys"
  then show "removePadding PaddingX923 ys b = Inr xs"
    using assms by (intro x923.dec_enc) auto
next
  assume "removePadding PaddingX923 ys b = Inr xs"
  then obtain n where n: "0 < n \<and> n < 256 \<and> int n \<le> b \<and> ys = xs @ replicate (n - 1) 0 @ [of_nat n]
       \<and> go_len ys mod b = 0" unfolding removePadding_X923 [OF assms(1)] ..
  then have "go_len ys = go_len xs + int n" by (auto simp: of_nat_diff)
  then have "(go_len xs + int n) mod b = 0" using n by metis
  moreover have "(go_len xs + (b - go_len xs mod b)) mod b = 0"
    using pad_total [OF assms(1), of xs] by simp
  ultimately have "b dvd int n - (b - go_len xs mod b)"
    using mod_eq_dvd_iff [of "go_len xs + int n" b "go_len xs + (b - go_len xs mod b)"] by simp
  moreover have "\<bar>int n - (b - go_len xs mod b)\<bar> < b"
    using n pad_total [OF assms(1), of xs] by linarith
  ultimately have "int n = b - go_len xs mod b"
    using dvd_imp_le_int [of "int n - (b - go_len xs mod b)" b] assms(1) by linarith
  then have "nat (b - go_len xs mod b) = n" by linarith
  then show "applyPadding PaddingX923 xs b = Inr ys"
    using n unfolding applyPadding_X923 [OF assms(1)] by simp
qed

lemma X923_exact_witness:
  "removePadding PaddingX923 [1, 0, 0, 3] 4 = Inr [1] \<longleftrightarrow> applyPadding PaddingX923 [1] 4 = Inr [1, 0, 0, 3]"
  by (rule X923_exact) simp_all

text \<open>
  ISO/IEC 7816-4 padding is undone by its removal for every block size, but removal also
  accepts padding that no padding run produces: 0x80 followed by any number of zeros, more
  than a block included.
\<close>

theorem ISO7816_removal:
  assumes "0 < b"
  shows "(\<exists>ys. applyPadding PaddingISO7816 xs b = Inr ys \<and> removePadding PaddingISO7816 ys b = Inr xs
      \<and> go_len ys mod b = 0)
    \<and> removePadding PaddingISO7816 (xs @ 0x80 # replicate k 0) b = Inr xs"
  using iso.roundtrip [OF assms, of xs] iso.pad_length [OF assms, of xs] removePadding_ISO [of _ b xs]
  by auto

lemma ISO7816_removal_witness:
  "(\<exists>ys. applyPadding PaddingISO7816 [7] 8 = Inr ys \<and> removePadding PaddingISO7816 ys 8 = Inr [7]
      \<and> go_len ys mod 8 = 0)
    \<and> removePadding PaddingISO7816 ([7] @ 0x80 # replicate 30 0) 8 = Inr [7]"
  by (rule ISO7816_removal) simp

end
