(* ===== verification/Cipher_Sym.thy ===== *)
theory Cipher_Sym
  imports Lifecycle Padding
begin

text \<open>
  cipher_sym.go: unauthenticated ciphers and key wrapping. A method takes its receiver as an
  option, \<open>None\<close> for nil; \<open>Close\<close> returns the receiver it changed.
\<close>

section \<open>Constants of evp.h\<close>

definition EVP_CIPH_GCM_MODE :: int where "EVP_CIPH_GCM_MODE = 6"
definition EVP_CIPH_CCM_MODE :: int where "EVP_CIPH_CCM_MODE = 7"
definition EVP_CIPH_OCB_MODE :: int where "EVP_CIPH_OCB_MODE = 65539"
definition EVP_CIPH_FLAG_AEAD_CIPHER :: "64 word" where "EVP_CIPH_FLAG_AEAD_CIPHER = 0x200000"
definition EVP_MAX_BLOCK_LENGTH :: int where "EVP_MAX_BLOCK_LENGTH = 32"
definition EVP_CIPHER_CTX_FLAG_WRAP_ALLOW :: int where "EVP_CIPHER_CTX_FLAG_WRAP_ALLOW = 1"

lemmas evp_defs = EVP_CIPH_GCM_MODE_def EVP_CIPH_CCM_MODE_def EVP_CIPH_OCB_MODE_def
  EVP_CIPH_FLAG_AEAD_CIPHER_def EVP_MAX_BLOCK_LENGTH_def EVP_CIPHER_CTX_FLAG_WRAP_ALLOW_def

text \<open>A getter of an integer attribute.\<close>

definition get_int :: "string \<Rightarrow> handle \<Rightarrow> (world, int) state" where
  "get_int f h = do { r \<leftarrow> call (Do f [h] []); ret (rc r) }"

definition get_flags :: "handle \<Rightarrow> (world, 64 word) state" where
  "get_flags h = do { r \<leftarrow> call (Do ''EVP_CIPHER_get_flags'' [h] []); ret (rcode r) }"

lemma wp_get [simp]:
  "wp (get_int f h) P = wp (call (Do f [h] [])) (\<lambda>r. P (rc r))"
  "wp (get_flags h) Q = wp (call (Do ''EVP_CIPHER_get_flags'' [h] [])) (\<lambda>r. Q (rcode r))"
  by (simp_all add: get_int_def get_flags_def)

section \<open>Cipher\<close>

record cipher =
  x_cipher :: ptr
  x_key :: "byte list"
  x_name :: string
  x_ivLen :: int
  x_blockSz :: int
  x_padding :: int
  x_stream :: bool
  x_closed :: bool

record cipherConfig =
  cc_padding :: int
  cc_ivLen :: int
  cc_ivSet :: bool

definition WithPadding :: "int \<Rightarrow> cipherConfig \<Rightarrow> cipherConfig" where
  "WithPadding p c = c\<lparr>cc_padding := p\<rparr>"

definition WithCipherIVSize :: "int \<Rightarrow> cipherConfig \<Rightarrow> cipherConfig" where
  "WithCipherIVSize n c = c\<lparr>cc_ivLen := n, cc_ivSet := True\<rparr>"

text \<open>Everything after the fetch; every refusal releases the cipher first.\<close>

definition buildCipher :: "ptr \<Rightarrow> string \<Rightarrow> byte list \<Rightarrow> (cipherConfig \<Rightarrow> cipherConfig) list \<Rightarrow> cipher go" where
  "buildCipher ci name key opts = do {
     mode \<leftarrow> get_int ''EVP_CIPHER_get_mode'' (HCipher, ci);
     isAead \<leftarrow> (if mode \<in> {EVP_CIPH_GCM_MODE, EVP_CIPH_CCM_MODE, EVP_CIPH_OCB_MODE} then ret True
       else do { flags \<leftarrow> get_flags (HCipher, ci); ret (flags AND EVP_CIPH_FLAG_AEAD_CIPHER \<noteq> 0) });
     if isAead then do {
       free HCipher ci;
       fail (Errorf ''ossl: %s is an AEAD cipher; use NewAEAD so the tag and AAD are not silently dropped'' [FStr name])
     } else do {
       want \<leftarrow> get_int ''EVP_CIPHER_get_key_length'' (HCipher, ci);
       if go_len key \<noteq> want then do {
         free HCipher ci;
         fail (Errorf ''ossl: %s needs a %d-byte key, got %d'' [FStr name, FInt want, FInt (go_len key)])
       } else do {
         ivl \<leftarrow> get_int ''EVP_CIPHER_get_iv_length'' (HCipher, ci);
         let cfg = fold (\<lambda>f. f) opts \<lparr>cc_padding = PaddingPKCS7, cc_ivLen = ivl, cc_ivSet = False\<rparr>;
         if cc_ivSet cfg \<and> (cc_ivLen cfg < 0 \<or> cc_ivLen cfg > 1024) then do {
           free HCipher ci;
           fail (Errorf ''ossl: %s IV size %d is out of range'' [FStr name, FInt (cc_ivLen cfg)])
         } else if cc_padding cfg < PaddingPKCS7 \<or> cc_padding cfg > PaddingZero then do {
           free HCipher ci;
           fail (Errorf ''ossl: unknown padding scheme %d'' [FInt (cc_padding cfg)])
         } else do {
           blockSz \<leftarrow> get_int ''EVP_CIPHER_get_block_size'' (HCipher, ci);
           ok \<lparr>x_cipher = ci, x_key = key, x_name = name, x_ivLen = cc_ivLen cfg, x_blockSz = blockSz,
             x_padding = cc_padding cfg, x_stream = (blockSz = 1), x_closed = False\<rparr>
         }
       }
     }
   }"

definition NewCipher :: "cref option \<Rightarrow> string \<Rightarrow> byte list \<Rightarrow> (cipherConfig \<Rightarrow> cipherConfig) list \<Rightarrow> cipher go" where
  "NewCipher c name key opts = (case c of None \<Rightarrow> fail ErrClosed | Some a \<Rightarrow> do {
     clearErrors;
     with_cstr name (\<lambda>cname. do {
       cp \<leftarrow> Context_ptr a;
       ci \<leftarrow> new HCipher ''EVP_CIPHER_fetch'' [(HLibCtx, cp)] [cname, ANull];
       if ci = NULL then failE (''EVP_CIPHER_fetch('' @ name @ '')'')
       else buildCipher ci name key opts
     })
   })"

definition IVSize :: "cipher option \<Rightarrow> int" where
  "IVSize x = (case x of None \<Rightarrow> 0 | Some x \<Rightarrow> x_ivLen x)"

definition BlockSize :: "cipher option \<Rightarrow> int" where
  "BlockSize x = (case x of None \<Rightarrow> 0 | Some x \<Rightarrow> x_blockSz x)"

definition Cipher_Name :: "cipher option \<Rightarrow> string" where
  "Cipher_Name x = (case x of None \<Rightarrow> [] | Some x \<Rightarrow> x_name x)"

definition Cipher_Padding :: "cipher option \<Rightarrow> int" where
  "Cipher_Padding x = (case x of None \<Rightarrow> PaddingPKCS7 | Some x \<Rightarrow> x_padding x)"

definition checkIV :: "cipher \<Rightarrow> byte list \<Rightarrow> unit go" where
  "checkIV x iv = (if go_len iv \<noteq> x_ivLen x
     then fail (Errorf ''ossl: %s needs a %d-byte IV, got %d'' [FStr (x_name x), FInt (x_ivLen x), FInt (go_len iv)])
     else ok ())"

definition evp :: "bool \<Rightarrow> string \<Rightarrow> string" where
  "evp enc s = (if enc then ''EVP_Encrypt'' else ''EVP_Decrypt'') @ s"

text \<open>The data phase both run functions share: one Update, unless there is nothing, then Final.\<close>

definition run_final :: "ptr \<Rightarrow> bool \<Rightarrow> string \<Rightarrow> byte list \<Rightarrow> int \<Rightarrow> (byte list) go" where
  "run_final ctx enc op buf tot = addr_at buf tot (do {
     r \<leftarrow> call (Do (evp enc ''Final_ex'') [(HCipherCtx, ctx)] [AOut (go_len buf - tot)]);
     if rc r \<noteq> 1 then do { Zero (write_at buf tot (rbuf r)); failE (op @ '' final'') }
     else slice_to (write_at buf tot (rbuf r)) (tot + rlen r) ok
   })"

definition run_update :: "ptr \<Rightarrow> bool \<Rightarrow> string \<Rightarrow> byte list \<Rightarrow> byte list \<Rightarrow> (byte list) go" where
  "run_update ctx enc op buf xs = do {
     r \<leftarrow> call (Do (evp enc ''Update'') [(HCipherCtx, ctx)]
       [AOut (go_len buf), ABytes xs, AInt (c_int (go_len xs))]);
     if rc r \<noteq> 1 then do { Zero (write_at buf 0 (rbuf r)); failE (op @ '' update'') }
     else run_final ctx enc op (write_at buf 0 (rbuf r)) (rlen r)
   }"

definition set_padding :: "cipher \<Rightarrow> ptr \<Rightarrow> unit go" where
  "set_padding x ctx = (if x_stream x then ok () else do {
     r \<leftarrow> call (Do ''EVP_CIPHER_CTX_set_padding'' [(HCipherCtx, ctx)]
       [AInt (if x_padding x \<noteq> PaddingPKCS7 then 0 else 1)]);
     if rc r \<noteq> 1 then failE ''EVP_CIPHER_CTX_set_padding'' else ok ()
   })"

definition run_in :: "ptr \<Rightarrow> cipher \<Rightarrow> byte list \<Rightarrow> byte list \<Rightarrow> bool \<Rightarrow> (byte list) go" where
  "run_in ctx x iv xs enc = addr0 (x_key x) (do {
     r \<leftarrow> call (Do (evp enc ''Init_ex2'') [(HCipherCtx, ctx), (HCipher, x_cipher x)]
       [ABytes (x_key x), if iv = [] then ANull else ABytes iv, ANull]);
     if rc r \<noteq> 1 then failE ''cipher init''
     else must (set_padding x ctx) (\<lambda>_.
       make_bytes (go_len xs + x_blockSz x + EVP_MAX_BLOCK_LENGTH) (\<lambda>buf.
         if xs \<noteq> [] then addr0 buf (run_update ctx enc ''cipher'' buf xs)
         else run_final ctx enc ''cipher'' buf 0))
   })"

text \<open>One context per call, so that concurrent calls share only the cipher and the key.\<close>

definition Cipher_run :: "cipher \<Rightarrow> byte list \<Rightarrow> byte list \<Rightarrow> bool \<Rightarrow> (byte list) go" where
  "Cipher_run x iv xs enc = do {
     clearErrors;
     ctx \<leftarrow> new HCipherCtx ''EVP_CIPHER_CTX_new'' [] [];
     if ctx = NULL then failE ''EVP_CIPHER_CTX_new''
     else deferring (free HCipherCtx ctx) (run_in ctx x iv xs enc)
   }"

definition Encrypt_body :: "cipher \<Rightarrow> byte list \<Rightarrow> byte list \<Rightarrow> byte list \<Rightarrow> (byte list) go" where
  "Encrypt_body x dst iv plaintext = must (checkIV x iv) (\<lambda>_.
     must (if \<not> x_stream x \<and> x_padding x \<noteq> PaddingPKCS7
           then lift (applyPadding (x_padding x) plaintext (x_blockSz x)) else ok plaintext) (\<lambda>xs.
     must (if \<not> x_stream x \<and> x_padding x = PaddingNone
           then lift (go_rem (go_len xs) (x_blockSz x) (\<lambda>r. Inr (r \<noteq> 0))) else ok False) (\<lambda>bad.
     if bad then fail (Errorf ''ossl: %s with no padding needs a multiple of %d bytes, got %d''
       [FStr (x_name x), FInt (x_blockSz x), FInt (go_len plaintext)])
     else must (Cipher_run x iv xs True) (\<lambda>out. ok (dst @ out)))))"

definition Cipher_Encrypt :: "cipher option \<Rightarrow> byte list \<Rightarrow> byte list \<Rightarrow> byte list \<Rightarrow> (byte list) go" where
  "Cipher_Encrypt x dst iv plaintext = (case x of None \<Rightarrow> fail ErrClosed | Some x \<Rightarrow>
     with_rlock MuObject (if x_closed x then fail ErrClosed else Encrypt_body x dst iv plaintext))"

definition Decrypt_body :: "cipher \<Rightarrow> byte list \<Rightarrow> byte list \<Rightarrow> byte list \<Rightarrow> (byte list) go" where
  "Decrypt_body x dst iv ciphertext = must (checkIV x iv) (\<lambda>_.
     must (if x_stream x then ok False
           else lift (go_rem (go_len ciphertext) (x_blockSz x) (\<lambda>r. Inr (r \<noteq> 0)))) (\<lambda>bad.
     if bad then fail ErrVerification
     else onerr (Cipher_run x iv ciphertext False) (\<lambda>e. do { clearErrors; fail ErrVerification }) (\<lambda>out.
       must (if \<not> x_stream x \<and> x_padding x \<noteq> PaddingPKCS7
             then lift (removePadding (x_padding x) out (x_blockSz x)) else ok out) (\<lambda>out.
       ok (dst @ out)))))"

definition Cipher_Decrypt :: "cipher option \<Rightarrow> byte list \<Rightarrow> byte list \<Rightarrow> byte list \<Rightarrow> (byte list) go" where
  "Cipher_Decrypt x dst iv ciphertext = (case x of None \<Rightarrow> fail ErrClosed | Some x \<Rightarrow>
     with_rlock MuObject (if x_closed x then fail ErrClosed else Decrypt_body x dst iv ciphertext))"

text \<open>\<open>Close\<close> releases once and cleanses the key.\<close>

definition Cipher_Close :: "cipher option \<Rightarrow> (cipher option) go" where
  "Cipher_Close x = (case x of None \<Rightarrow> ok None | Some x \<Rightarrow> with_lock MuObject
     (if x_closed x then ok (Some x) else do {
        free HCipher (x_cipher x);
        Zero (x_key x);
        ok (Some (x\<lparr>x_cipher := NULL, x_key := [], x_closed := True\<rparr>))
      }))"

section \<open>KeyWrap\<close>

record keywrap =
  k_cipher :: ptr
  k_kek :: "byte list"
  k_name :: string
  k_padded :: bool
  k_closed :: bool

definition wrap_name :: "byte list \<Rightarrow> bool \<Rightarrow> string go" where
  "wrap_name kek withPadding =
     (let suffix = (if withPadding then ''-PAD'' else []) in
      if go_len kek = 16 then ok (''AES-128-WRAP'' @ suffix)
      else if go_len kek = 24 then ok (''AES-192-WRAP'' @ suffix)
      else if go_len kek = 32 then ok (''AES-256-WRAP'' @ suffix)
      else fail (Errorf ''ossl: key wrap needs a 16, 24 or 32-byte KEK, got %d'' [FInt (go_len kek)]))"

definition NewKeyWrap :: "cref option \<Rightarrow> byte list \<Rightarrow> bool \<Rightarrow> keywrap go" where
  "NewKeyWrap c kek withPadding = (case c of None \<Rightarrow> fail ErrClosed | Some a \<Rightarrow>
     must (wrap_name kek withPadding) (\<lambda>name. do {
       clearErrors;
       with_cstr name (\<lambda>cname. do {
         cp \<leftarrow> Context_ptr a;
         ci \<leftarrow> new HCipher ''EVP_CIPHER_fetch'' [(HLibCtx, cp)] [cname, ANull];
         if ci = NULL then failE (''EVP_CIPHER_fetch('' @ name @ '')'')
         else ok \<lparr>k_cipher = ci, k_kek = kek, k_name = name, k_padded = withPadding, k_closed = False\<rparr>
       })
     }))"

definition KeyWrap_Name :: "keywrap option \<Rightarrow> string" where
  "KeyWrap_Name w = (case w of None \<Rightarrow> [] | Some w \<Rightarrow> k_name w)"

definition KeyWrap_run :: "keywrap \<Rightarrow> byte list \<Rightarrow> bool \<Rightarrow> (byte list) go" where
  "KeyWrap_run w xs wrap = do {
     clearErrors;
     ctx \<leftarrow> new HCipherCtx ''EVP_CIPHER_CTX_new'' [] [];
     if ctx = NULL then failE ''EVP_CIPHER_CTX_new''
     else deferring (free HCipherCtx ctx) (do {
       call (Do ''EVP_CIPHER_CTX_set_flags'' [(HCipherCtx, ctx)] [AInt EVP_CIPHER_CTX_FLAG_WRAP_ALLOW]);
       addr0 (k_kek w) (do {
         r \<leftarrow> call (Do (evp wrap ''Init_ex2'') [(HCipherCtx, ctx), (HCipher, k_cipher w)]
           [ABytes (k_kek w), ANull, ANull]);
         if rc r \<noteq> 1 then failE ''key wrap init''
         else make_bytes (go_len xs + EVP_MAX_BLOCK_LENGTH + 16) (\<lambda>buf.
           addr0 buf (addr0 xs (run_update ctx wrap ''key wrap'' buf xs)))
       })
     })
   }"

definition Wrap :: "keywrap option \<Rightarrow> byte list \<Rightarrow> (byte list) go" where
  "Wrap w keyMaterial = (case w of None \<Rightarrow> fail ErrClosed | Some w \<Rightarrow> with_rlock MuObject (
     if k_closed w then fail ErrClosed
     else if go_len keyMaterial = 0 then fail (Errorf ''ossl: nothing to wrap'' [])
     else if \<not> k_padded w \<and> (go_len keyMaterial < 16 \<or> go_len keyMaterial smod 8 \<noteq> 0)
     then fail (Errorf ''ossl: AES-KW needs at least 16 bytes in multiples of 8, got %d; use padding for arbitrary lengths''
       [FInt (go_len keyMaterial)])
     else KeyWrap_run w keyMaterial True))"

definition Unwrap :: "keywrap option \<Rightarrow> byte list \<Rightarrow> (byte list) go" where
  "Unwrap w wrapped = (case w of None \<Rightarrow> fail ErrClosed | Some w \<Rightarrow> with_rlock MuObject (
     if k_closed w then fail ErrClosed
     else if go_len wrapped < 16 \<or> go_len wrapped smod 8 \<noteq> 0 then fail ErrVerification
     else onerr (KeyWrap_run w wrapped False) (\<lambda>e. do { clearErrors; fail ErrVerification }) ok))"

definition KeyWrap_Close :: "keywrap option \<Rightarrow> (keywrap option) go" where
  "KeyWrap_Close w = (case w of None \<Rightarrow> ok None | Some w \<Rightarrow> with_lock MuObject
     (if k_closed w then ok (Some w) else do {
        free HCipher (k_cipher w);
        Zero (k_kek w);
        ok (Some (w\<lparr>k_cipher := NULL, k_kek := [], k_closed := True\<rparr>))
      }))"

section \<open>Ownership\<close>

text \<open>An open cipher holds its \<open>EVP_CIPHER\<close>, a closed one nothing.\<close>

definition cipher_live :: "cipher \<Rightarrow> world \<Rightarrow> bool" where
  "cipher_live x w \<longleftrightarrow> x_cipher x \<noteq> NULL \<longrightarrow> (HCipher, x_cipher x) \<in># owned w"

lemma run_final_spec:
  "ctx = NULL \<or> (HCipherCtx, ctx) \<in># owned w \<Longrightarrow> wp (run_final ctx enc op buf n) (\<lambda>_ w'. keeps w w') w"
  by (auto simp: run_final_def wp_defs keeps_def intro!: vcg)

lemmas wp_run_final [vcg] = wp_mono [OF run_final_spec]

lemma run_update_spec:
  "ctx = NULL \<or> (HCipherCtx, ctx) \<in># owned w \<Longrightarrow> wp (run_update ctx enc op buf xs) (\<lambda>_ w'. keeps w w') w"
  by (auto simp: run_update_def wp_defs keeps_def intro!: vcg)

lemmas wp_run_update [vcg] = wp_mono [OF run_update_spec]

lemma set_padding_spec:
  "ctx = NULL \<or> (HCipherCtx, ctx) \<in># owned w \<Longrightarrow> wp (set_padding x ctx) (\<lambda>_ w'. keeps w w') w"
  by (auto simp: set_padding_def wp_defs keeps_def intro!: vcg)

lemmas wp_set_padding [vcg] = wp_mono [OF set_padding_spec]

lemma Cipher_run_spec:
  "x_cipher x = NULL \<or> (HCipher, x_cipher x) \<in># owned w \<Longrightarrow> wp (Cipher_run x iv xs enc) (\<lambda>_ w'. keeps w w') w"
  by (auto simp: Cipher_run_def run_in_def wp_defs keeps_def intro!: vcg split: sum.splits)

lemmas wp_Cipher_run [vcg] = wp_mono [OF Cipher_run_spec]

lemma NewCipher_spec:
  assumes "\<And>a. c = Some a \<Longrightarrow> ctx_live a w"
  shows "wp (NewCipher c name key opts) (\<lambda>r w'. case r of
      Inl e \<Rightarrow> keeps w w'
    | Inr x \<Rightarrow> gains {#(HCipher, x_cipher x)#} w w' \<and> x_cipher x \<noteq> NULL \<and> x_key x = key \<and> \<not> x_closed x
        \<and> x_padding x \<in> {PaddingPKCS7..PaddingZero} \<and> (x_stream x \<longleftrightarrow> x_blockSz x = 1)) w"
  using assms
  by (auto simp: NewCipher_def buildCipher_def wp_defs eff_defs ctx_live_def Let_def intro!: vcg
      split: option.splits)

lemma NewKeyWrap_spec:
  assumes "\<And>a. c = Some a \<Longrightarrow> ctx_live a w"
  shows "wp (NewKeyWrap c kek padded) (\<lambda>r w'. case r of
      Inl e \<Rightarrow> keeps w w'
    | Inr k \<Rightarrow> gains {#(HCipher, k_cipher k)#} w w' \<and> k_cipher k \<noteq> NULL \<and> k_kek k = kek \<and> \<not> k_closed k
        \<and> k_padded k = padded \<and> go_len kek \<in> {16, 24, 32}) w"
  using assms
  by (auto simp: NewKeyWrap_def wrap_name_def wp_defs eff_defs ctx_live_def Let_def intro!: vcg
      split: option.splits)

text \<open>The methods are neutral on an open resource whose cipher is held, and on a closed one.\<close>

definition cipher_ok :: "cipher \<Rightarrow> world \<Rightarrow> bool" where
  "cipher_ok x w \<longleftrightarrow> x_closed x \<or> x_cipher x = NULL \<or> (HCipher, x_cipher x) \<in># owned w"

lemma checkIV_wp [simp]: "wp (checkIV x iv) Q w =
  (if go_len iv = x_ivLen x then Q (Inr ()) w
   else Q (Inl (Errorf ''ossl: %s needs a %d-byte IV, got %d'' [FStr (x_name x), FInt (x_ivLen x), FInt (go_len iv)])) w)"
  by (simp add: checkIV_def)

lemma Cipher_Encrypt_spec:
  "(\<And>y. x = Some y \<Longrightarrow> cipher_ok y w) \<Longrightarrow> wp (Cipher_Encrypt x dst iv xs) (\<lambda>_ w'. keeps w w') w"
  by (auto simp: Cipher_Encrypt_def Encrypt_body_def wp_defs keeps_def cipher_ok_def intro!: vcg
      split: option.splits sum.splits)

lemma Cipher_Decrypt_spec:
  "(\<And>y. x = Some y \<Longrightarrow> cipher_ok y w) \<Longrightarrow> wp (Cipher_Decrypt x dst iv xs) (\<lambda>_ w'. keeps w w') w"
  by (auto simp: Cipher_Decrypt_def Decrypt_body_def wp_defs keeps_def cipher_ok_def intro!: vcg
      split: option.splits sum.splits)

lemma KeyWrap_run_spec:
  "k_cipher k = NULL \<or> (HCipher, k_cipher k) \<in># owned w \<Longrightarrow> wp (KeyWrap_run k xs enc) (\<lambda>_ w'. keeps w w') w"
  by (auto simp: KeyWrap_run_def wp_defs keeps_def intro!: vcg split: sum.splits)

lemmas wp_KeyWrap_run [vcg] = wp_mono [OF KeyWrap_run_spec]

interpretation cipher: closable Cipher_Close x_closed "\<lambda>x. if x_closed x then {#} else held HCipher (x_cipher x)"
  by unfold_locales
    (auto simp: Cipher_Close_def wp_defs eff_defs now_owns_def held_def intro!: vcg split: if_splits)

interpretation keywrap: closable KeyWrap_Close k_closed "\<lambda>x. if k_closed x then {#} else held HCipher (k_cipher x)"
  by unfold_locales
    (auto simp: KeyWrap_Close_def wp_defs eff_defs now_owns_def held_def intro!: vcg split: if_splits)

section \<open>What the library computes\<close>

text \<open>
  EVP_EncryptInit(3): a context initialised with a key and an IV, told about padding, turns the
  input of one Update and Final into the output \<open>f key iv input\<close>, split between the two calls.
  \<open>f\<close> is any function: the cipher itself is a parameter.
\<close>

definition ev :: "(event list \<Rightarrow> ccall \<Rightarrow> cret) \<Rightarrow> event list \<Rightarrow> ccall \<Rightarrow> event list" where
  "ev L h c = (c, L h c) # h"

definition init_call :: "bool \<Rightarrow> ptr \<Rightarrow> ptr \<Rightarrow> byte list \<Rightarrow> byte list \<Rightarrow> ccall" where
  "init_call e ctx ci key iv = Do (evp e ''Init_ex2'') [(HCipherCtx, ctx), (HCipher, ci)]
     [ABytes key, if iv = [] then ANull else ABytes iv, ANull]"

definition pad_call :: "ptr \<Rightarrow> int \<Rightarrow> ccall" where
  "pad_call ctx p = Do ''EVP_CIPHER_CTX_set_padding'' [(HCipherCtx, ctx)] [AInt p]"

definition update_call :: "bool \<Rightarrow> ptr \<Rightarrow> int \<Rightarrow> byte list \<Rightarrow> ccall" where
  "update_call e ctx n xs = Do (evp e ''Update'') [(HCipherCtx, ctx)]
     [AOut n, ABytes xs, AInt (c_int (go_len xs))]"

definition final_call :: "bool \<Rightarrow> ptr \<Rightarrow> int \<Rightarrow> ccall" where
  "final_call e ctx n = Do (evp e ''Final_ex'') [(HCipherCtx, ctx)] [AOut n]"

text \<open>The history once the context is set up; \<open>pads\<close> is the padding flag set, if any.\<close>

definition set_up :: "(event list \<Rightarrow> ccall \<Rightarrow> cret) \<Rightarrow> event list \<Rightarrow> bool \<Rightarrow> ptr \<Rightarrow> ptr \<Rightarrow> byte list \<Rightarrow> byte list
    \<Rightarrow> int option \<Rightarrow> event list" where
  "set_up L h e ctx ci key iv pads = (case pads of
     None \<Rightarrow> ev L h (init_call e ctx ci key iv)
   | Some p \<Rightarrow> ev L (ev L h (init_call e ctx ci key iv)) (pad_call ctx p))"

definition wrote :: "cret \<Rightarrow> byte list \<Rightarrow> bool" where
  "wrote r out \<longleftrightarrow> rc r = 1 \<and> rbuf r = out \<and> rlen r = go_len out"

definition transforms :: "(event list \<Rightarrow> ccall \<Rightarrow> cret) \<Rightarrow> bool \<Rightarrow> int option
    \<Rightarrow> (byte list \<Rightarrow> byte list \<Rightarrow> byte list \<Rightarrow> byte list) \<Rightarrow> bool" where
  "transforms L e pads f \<longleftrightarrow> (\<forall>h ctx ci key iv xs n m.
     rc (L h (init_call e ctx ci key iv)) = 1
     \<and> rc (L (ev L h (init_call e ctx ci key iv)) (pad_call ctx (case pads of None \<Rightarrow> 0 | Some p \<Rightarrow> p))) = 1
     \<and> (let h' = set_up L h e ctx ci key iv pads in
         (xs \<noteq> [] \<longrightarrow> (\<exists>o1 o2. f key iv xs = o1 @ o2
            \<and> wrote (L h' (update_call e ctx n xs)) o1
            \<and> wrote (L (ev L h' (update_call e ctx n xs)) (final_call e ctx m)) o2))
         \<and> wrote (L h' (final_call e ctx m)) (f key iv [])))"

text \<open>Allocations succeed.\<close>

definition allocates :: "(event list \<Rightarrow> ccall \<Rightarrow> cret) \<Rightarrow> bool" where
  "allocates L \<longleftrightarrow> (\<forall>h k f hs as. rptr (L h (New k f hs as)) \<noteq> NULL)"

lemma write_at_0: "go_len xs \<le> go_len buf \<Longrightarrow> write_at buf 0 xs = xs @ drop (length xs) buf"
  by (simp add: write_at_def go_len_def)

lemma take_write_two:
  assumes "go_len xs + go_len ys \<le> go_len buf"
  shows "take (nat (go_len xs + go_len ys)) (write_at (write_at buf 0 xs) (go_len xs) ys) = xs @ ys"
  using assms by (auto simp: write_at_def go_len_def nat_add_distrib min_def)

definition pads_of :: "cipher \<Rightarrow> int option" where
  "pads_of x = (if x_stream x then None else Some (if x_padding x \<noteq> PaddingPKCS7 then 0 else 1))"

lemma run_clearErrors: "run_state clearErrors w = ((), push ERR_clear_error (lib w (hist w) ERR_clear_error) w)"
  by (simp add: clearErrors_def exec_simps)

lemma run_final_value:
  assumes "wrote (lib w (hist w) (final_call e ctx (go_len buf - n))) ys"
    and "0 \<le> n" "n < go_len buf" "n + go_len ys \<le> go_len buf"
  shows "wp (run_final ctx e op buf n)
    (\<lambda>r w'. r = Inr (take (nat (n + go_len ys)) (write_at buf n ys)) \<and> lib w' = lib w) w"
proof -
  have "length (write_at buf n ys) = length buf"
    using assms(2,3) by (intro length_write_at) (auto simp: go_len_def)
  then show ?thesis
    using assms by (simp add: run_final_def wp_call_eq guard_defs wrote_def final_call_def go_len_def)
qed

lemma run_update_value:
  assumes "wrote (lib w (hist w) (update_call e ctx (go_len buf) xs)) o1"
    and "wrote (lib w (ev (lib w) (hist w) (update_call e ctx (go_len buf) xs))
      (final_call e ctx (go_len buf - go_len o1))) o2"
    and "go_len o1 < go_len buf" "go_len o1 + go_len o2 \<le> go_len buf"
  shows "wp (run_update ctx e op buf xs) (\<lambda>r w'. r = Inr (o1 @ o2) \<and> lib w' = lib w) w"
proof -
  let ?c = "update_call e ctx (go_len buf) xs"
  let ?w = "push ?c (lib w (hist w) ?c) w"
  have len: "go_len (write_at buf 0 o1) = go_len buf" by (simp add: go_len_def)
  have "wp (run_final ctx e op (write_at buf 0 o1) (go_len o1)) (\<lambda>r w'. r = Inr (o1 @ o2) \<and> lib w' = lib ?w) ?w"
    by (rule wp_mono [OF run_final_value [where ys = o2]])
      (use assms len in \<open>auto simp: ev_def take_write_two\<close>)
  then show ?thesis
    using assms(1) by (simp add: run_update_def wp_call_eq wrote_def update_call_def)
qed

lemma transformsD:
  assumes "transforms L e pads f"
  shows "rc (L h (init_call e ctx ci key iv)) = 1"
    and "pads = Some p \<Longrightarrow> rc (L (ev L h (init_call e ctx ci key iv)) (pad_call ctx p)) = 1"
    and "wrote (L (set_up L h e ctx ci key iv pads) (final_call e ctx m)) (f key iv [])"
    and "xs \<noteq> [] \<Longrightarrow> \<exists>o1 o2. f key iv xs = o1 @ o2
      \<and> wrote (L (set_up L h e ctx ci key iv pads) (update_call e ctx n xs)) o1
      \<and> wrote (L (ev L (set_up L h e ctx ci key iv pads) (update_call e ctx n xs)) (final_call e ctx m)) o2"
  using assms unfolding transforms_def Let_def by (blast, force, blast, blast)

text \<open>The room left for Final depends on what Update wrote.\<close>

lemma transforms_split:
  assumes "transforms L e pads f" "xs \<noteq> []"
  shows "\<exists>o1 o2. f key iv xs = o1 @ o2
      \<and> wrote (L (set_up L h e ctx ci key iv pads) (update_call e ctx n xs)) o1
      \<and> wrote (L (ev L (set_up L h e ctx ci key iv pads) (update_call e ctx n xs)) (final_call e ctx (n - go_len o1))) o2"
proof -
  obtain o1 o2 where o1: "wrote (L (set_up L h e ctx ci key iv pads) (update_call e ctx n xs)) o1"
    using transformsD(4) [OF assms] by blast
  from transformsD(4) [OF assms, of key iv h ctx ci n "n - go_len o1"] o1 show ?thesis
    by (auto simp: wrote_def)
qed

lemma run_data_value:
  assumes L: "transforms (lib w) e pads f" "hist w = set_up (lib w) h e ctx ci key iv pads"
    and len: "go_len (f key iv xs) < go_len buf"
  shows "wp (if xs \<noteq> [] then addr0 buf (run_update ctx e op buf xs) else run_final ctx e op buf 0)
    (\<lambda>r w'. r = Inr (f key iv xs) \<and> lib w' = lib w) w"
proof (cases "xs = []")
  case True
  have "wp (run_final ctx e op buf 0) (\<lambda>r w'. r = Inr (f key iv []) \<and> lib w' = lib w) w"
    by (rule wp_mono [OF run_final_value [where ys = "f key iv []"]])
      (use transformsD(3) [OF L(1)] L(2) len True le_less_trans [OF go_len_nonneg len]
        in \<open>auto simp: write_at_0 nat_eq_iff go_len_def\<close>)
  with True show ?thesis by simp
next
  case False
  obtain o1 o2 where o: "f key iv xs = o1 @ o2"
      "wrote (lib w (hist w) (update_call e ctx (go_len buf) xs)) o1"
      "wrote (lib w (ev (lib w) (hist w) (update_call e ctx (go_len buf) xs)) (final_call e ctx (go_len buf - go_len o1))) o2"
    using transforms_split [OF L(1) False] unfolding L(2) by blast
  have b: "go_len o1 < go_len buf" "go_len o1 + go_len o2 \<le> go_len buf" "buf \<noteq> []"
    using len o(1) go_len_nonneg [of o1] go_len_nonneg [of o2] go_len_pos [of buf]
    by (simp_all del: go_len_pos, linarith+)
  show ?thesis
    using False b(3) run_update_value [OF o(2,3) b(1,2)] by (simp add: addr0_def o(1))
qed

lemma set_padding_value:
  assumes "transforms (lib w) e (pads_of x) f" "hist w = ev (lib w) h (init_call e ctx ci key iv)"
  shows "wp (set_padding x ctx) (\<lambda>r w'. r = Inr () \<and> lib w' = lib w
    \<and> hist w' = set_up (lib w) h e ctx ci key iv (pads_of x)) w"
  using transformsD(2) [OF assms(1)] assms(2)
  by (auto simp: set_padding_def wp_call_eq pads_of_def set_up_def pad_call_def ev_def split: if_splits)

text \<open>\<open>run\<close> returns what the library computes, whatever the buffer held.\<close>

lemma run_in_value:
  assumes L: "transforms (lib w) e (pads_of x) f"
    and key: "x_key x \<noteq> []" "0 < x_blockSz x"
    and len: "go_len (f (x_key x) iv xs) \<le> go_len xs + x_blockSz x"
  shows "wp (run_in ctx x iv xs e) (\<lambda>r w'. r = Inr (f (x_key x) iv xs) \<and> lib w' = lib w) w"
proof -
  let ?c = "init_call e ctx (x_cipher x) (x_key x) iv"
  let ?w = "push ?c (lib w (hist w) ?c) w"
  have w: "hist ?w = ev (lib ?w) (hist w) ?c" by (simp add: ev_def)
  have "wp (must (set_padding x ctx) (\<lambda>_.
       make_bytes (go_len xs + x_blockSz x + EVP_MAX_BLOCK_LENGTH) (\<lambda>buf.
         if xs \<noteq> [] then addr0 buf (run_update ctx e ''cipher'' buf xs)
         else run_final ctx e ''cipher'' buf 0))) (\<lambda>r w'. r = Inr (f (x_key x) iv xs) \<and> lib w' = lib w) ?w"
    unfolding wp_must make_bytes_def
  proof (rule wp_mono [OF set_padding_value [OF _ w, where f = f]], goal_cases)
    case 1
    show ?case using L by simp
  next
    case (2 r w')
    then have r: "r = Inr ()" "lib w' = lib w"
        "hist w' = set_up (lib w') (hist w) e ctx (x_cipher x) (x_key x) iv (pads_of x)" by auto
    have n: "(go_len xs + x_blockSz x + EVP_MAX_BLOCK_LENGTH < 0) = False"
        "go_len (f (x_key x) iv xs) < go_len (replicate (nat (go_len xs + x_blockSz x + EVP_MAX_BLOCK_LENGTH)) (0::byte))"
      using key(2) len go_len_nonneg [of xs] by (auto simp: evp_defs simp del: go_len_nonneg)
    show ?case
      unfolding r(1) sum.case n(1) if_False
      by (rule wp_mono [OF run_data_value [where f = f and xs = xs and key = "x_key x" and iv = iv, OF _ r(3) n(2)]]) (use L r in auto)
  qed
  then show ?thesis
    using key transformsD(1) [OF L, of "hist w" ctx "x_cipher x" "x_key x" iv]
    by (simp add: run_in_def wp_call_eq addr0_def init_call_def)
qed

lemma Cipher_run_value:
  assumes L: "transforms (lib w) e (pads_of x) f" "allocates (lib w)"
    and key: "x_key x \<noteq> []" "0 < x_blockSz x"
    and len: "go_len (f (x_key x) iv xs) \<le> go_len xs + x_blockSz x"
  shows "wp (Cipher_run x iv xs e) (\<lambda>r w'. r = Inr (f (x_key x) iv xs) \<and> lib w' = lib w) w"
proof -
  have a: "(rptr (lib w h (New k g hs as)) = NULL) = False" for h k g hs as
    using L(2) by (simp add: allocates_def)
  show ?thesis
    unfolding Cipher_run_def clearErrors_def
    by (auto simp: wp_call_eq a simp del: neq0_conv intro!: wp_mono [OF run_in_value] key len L(1))
qed

section \<open>Properties\<close>

text \<open>A cipher that inverts under the padding the object asks the library for.\<close>

definition inverts :: "cipher \<Rightarrow> (byte list \<Rightarrow> byte list \<Rightarrow> byte list \<Rightarrow> byte list)
    \<Rightarrow> (byte list \<Rightarrow> byte list \<Rightarrow> byte list \<Rightarrow> byte list) \<Rightarrow> bool" where
  "inverts x E D \<longleftrightarrow> (\<forall>k iv xs.
     (x_stream x \<or> x_padding x = PaddingPKCS7 \<or> go_len xs mod x_blockSz x = 0 \<longrightarrow>
        D k iv (E k iv xs) = xs \<and> (\<not> x_stream x \<longrightarrow> go_len (E k iv xs) mod x_blockSz x = 0))
     \<and> go_len (E k iv xs) \<le> go_len xs + x_blockSz x \<and> go_len (D k iv xs) \<le> go_len xs + x_blockSz x)"

definition cipher_wf :: "cipher \<Rightarrow> bool" where
  "cipher_wf x \<longleftrightarrow> \<not> x_closed x \<and> x_key x \<noteq> [] \<and> 0 < x_blockSz x \<and> x_blockSz x < 256
     \<and> (x_stream x \<longleftrightarrow> x_blockSz x = 1)"

definition reversible :: "cipher \<Rightarrow> byte list \<Rightarrow> bool" where
  "reversible x pt \<longleftrightarrow> x_stream x \<or> x_padding x \<in> {PaddingPKCS7, PaddingISO7816, PaddingX923}
     \<or> x_padding x = PaddingNone \<and> go_len pt mod x_blockSz x = 0"

text \<open>What \<open>Encrypt\<close> hands to the library, and that \<open>Decrypt\<close> can undo it.\<close>

lemma padded_ok:
  assumes "cipher_wf x" "reversible x pt"
  shows "\<exists>xs. (if \<not> x_stream x \<and> x_padding x \<noteq> PaddingPKCS7
        then applyPadding (x_padding x) pt (x_blockSz x) else Inr pt) = Inr xs
    \<and> (x_stream x \<or> x_padding x = PaddingPKCS7 \<or> go_len xs mod x_blockSz x = 0)
    \<and> (if \<not> x_stream x \<and> x_padding x \<noteq> PaddingPKCS7
        then removePadding (x_padding x) xs (x_blockSz x) else Inr xs) = Inr pt"
proof (cases "x_stream x \<or> x_padding x = PaddingPKCS7")
  case False
  have b: "0 < x_blockSz x" "0 < x_blockSz x \<and> x_blockSz x < 256" using assms(1) by (auto simp: cipher_wf_def)
  from False assms(2) consider "x_padding x = PaddingISO7816" | "x_padding x = PaddingX923"
    | "x_padding x = PaddingNone" "go_len pt mod x_blockSz x = 0"
    by (auto simp: reversible_def)
  then show ?thesis
  proof cases
    case 1
    with False show ?thesis using iso.roundtrip [OF b(1), of pt] iso.pad_length [OF b(1), of pt] by auto
  next
    case 2
    with False show ?thesis using x923.roundtrip [OF b(2), of pt] x923.pad_length [OF b(2), of pt] by auto
  next
    case 3
    with False show ?thesis by (auto simp: applyPadding_def removePadding_def scheme_defs)
  qed
qed auto

lemma lib_lock: "wp (with_rlock mu m) (\<lambda>r w'. P r \<and> lib w' = L) w"
  if "\<And>w1. lib w1 = lib w \<Longrightarrow> wp m (\<lambda>r w'. P r \<and> lib w' = L) w1"
  using that by (auto simp: with_rlock_def intro!: wp_call wp_mono [OF that])


text \<open>The identity, as a library cipher: Update hands its input back, Final adds nothing.\<close>

fun lib_id :: "event list \<Rightarrow> ccall \<Rightarrow> cret" where
  "lib_id h (Do f hs [AOut n, ABytes xs, AInt m]) = (yes h)\<lparr>rbuf := xs, rlen := go_len xs\<rparr>"
| "lib_id h c = yes h"

lemma lib_id_transforms: "transforms lib_id e pads (\<lambda>_ _ xs. xs)"
  by (auto simp: transforms_def wrote_def init_call_def pad_call_def update_call_def final_call_def
      yes_def Let_def)

lemma lib_id_allocates: "allocates lib_id"
  by (simp add: allocates_def yes_def)

definition cipher_x923 :: cipher where
  "cipher_x923 = \<lparr>x_cipher = 9, x_key = [1, 2], x_name = ''ID'', x_ivLen = 0, x_blockSz = 4,
     x_padding = PaddingX923, x_stream = False, x_closed = False\<rparr>"


text \<open>
  C17: an open cipher given an IV of the right length fails to decrypt in one way only, whatever
  the library did: every error value is \<open>ErrVerification\<close>, without the library's detail, so
  the error distinguishes neither bad padding nor a failing call.
\<close>

theorem Decrypt_uniform:
  assumes "\<not> x_closed x" "go_len iv = x_ivLen x"
  shows "wp (Cipher_Decrypt (Some x) dst iv ct) (\<lambda>r w'. case r of
      Inl e \<Rightarrow> e = ErrVerification \<or> is_panic e
    | Inr out \<Rightarrow> take (length dst) out = dst) w"
  using assms
  by (auto simp: Cipher_Decrypt_def Decrypt_body_def with_rlock_def go_rem_def removePadding_def Let_def
      intro!: wp_call wp_clearErrors wp_mono [OF wp_True [of "Cipher_run _ _ _ _"]] split: sum.splits)

lemma Decrypt_uniform_witness:
  "wp (Cipher_Decrypt (Some cipher_x923) [] [] [1, 2, 3, 9]) (\<lambda>r w'. case r of
      Inl e \<Rightarrow> e = ErrVerification \<or> is_panic e
    | Inr out \<Rightarrow> take (length ([] :: byte list)) out = []) (world_of lib_id [(HCipher, 9)])"
  by (rule Decrypt_uniform) (simp_all add: cipher_x923_def)

text \<open>A whole life of a cipher object, closed twice.\<close>

definition cipher_session :: "cref option \<Rightarrow> string \<Rightarrow> byte list \<Rightarrow> (cipherConfig \<Rightarrow> cipherConfig) list
    \<Rightarrow> byte list \<Rightarrow> byte list \<Rightarrow> byte list \<Rightarrow> (cipher option) go" where
  "cipher_session c name key opts iv pt ct = must (NewCipher c name key opts) (\<lambda>x. do {
     Cipher_Encrypt (Some x) [] iv pt;
     Cipher_Decrypt (Some x) [] iv ct;
     must (Cipher_Close (Some x)) Cipher_Close
   })"

text \<open>
  A cipher made, used to encrypt and decrypt and closed leaves the references of the
  process as they were, whatever the library answers and whichever calls fail, and no call
  uses a reference that is not held.
\<close>

theorem Cipher_lifecycle:
  assumes "ctx_live a w"
  shows "wp (cipher_session (Some a) name key opts iv pt ct) (\<lambda>r w'. now_owns (owned w) w w') w"
  unfolding cipher_session_def wp_must
proof (rule wp_mono [OF NewCipher_spec], use assms in simp, goal_cases)
  case (1 r w1)
  show ?case
  proof (cases r)
    case (Inl e)
    with 1 show ?thesis by (simp add: keeps_now_owns)
  next
    case (Inr x)
    with 1 have x: "gains {#(HCipher, x_cipher x)#} w w1" "x_cipher x \<noteq> NULL" "\<not> x_closed x" by auto
    have okx: "cipher_ok x w2" if "keeps w1 w2" for w2
      using x that by (auto simp: cipher_ok_def gains_def keeps_def)
    have refs: "gains (if x_closed x then {#} else held HCipher (x_cipher x)) w w1" using x by simp
    show ?thesis
      unfolding Inr sum.case wp_bind
    proof (rule wp_mono [OF Cipher_Encrypt_spec], use okx in simp)
      fix w2 assume e: "keeps w1 w2"
      show "wp (Cipher_Decrypt (Some x) [] iv ct)
          (\<lambda>_. wp (must (Cipher_Close (Some x)) Cipher_Close) (\<lambda>r w'. now_owns (owned w) w w')) w2"
        by (rule wp_mono [OF Cipher_Decrypt_spec])
          (use okx [OF e] in \<open>auto intro: cipher.close_session [OF x(3) refs keeps_trans [OF e]] simp del: wp_must\<close>)
    qed
  qed
qed

lemma Cipher_lifecycle_witness:
  "wp (cipher_session (Some Default) ''AES-256-CBC'' [] [] [] [] [])
    (\<lambda>r w'. now_owns (owned (world_of lib_yes [])) (world_of lib_yes []) w') (world_of lib_yes [])"
  by (rule Cipher_lifecycle) (simp add: ctx_live_def)

end
