(* ===== verification/Aead.thy ===== *)
theory Aead
  imports Cipher_Sym
begin

text \<open>
  cipher.go: authenticated ciphers. CCM is initialised in two calls, sizes first; the other
  modes in one. \<open>Open\<close> returns plaintext only past the tag check in \<open>EVP_DecryptFinal_ex\<close>.
\<close>

record aead =
  a_cipher :: ptr
  a_key :: "byte list"
  a_name :: string
  a_nonce :: int
  a_tag :: int
  a_ccm :: bool
  a_closed :: bool

record aeadConfig =
  ac_ivLen :: int
  ac_tagLen :: int

definition WithIVSize :: "int \<Rightarrow> aeadConfig \<Rightarrow> aeadConfig" where
  "WithIVSize n c = c\<lparr>ac_ivLen := n\<rparr>"

definition WithTagSize :: "int \<Rightarrow> aeadConfig \<Rightarrow> aeadConfig" where
  "WithTagSize n c = c\<lparr>ac_tagLen := n\<rparr>"

definition validateAEADSizes :: "string \<Rightarrow> bool \<Rightarrow> aeadConfig \<Rightarrow> err option" where
  "validateAEADSizes name ccm cfg =
     (if ccm then
        (if ac_ivLen cfg < 7 \<or> ac_ivLen cfg > 13
         then Some (Errorf ''ossl: %s nonce must be 7-13 bytes per NIST SP 800-38C, got %d'' [FStr name, FInt (ac_ivLen cfg)])
         else if ac_tagLen cfg < 4 \<or> ac_tagLen cfg > 16 \<or> ac_tagLen cfg smod 2 \<noteq> 0
         then Some (Errorf ''ossl: %s tag must be an even 4-16 bytes per NIST SP 800-38C, got %d'' [FStr name, FInt (ac_tagLen cfg)])
         else None)
      else if ac_ivLen cfg < 1
      then Some (Errorf ''ossl: %s nonce must be at least 1 byte, got %d'' [FStr name, FInt (ac_ivLen cfg)])
      else if ac_tagLen cfg < 12 \<or> ac_tagLen cfg > 16
      then Some (Errorf ''ossl: %s tag must be 12-16 bytes, got %d'' [FStr name, FInt (ac_tagLen cfg)])
      else None)"

definition buildAEAD :: "ptr \<Rightarrow> string \<Rightarrow> byte list \<Rightarrow> (aeadConfig \<Rightarrow> aeadConfig) list \<Rightarrow> aead go" where
  "buildAEAD ci name key opts = do {
     want \<leftarrow> get_int ''EVP_CIPHER_get_key_length'' (HCipher, ci);
     if go_len key \<noteq> want then do {
       free HCipher ci;
       fail (Errorf ''ossl: %s needs a %d-byte key, got %d'' [FStr name, FInt want, FInt (go_len key)])
     } else do {
       mode \<leftarrow> get_int ''EVP_CIPHER_get_mode'' (HCipher, ci);
       isAead \<leftarrow> (if mode \<in> {EVP_CIPH_GCM_MODE, EVP_CIPH_OCB_MODE, EVP_CIPH_CCM_MODE} then ret True
         else do { flags \<leftarrow> get_flags (HCipher, ci); ret (flags AND EVP_CIPH_FLAG_AEAD_CIPHER \<noteq> 0) });
       if \<not> isAead then do {
         free HCipher ci;
         fail (Errorf ''ossl: %s is not an AEAD cipher'' [FStr name])
       } else do {
         ivl \<leftarrow> get_int ''EVP_CIPHER_get_iv_length'' (HCipher, ci);
         let cfg = fold (\<lambda>f. f) opts \<lparr>ac_ivLen = ivl, ac_tagLen = 16\<rparr>;
         case validateAEADSizes name (mode = EVP_CIPH_CCM_MODE) cfg of
           Some e \<Rightarrow> do { free HCipher ci; fail e }
         | None \<Rightarrow> ok \<lparr>a_cipher = ci, a_key = key, a_name = name, a_nonce = ac_ivLen cfg, a_tag = ac_tagLen cfg,
             a_ccm = (mode = EVP_CIPH_CCM_MODE), a_closed = False\<rparr>
       }
     }
   }"

definition NewAEAD :: "cref option \<Rightarrow> string \<Rightarrow> byte list \<Rightarrow> (aeadConfig \<Rightarrow> aeadConfig) list \<Rightarrow> aead go" where
  "NewAEAD c name key opts = (case c of None \<Rightarrow> fail ErrClosed | Some a \<Rightarrow> do {
     clearErrors;
     with_cstr name (\<lambda>cname. do {
       cp \<leftarrow> Context_ptr a;
       ci \<leftarrow> new HCipher ''EVP_CIPHER_fetch'' [(HLibCtx, cp)] [cname, ANull];
       if ci = NULL then failE (''EVP_CIPHER_fetch('' @ name @ '')'')
       else buildAEAD ci name key opts
     })
   })"

definition NonceSize :: "aead option \<Rightarrow> int" where
  "NonceSize a = (case a of None \<Rightarrow> 0 | Some a \<Rightarrow> a_nonce a)"

definition Overhead :: "aead option \<Rightarrow> int" where
  "Overhead a = (case a of None \<Rightarrow> 0 | Some a \<Rightarrow> a_tag a)"

definition AEAD_Name :: "aead option \<Rightarrow> string" where
  "AEAD_Name a = (case a of None \<Rightarrow> [] | Some a \<Rightarrow> a_name a)"

section \<open>Initialisation\<close>

text \<open>The key and nonce of a call, whose first bytes are addressed.\<close>

definition init_keyed :: "bool \<Rightarrow> string \<Rightarrow> handle list \<Rightarrow> aead \<Rightarrow> byte list \<Rightarrow> carg \<Rightarrow> unit go" where
  "init_keyed enc op hs a nonce ps = do {
     r \<leftarrow> call (Do (evp enc ''Init_ex2'') hs [ABytes (a_key a), ABytes nonce, ps]);
     if rc r \<noteq> 1 then failE op else ok ()
   }"

text \<open>
  \<open>initEncrypt\<close> and \<open>initDecrypt\<close> differ in the parameter that carries the tag: its length
  declared with no data (CCM) or as \<open>taglen\<close>, or the tag itself.
\<close>

definition init_with :: "bool \<Rightarrow> ptr \<Rightarrow> aead \<Rightarrow> byte list \<Rightarrow> unit pstep \<Rightarrow> unit go" where
  "init_with enc ctx a nonce tagParam =
     with_chain [SizeT pKeyIVLen (a_nonce a), tagParam] (\<lambda>p.
       if a_ccm a then use_c p (\<lambda>ps. do {
         r \<leftarrow> call (Do (evp enc ''Init_ex2'') [(HCipherCtx, ctx), (HCipher, a_cipher a)] [ANull, ANull, AParams ps]);
         if rc r \<noteq> 1 then failE (evp enc ''Init_ex2(sizes)'')
         else addr0 (a_key a) (addr0 nonce
           (init_keyed enc (evp enc ''Init_ex2(key+iv)'') [(HCipherCtx, ctx)] a nonce ANull))
       })
       else addr0 (a_key a) (addr0 nonce (use_c p (\<lambda>ps.
         init_keyed enc (evp enc ''Init_ex2'') [(HCipherCtx, ctx), (HCipher, a_cipher a)] a nonce (AParams ps)))))"

definition initEncrypt :: "ptr \<Rightarrow> aead \<Rightarrow> byte list \<Rightarrow> unit go" where
  "initEncrypt ctx a nonce = init_with True ctx a nonce
     (if a_ccm a then OctetsNilData pKeyAEADTag (a_tag a) else SizeT pKeyAEADTagLen (a_tag a))"

definition initDecrypt :: "ptr \<Rightarrow> aead \<Rightarrow> byte list \<Rightarrow> byte list \<Rightarrow> unit go" where
  "initDecrypt ctx a nonce tag = init_with False ctx a nonce (Octets pKeyAEADTag tag)"

section \<open>Seal\<close>

text \<open>An Update with a NULL output pointer: CCM's length hint, or associated data.\<close>

definition declare_update :: "bool \<Rightarrow> ptr \<Rightarrow> carg list \<Rightarrow> (world, bool) state" where
  "declare_update enc ctx as = do {
     r \<leftarrow> call (Do (evp enc ''Update'') [(HCipherCtx, ctx)] (ANull # as));
     ret (rc r = 1)
   }"

definition seal_headers :: "ptr \<Rightarrow> aead \<Rightarrow> byte list \<Rightarrow> byte list \<Rightarrow> unit go" where
  "seal_headers ctx a plaintext aad = must
     (if a_ccm a then do {
        y \<leftarrow> declare_update True ctx [ANull, AInt (c_int (go_len plaintext))];
        if \<not> y then failE ''EVP_EncryptUpdate(length hint)'' else ok ()
      } else ok ())
     (\<lambda>_. if aad \<noteq> [] then do {
        y \<leftarrow> declare_update True ctx [ABytes aad, AInt (c_int (go_len aad))];
        if \<not> y then failE ''EVP_EncryptUpdate(aad)'' else ok ()
      } else ok ())"

text \<open>The data call; CCM makes it even for nothing. It yields the buffer and how much of it is output.\<close>

definition seal_data :: "ptr \<Rightarrow> aead \<Rightarrow> byte list \<Rightarrow> byte list \<Rightarrow> (byte list \<times> int) go" where
  "seal_data ctx a plaintext buf =
     (if plaintext \<noteq> [] then addr0 buf (do {
        r \<leftarrow> call (Do ''EVP_EncryptUpdate'' [(HCipherCtx, ctx)]
          [AOut (go_len buf), ABytes plaintext, AInt (c_int (go_len plaintext))]);
        if rc r \<noteq> 1 then failE ''EVP_EncryptUpdate'' else ok (write_at buf 0 (rbuf r), rlen r)
      })
      else if a_ccm a then addr0 buf (do {
        r \<leftarrow> call (Do ''EVP_EncryptUpdate'' [(HCipherCtx, ctx)] [AOut (go_len buf), ABytes [], AInt 0]);
        if rc r \<noteq> 1 then failE ''EVP_EncryptUpdate(empty)'' else ok (write_at buf 0 (rbuf r), 0)
      })
      else ok (buf, 0))"

definition OctetsOut_step :: "string \<Rightarrow> int \<Rightarrow> unit pstep" where
  "OctetsOut_step key n = p_then (OctetsOut key n) (\<lambda>_ p. ret (p, Inr ()))"

text \<open>The tag only exists after Final.\<close>

definition read_tag :: "ptr \<Rightarrow> int \<Rightarrow> (byte list) go" where
  "read_tag ctx n = with_params [OctetsOut_step pKeyAEADTag n] (\<lambda>ps. do {
     g \<leftarrow> call (Do ''EVP_CIPHER_CTX_get_params'' [(HCipherCtx, ctx)] [AParams ps]);
     if rc g \<noteq> 1 then failE ''EVP_CIPHER_CTX_get_params(tag)'' else ok (readOut (rbuf g) n)
   })"

definition seal_finish :: "ptr \<Rightarrow> aead \<Rightarrow> byte list \<Rightarrow> byte list \<Rightarrow> int \<Rightarrow> (byte list) go" where
  "seal_finish ctx a dst buf tot = addr_at buf tot (do {
     r \<leftarrow> call (Do ''EVP_EncryptFinal_ex'' [(HCipherCtx, ctx)] [AOut (go_len buf - tot)]);
     if rc r \<noteq> 1 then failE ''EVP_EncryptFinal_ex''
     else must (read_tag ctx (a_tag a)) (\<lambda>tag.
       slice_to (write_at buf tot (rbuf r)) (tot + rlen r) (\<lambda>ct. ok (dst @ ct @ tag)))
   })"

definition seal_in :: "ptr \<Rightarrow> aead \<Rightarrow> byte list \<Rightarrow> byte list \<Rightarrow> byte list \<Rightarrow> byte list \<Rightarrow> (byte list) go" where
  "seal_in ctx a dst nonce plaintext aad =
     must (initEncrypt ctx a nonce) (\<lambda>_.
     must (seal_headers ctx a plaintext aad) (\<lambda>_.
     make_bytes (go_len plaintext + EVP_MAX_BLOCK_LENGTH) (\<lambda>buf.
     must (seal_data ctx a plaintext buf) (\<lambda>(buf, tot). seal_finish ctx a dst buf tot))))"

definition SealErr :: "aead option \<Rightarrow> byte list \<Rightarrow> byte list \<Rightarrow> byte list \<Rightarrow> byte list \<Rightarrow> (byte list) go" where
  "SealErr a dst nonce plaintext aad = (case a of None \<Rightarrow> fail ErrClosed | Some a \<Rightarrow> with_rlock MuObject (
     if a_closed a then fail ErrClosed
     else if go_len nonce \<noteq> a_nonce a
     then fail (Errorf ''ossl: nonce must be %d bytes, got %d'' [FInt (a_nonce a), FInt (go_len nonce)])
     else do {
       clearErrors;
       ctx \<leftarrow> new HCipherCtx ''EVP_CIPHER_CTX_new'' [] [];
       if ctx = NULL then failE ''EVP_CIPHER_CTX_new''
       else deferring (free HCipherCtx ctx) (seal_in ctx a dst nonce plaintext aad)
     }))"

text \<open>\<open>Seal\<close> has no error return: it panics with the error.\<close>

definition Seal :: "aead option \<Rightarrow> byte list \<Rightarrow> byte list \<Rightarrow> byte list \<Rightarrow> byte list \<Rightarrow> (byte list) go" where
  "Seal a dst nonce plaintext aad =
     onerr (SealErr a dst nonce plaintext aad) (\<lambda>e. fail (Panic (err_text e))) ok"

section \<open>Open\<close>

definition open_headers :: "ptr \<Rightarrow> aead \<Rightarrow> byte list \<Rightarrow> byte list \<Rightarrow> unit go" where
  "open_headers ctx a body aad = must
     (if a_ccm a then do {
        y \<leftarrow> declare_update False ctx [ANull, AInt (c_int (go_len body))];
        if \<not> y then do { clearErrors; fail ErrVerification } else ok ()
      } else ok ())
     (\<lambda>_. if aad \<noteq> [] then do {
        y \<leftarrow> declare_update False ctx [ABytes aad, AInt (c_int (go_len aad))];
        if \<not> y then (if a_ccm a then do { clearErrors; fail ErrVerification }
          else failE ''EVP_DecryptUpdate(aad)'') else ok ()
      } else ok ())"

definition open_data :: "ptr \<Rightarrow> aead \<Rightarrow> byte list \<Rightarrow> byte list \<Rightarrow> (byte list \<times> int) go" where
  "open_data ctx a body buf =
     (if body \<noteq> [] then addr0 buf (do {
        r \<leftarrow> call (Do ''EVP_DecryptUpdate'' [(HCipherCtx, ctx)]
          [AOut (go_len buf), ABytes body, AInt (c_int (go_len body))]);
        if rc r \<noteq> 1 then do {
          Zero (write_at buf 0 (rbuf r));
          clearErrors;
          if a_ccm a then fail ErrVerification else failE ''EVP_DecryptUpdate''
        } else ok (write_at buf 0 (rbuf r), rlen r)
      })
      else if a_ccm a then addr0 buf (do {
        r \<leftarrow> call (Do ''EVP_DecryptUpdate'' [(HCipherCtx, ctx)] [AOut (go_len buf), ABytes [], AInt 0]);
        if rc r \<noteq> 1 then do { Zero (write_at buf 0 (rbuf r)); clearErrors; fail ErrVerification }
        else ok (write_at buf 0 (rbuf r), 0)
      })
      else ok (buf, 0))"

text \<open>The return value of Final is the authentication check.\<close>

definition open_finish :: "ptr \<Rightarrow> byte list \<Rightarrow> byte list \<Rightarrow> int \<Rightarrow> (byte list) go" where
  "open_finish ctx dst buf tot = addr_at buf tot (do {
     r \<leftarrow> call (Do ''EVP_DecryptFinal_ex'' [(HCipherCtx, ctx)] [AOut (go_len buf - tot)]);
     if rc r \<noteq> 1 then do { Zero (write_at buf tot (rbuf r)); clearErrors; fail ErrVerification }
     else slice_to (write_at buf tot (rbuf r)) (tot + rlen r) (\<lambda>pt. ok (dst @ pt))
   })"

definition open_in :: "ptr \<Rightarrow> aead \<Rightarrow> byte list \<Rightarrow> byte list \<Rightarrow> byte list \<Rightarrow> byte list \<Rightarrow> byte list \<Rightarrow> (byte list) go" where
  "open_in ctx a dst nonce body tag aad =
     must (initDecrypt ctx a nonce tag) (\<lambda>_.
     must (open_headers ctx a body aad) (\<lambda>_.
     make_bytes (go_len body + EVP_MAX_BLOCK_LENGTH) (\<lambda>buf.
     must (open_data ctx a body buf) (\<lambda>(buf, tot). open_finish ctx dst buf tot))))"

definition AEAD_Open :: "aead option \<Rightarrow> byte list \<Rightarrow> byte list \<Rightarrow> byte list \<Rightarrow> byte list \<Rightarrow> (byte list) go" where
  "AEAD_Open a dst nonce ciphertext aad = (case a of None \<Rightarrow> fail ErrClosed | Some a \<Rightarrow> with_rlock MuObject (
     if a_closed a then fail ErrClosed
     else if go_len nonce \<noteq> a_nonce a
     then fail (Errorf ''ossl: nonce must be %d bytes, got %d'' [FInt (a_nonce a), FInt (go_len nonce)])
     else if go_len ciphertext < a_tag a then fail ErrVerification
     else slice_to ciphertext (go_len ciphertext - a_tag a) (\<lambda>body. do {
       clearErrors;
       ctx \<leftarrow> new HCipherCtx ''EVP_CIPHER_CTX_new'' [] [];
       if ctx = NULL then failE ''EVP_CIPHER_CTX_new''
       else deferring (free HCipherCtx ctx)
         (open_in ctx a dst nonce body (drop (nat (go_len ciphertext - a_tag a)) ciphertext) aad)
     })))"

definition AEAD_Close :: "aead option \<Rightarrow> (aead option) go" where
  "AEAD_Close a = (case a of None \<Rightarrow> ok None | Some a \<Rightarrow> with_lock MuObject
     (if a_closed a then ok (Some a) else do {
        free HCipher (a_cipher a);
        Zero (a_key a);
        ok (Some (a\<lparr>a_cipher := NULL, a_key := [], a_closed := True\<rparr>))
      }))"

section \<open>Ownership\<close>

text \<open>The sizes the standards permit.\<close>

definition sizes_ok :: "bool \<Rightarrow> int \<Rightarrow> int \<Rightarrow> bool" where
  "sizes_ok ccm iv tag \<longleftrightarrow>
     (if ccm then iv \<in> {7..13} \<and> tag \<in> {4, 6, 8, 10, 12, 14, 16} else 1 \<le> iv \<and> tag \<in> {12..16})"

lemma validate_ok [simp]:
  "validateAEADSizes name ccm cfg = None \<longleftrightarrow> sizes_ok ccm (ac_ivLen cfg) (ac_tagLen cfg)"
proof -
  have "4 \<le> t \<Longrightarrow> t \<le> 16 \<Longrightarrow> t smod 2 = 0 \<longleftrightarrow> t \<in> {4, 6, 8, 10, 12, 14, 16}" for t :: int
    by (simp add: smod_pos) presburger
  then show ?thesis by (auto simp: validateAEADSizes_def sizes_ok_def)
qed

lemma NewAEAD_spec:
  assumes "\<And>c'. c = Some c' \<Longrightarrow> ctx_live c' w"
  shows "wp (NewAEAD c name key opts) (\<lambda>r w'. case r of
      Inl e \<Rightarrow> keeps w w'
    | Inr a \<Rightarrow> gains {#(HCipher, a_cipher a)#} w w' \<and> a_cipher a \<noteq> NULL \<and> a_key a = key \<and> \<not> a_closed a
        \<and> sizes_ok (a_ccm a) (a_nonce a) (a_tag a)) w"
  using assms
  by (auto simp: NewAEAD_def buildAEAD_def wp_defs eff_defs ctx_live_def Let_def intro!: vcg
      split: option.splits)

definition cipher_ctx_ok :: "ptr \<Rightarrow> aead \<Rightarrow> world \<Rightarrow> bool" where
  "cipher_ctx_ok ctx a w \<longleftrightarrow> (ctx \<noteq> NULL \<longrightarrow> (HCipherCtx, ctx) \<in># owned w)
     \<and> (a_cipher a \<noteq> NULL \<longrightarrow> (HCipher, a_cipher a) \<in># owned w)"

lemma cipher_ctx_ok_keeps: "cipher_ctx_ok ctx a w \<Longrightarrow> keeps w w' \<Longrightarrow> cipher_ctx_ok ctx a w'"
  by (simp add: cipher_ctx_ok_def keeps_def)

lemma init_with_spec:
  assumes "cipher_ctx_ok ctx a w" "pstep_ok tagParam kv"
  shows "wp (init_with enc ctx a nonce tagParam) (\<lambda>r w'. neutral r w w') w"
  unfolding init_with_def
proof (rule wp_with_chain [where D = "\<lambda>_. {#}" and P = "\<lambda>_. True"])
  show "list_all2 pstep_ok [SizeT pKeyIVLen (a_nonce a), tagParam]
      [(c_string pKeyIVLen, PSizeT (c_size_t (a_nonce a))), kv]"
    using assms(2) pstep_oks by (simp del: pKey_cstring)
next
  fix p w1
  assume p: "wf_params p" "grows newParams w p w1"
  have own: "(HCipherCtx, ctx) \<in># owned w1 \<or> ctx = NULL" "(HCipher, a_cipher a) \<in># owned w1 \<or> a_cipher a = NULL"
    using assms(1) p(2) by (auto simp: cipher_ctx_ok_def grows_def)
  show "wp (if a_ccm a then use_c p (\<lambda>ps. do {
         r \<leftarrow> call (Do (evp enc ''Init_ex2'') [(HCipherCtx, ctx), (HCipher, a_cipher a)] [ANull, ANull, AParams ps]);
         if rc r \<noteq> 1 then failE (evp enc ''Init_ex2(sizes)'')
         else addr0 (a_key a) (addr0 nonce
           (init_keyed enc (evp enc ''Init_ex2(key+iv)'') [(HCipherCtx, ctx)] a nonce ANull))
       })
       else addr0 (a_key a) (addr0 nonce (use_c p (\<lambda>ps.
         init_keyed enc (evp enc ''Init_ex2'') [(HCipherCtx, ctx), (HCipher, a_cipher a)] a nonce (AParams ps)))))
      (\<lambda>r w2. gains {#} w1 w2 \<and> True) w1"
    using own
    by (auto simp: init_keyed_def wp_defs keeps_def reads_defs intro!: vcg wp_use_c [OF p])
qed (auto simp: neutral_def)

lemmas wp_init_with = wp_mono [OF init_with_spec]

lemma pstep_OctetsOut: "pstep_ok (OctetsOut_step k n) (c_string k, POut (c_size_t n))"
  by (auto simp: pstep_ok_def OctetsOut_step_def intro!: wp_OctetsOut)

lemma initEncrypt_spec:
  "cipher_ctx_ok ctx a w \<Longrightarrow> wp (initEncrypt ctx a nonce) (\<lambda>r w'. neutral r w w') w"
  unfolding initEncrypt_def by (cases "a_ccm a") (auto intro: init_with_spec pstep_oks)

lemma initDecrypt_spec:
  "cipher_ctx_ok ctx a w \<Longrightarrow> wp (initDecrypt ctx a nonce tag) (\<lambda>r w'. neutral r w w') w"
  unfolding initDecrypt_def by (auto intro: init_with_spec pstep_oks)

lemma headers_spec:
  assumes "cipher_ctx_ok ctx a w"
  shows "wp (seal_headers ctx a xs aad) (\<lambda>r w'. keeps w w') w"
    "wp (open_headers ctx a xs aad) (\<lambda>r w'. keeps w w') w"
  using assms
  by (auto simp: seal_headers_def open_headers_def declare_update_def cipher_ctx_ok_def keeps_def intro!: vcg)

lemma data_spec:
  assumes "cipher_ctx_ok ctx a w"
  shows "wp (seal_data ctx a xs buf) (\<lambda>r w'. keeps w w') w"
    "wp (open_data ctx a xs buf) (\<lambda>r w'. keeps w w') w"
    "wp (open_finish ctx dst buf n) (\<lambda>r w'. keeps w w') w"
  using assms
  by (auto simp: seal_data_def open_data_def open_finish_def guard_defs cipher_ctx_ok_def keeps_def intro!: vcg)

lemma read_tag_spec:
  assumes "ctx = NULL \<or> (HCipherCtx, ctx) \<in># owned w"
  shows "wp (read_tag ctx n) (\<lambda>r w'. keeps w w') w"
  unfolding read_tag_def
  by (rule wp_with_params [where kvs = "[(c_string pKeyAEADTag, POut (c_size_t n))]"
        and D = "\<lambda>_. {#}" and P = "\<lambda>_. True"])
    (use assms in \<open>auto simp: pstep_OctetsOut keeps_def reads_defs simp del: pKey_cstring intro!: vcg\<close>)

lemmas wp_read_tag [vcg] = wp_mono [OF read_tag_spec]

lemma seal_finish_spec:
  "cipher_ctx_ok ctx a w \<Longrightarrow> wp (seal_finish ctx a dst buf n) (\<lambda>r w'. keeps w w') w"
  by (auto simp: seal_finish_def guard_defs cipher_ctx_ok_def keeps_def intro!: vcg split: sum.splits)

lemma stable_cipher_ctx: "stable (cipher_ctx_ok ctx a)"
  by (auto simp: stable_def cipher_ctx_ok_def gains_def)

lemma aead_steps_neutral:
  "neutral_op (cipher_ctx_ok ctx a) (initEncrypt ctx a nonce)"
  "neutral_op (cipher_ctx_ok ctx a) (initDecrypt ctx a nonce tag)"
  "neutral_op (cipher_ctx_ok ctx a) (seal_headers ctx a xs aad)"
  "neutral_op (cipher_ctx_ok ctx a) (open_headers ctx a xs aad)"
  "neutral_op (cipher_ctx_ok ctx a) (seal_data ctx a xs buf)"
  "neutral_op (cipher_ctx_ok ctx a) (open_data ctx a xs buf)"
  "neutral_op (cipher_ctx_ok ctx a) (seal_finish ctx a dst buf n)"
  "neutral_op (cipher_ctx_ok ctx a) (open_finish ctx dst buf n)"
  by (auto simp: neutral_op_def intro: initEncrypt_spec initDecrypt_spec wp_mono [OF headers_spec(1)]
      wp_mono [OF headers_spec(2)] wp_mono [OF data_spec(1)] wp_mono [OF data_spec(2)]
      wp_mono [OF data_spec(3)] wp_mono [OF seal_finish_spec] neutral_keeps)

lemma aead_in_neutral:
  "neutral_op (cipher_ctx_ok ctx a) (seal_in ctx a dst nonce xs aad)"
  "neutral_op (cipher_ctx_ok ctx a) (open_in ctx a dst nonce xs tag aad)"
  unfolding seal_in_def open_in_def
  by (intro neutral_op_must stable_cipher_ctx neutral_op_guards aead_steps_neutral;
      auto intro!: neutral_op_must stable_cipher_ctx neutral_op_guards aead_steps_neutral split: prod.splits)+

text \<open>An open AEAD holds its cipher.\<close>

definition aead_ok :: "aead \<Rightarrow> world \<Rightarrow> bool" where
  "aead_ok a w \<longleftrightarrow> (a_cipher a \<noteq> NULL \<longrightarrow> (HCipher, a_cipher a) \<in># owned w)"

lemma stable_aead: "stable (aead_ok a)"
  by (auto simp: stable_def aead_ok_def gains_def)

lemma aead_fresh_ctx:
  assumes "\<And>ctx. neutral_op (cipher_ctx_ok ctx a) (m ctx)"
  shows "neutral_op (aead_ok a) (do {
     clearErrors;
     ctx \<leftarrow> new HCipherCtx ''EVP_CIPHER_CTX_new'' [] [];
     if ctx = NULL then failE ''EVP_CIPHER_CTX_new'' else deferring (free HCipherCtx ctx) (m ctx)
   })"
  by (intro neutral_op_bind stable_aead clear_keeps neutral_op_temp neutral_op_weaken [OF assms])
    (auto simp: aead_ok_def cipher_ctx_ok_def)

lemma aead_neutral:
  assumes "a_closed a \<or> aead_ok a w"
  shows "wp (SealErr (Some a) dst nonce xs aad) (\<lambda>r w'. neutral r w w') w"
    "wp (AEAD_Open (Some a) dst nonce xs aad) (\<lambda>r w'. neutral r w w') w"
proof -
  have T: "stable (\<lambda>_. True)" by (simp add: stable_def)
  have closed: "wp (SealErr (Some a) dst nonce xs aad) (\<lambda>r w'. neutral r w w') w"
    "wp (AEAD_Open (Some a) dst nonce xs aad) (\<lambda>r w'. neutral r w w') w" if "a_closed a"
    using that by (auto simp: SealErr_def AEAD_Open_def intro!: neutral_opD [where I = "\<lambda>_. True"] neutral_op_lock T)
  have "neutral_op (aead_ok a) (SealErr (Some a) dst nonce xs aad)"
    "neutral_op (aead_ok a) (AEAD_Open (Some a) dst nonce xs aad)"
    by (auto simp: SealErr_def AEAD_Open_def intro!: neutral_op_lock neutral_op_guards aead_fresh_ctx
        aead_in_neutral stable_aead)
  with assms closed show "wp (SealErr (Some a) dst nonce xs aad) (\<lambda>r w'. neutral r w w') w"
    "wp (AEAD_Open (Some a) dst nonce xs aad) (\<lambda>r w'. neutral r w w') w"
    by (blast dest: neutral_opD)+
qed

interpretation aead: closable AEAD_Close a_closed "\<lambda>a. if a_closed a then {#} else held HCipher (a_cipher a)"
  by unfold_locales
    (auto simp: AEAD_Close_def wp_defs eff_defs now_owns_def held_def intro!: vcg split: if_splits)

text \<open>Any number of messages, errors ignored; the flag says whether to seal or to open.\<close>

fun aead_uses :: "(byte list \<times> byte list \<times> byte list \<times> bool) list \<Rightarrow> aead \<Rightarrow> unit go" where
  "aead_uses [] a = ok ()"
| "aead_uses ((n, x, d, enc) # us) a =
     onerr (if enc then SealErr (Some a) [] n x d else AEAD_Open (Some a) [] n x d)
       (\<lambda>_. aead_uses us a) (\<lambda>_. aead_uses us a)"

lemma aead_uses_neutral: "neutral_op (\<lambda>w. a_closed a \<or> aead_ok a w) (aead_uses us a)"
proof (induction us a rule: aead_uses.induct)
  case (2 n x d enc us a)
  have st: "stable (\<lambda>w. a_closed a \<or> aead_ok a w)"
    using stable_aead by (cases "a_closed a") (auto simp: stable_def)
  show ?case
    unfolding aead_uses.simps
    by (rule neutral_op_onerr [OF st]) (use 2 in \<open>auto simp: neutral_op_def intro: aead_neutral\<close>)
qed simp

text \<open>
  An AEAD made, used to seal and open any number of messages and closed twice leaves the C
  references of the process as they were, whatever the library answers, and no call uses or
  releases a reference that is not held. The exception is a panic, which ends the process.
\<close>

theorem AEAD_lifecycle:
  assumes "ctx_live c w"
  shows "wp (session (NewAEAD (Some c) name key opts) (aead_uses us) AEAD_Close) (balanced w) w"
  by (rule aead.session_balanced [OF wp_mono [OF NewAEAD_spec] aead_uses_neutral])
    (use assms in \<open>auto simp: aead_ok_def gains_def split: sum.splits\<close>)

lemma AEAD_lifecycle_witness:
  "wp (session (NewAEAD (Some Default) ''AES-128-GCM'' [1] []) (aead_uses [([], [1], [], True)]) AEAD_Close)
     (balanced (world_of lib_yes [])) (world_of lib_yes [])"
  by (rule AEAD_lifecycle) (simp add: ctx_live_def)

section \<open>The trace of Open\<close>

text \<open>The library was given this tag with the key and the sizes, and accepted it.\<close>

definition tag_given :: "ptr \<Rightarrow> aead \<Rightarrow> byte list \<Rightarrow> world \<Rightarrow> world \<Rightarrow> bool" where
  "tag_given ctx a tag w w' \<longleftrightarrow> (\<exists>k iv ps r. rc r = 1 \<and> (pKeyAEADTag, POctets tag) \<in> set (param_view ps)
     \<and> saw (Do ''EVP_DecryptInit_ex2'' [(HCipherCtx, ctx), (HCipher, a_cipher a)] [k, iv, AParams ps], r) w w')"

definition tag_accepted :: "ptr \<Rightarrow> world \<Rightarrow> world \<Rightarrow> bool" where
  "tag_accepted ctx w w' \<longleftrightarrow> (\<exists>n r. rc r = 1 \<and> saw (Do ''EVP_DecryptFinal_ex'' [(HCipherCtx, ctx)] [AOut n], r) w w')"

lemma tag_given_push: "tag_given ctx a tag w w' \<Longrightarrow> tag_given ctx a tag w (push c r w')"
  unfolding tag_given_def by (meson saw_later ext_push ext_refl)

lemma tag_given_widen:
  "ext w w1 \<Longrightarrow> tag_given ctx a tag w1 w2 \<Longrightarrow> ext w2 w' \<Longrightarrow> tag_given ctx a tag w w'"
  unfolding tag_given_def by (meson saw_later saw_earlier)

lemma tag_accepted_widen: "ext w w1 \<Longrightarrow> tag_accepted ctx w1 w2 \<Longrightarrow> ext w2 w' \<Longrightarrow> tag_accepted ctx w w'"
  unfolding tag_accepted_def by (meson saw_later saw_earlier)

lemma initDecrypt_trace:
  "wp (initDecrypt ctx a nonce tag) (\<lambda>r w'. ext w w' \<and> (r = Inr () \<longrightarrow> tag_given ctx a tag w w')) w"
  unfolding initDecrypt_def init_with_def
proof (rule wp_with_chain_trace [where P = "\<lambda>r w1 w2. ext w1 w2 \<and> (r = Inr () \<longrightarrow> tag_given ctx a tag w1 w2)"])
  show "list_all2 pstep_ok [SizeT pKeyIVLen (a_nonce a), Octets pKeyAEADTag tag]
      [(pKeyIVLen, PSizeT (c_size_t (a_nonce a))), (pKeyAEADTag, POctets tag)]"
    using pstep_oks(5) [of pKeyIVLen] pstep_oks(2) [of pKeyAEADTag] by simp
next
  fix p w1
  assume p: "wf_params p" "grows newParams w p w1"
    and v: "param_view (p_list p) = [(pKeyIVLen, PSizeT (c_size_t (a_nonce a))), (pKeyAEADTag, POctets tag)]"
  have given: "tag_given ctx a tag w1
      (push (Do ''EVP_DecryptInit_ex2'' [(HCipherCtx, ctx), (HCipher, a_cipher a)] [k, iv, AParams ps]) r w1)"
    if "reads_params w (param_view (p_list p)) ps w1" "rc r = 1" for ps r k iv
  proof -
    have "(pKeyAEADTag, POctets tag) \<in> set (param_view ps)"
      using that(1) v by (simp add: reads_params_def live_params_def)
    with that(2) show ?thesis
      unfolding tag_given_def
      by (intro exI [of _ k] exI [of _ iv] exI [of _ ps] exI [of _ r] conjI saw_push ext_refl)
  qed
  show "wp (if a_ccm a then use_c p (\<lambda>ps. do {
         r \<leftarrow> call (Do (evp False ''Init_ex2'') [(HCipherCtx, ctx), (HCipher, a_cipher a)] [ANull, ANull, AParams ps]);
         if rc r \<noteq> 1 then failE (evp False ''Init_ex2(sizes)'')
         else addr0 (a_key a) (addr0 nonce
           (init_keyed False (evp False ''Init_ex2(key+iv)'') [(HCipherCtx, ctx)] a nonce ANull))
       })
       else addr0 (a_key a) (addr0 nonce (use_c p (\<lambda>ps.
         init_keyed False (evp False ''Init_ex2'') [(HCipherCtx, ctx), (HCipher, a_cipher a)] a nonce (AParams ps)))))
      (\<lambda>r w2. ext w1 w2 \<and> (r = Inr () \<longrightarrow> tag_given ctx a tag w1 w2)) w1"
    by (auto simp: init_keyed_def guard_defs evp_def intro!: wp_use_c [OF p] vcg
        dest!: keeps_ext ext_unpush)
      (rule tag_given_push given | assumption)+
qed (auto dest!: only_ext intro: ext_trans tag_given_widen)

lemma open_steps_ext:
  "wp (open_headers ctx a body aad) (\<lambda>r w'. ext w w') w"
  "wp (open_data ctx a body buf) (\<lambda>r w'. ext w w') w"
  by (auto simp: open_headers_def open_data_def declare_update_def guard_defs intro!: vcg
      dest!: keeps_ext ext_unpush elim: ext_trans) (meson ext_trans)

lemma tag_accepted_push:
  "rc r = 1 \<Longrightarrow> tag_accepted ctx w (push (Do ''EVP_DecryptFinal_ex'' [(HCipherCtx, ctx)] [AOut n]) r w)"
  unfolding tag_accepted_def by (meson saw_push ext_refl)

lemma open_finish_trace:
  "wp (open_finish ctx dst buf n) (\<lambda>r w'. \<forall>out. r = Inr out \<longrightarrow>
     take (length dst) out = dst \<and> tag_accepted ctx w w' \<and> ext w w') w"
  by (auto simp: open_finish_def guard_defs intro!: vcg tag_accepted_push)

lemma open_in_trace:
  "wp (open_in ctx a dst nonce body tag aad) (\<lambda>r w'. \<forall>out. r = Inr out \<longrightarrow>
     take (length dst) out = dst \<and> tag_given ctx a tag w w' \<and> tag_accepted ctx w w' \<and> ext w w') w"
  unfolding open_in_def wp_must
  by (auto intro!: wp_mono [OF initDecrypt_trace] wp_mono [OF open_steps_ext(1)]
      wp_mono [OF open_steps_ext(2)] wp_mono [OF open_finish_trace]
      simp: make_bytes_def split: sum.splits prod.splits)
    (meson ext_refl ext_trans tag_given_widen tag_accepted_widen)+

section \<open>Plaintext is cleansed on failure\<close>

text \<open>The sizes of the buffers an Update wrote that were not cleansed since; newest event first.\<close>

fun unscrubbed :: "event list \<Rightarrow> int set" where
  "unscrubbed [] = {}"
| "unscrubbed ((Cleanse b, r) # es) = unscrubbed es - {go_len b}"
| "unscrubbed ((Do f hs (AOut n # as), r) # es) =
     (if f = ''EVP_DecryptUpdate'' then {n} else {}) \<union> unscrubbed es"
| "unscrubbed (e # es) = unscrubbed es"

fun quiet :: "ccall \<Rightarrow> bool" where
  "quiet (Cleanse b) = False"
| "quiet (Do f hs (AOut n # as)) \<longleftrightarrow> f \<noteq> ''EVP_DecryptUpdate''"
| "quiet c = True"

definition leaves :: "int set \<Rightarrow> world \<Rightarrow> world \<Rightarrow> bool" where
  "leaves S w w' \<longleftrightarrow> (\<exists>es. hist w' = es @ hist w \<and> unscrubbed es \<subseteq> S)"

lemma unscrubbed_append: "unscrubbed (es @ fs) \<subseteq> unscrubbed es \<union> unscrubbed fs"
  by (induction es rule: unscrubbed.induct) auto

lemma unscrubbed_quiet: "list_all (quiet \<circ> fst) es \<Longrightarrow> unscrubbed es = {}"
  by (induction es rule: unscrubbed.induct) auto

interpretation quiet: call_policy quiet
proof
  fix c
  show "err_call c \<Longrightarrow> quiet c" by (cases c rule: quiet.cases) auto
  show "mem_call c \<Longrightarrow> quiet c" by (cases c rule: quiet.cases) auto
qed

lemma only_leaves: "only quiet w w' \<Longrightarrow> leaves {} w w'"
  by (auto simp: only_def leaves_def unscrubbed_quiet)

lemma leaves_refl [simp]: "leaves S w w"
  by (simp add: leaves_def)

lemma leaves_trans: "leaves {} w w' \<Longrightarrow> leaves S w' w'' \<Longrightarrow> leaves S w w''"
  unfolding leaves_def using unscrubbed_append by fastforce

lemma leaves_quiet: "leaves S w w' \<Longrightarrow> only quiet w' w'' \<Longrightarrow> leaves S w w''"
  unfolding leaves_def only_def using unscrubbed_append unscrubbed_quiet by fastforce

lemma leaves_push: "leaves S w w' \<Longrightarrow> quiet c \<Longrightarrow> leaves S w (push c r w')"
  by (rule leaves_quiet) (auto intro: only_push)

lemma leaves_update:
  "leaves S w w' \<Longrightarrow> f = ''EVP_DecryptUpdate'' \<Longrightarrow> n \<in> S \<Longrightarrow> leaves S w (push (Do f hs (AOut n # as)) r w')"
  unfolding leaves_def by (auto intro!: ext_intros(3) ext_intros(2))

lemma leaves_cleanse: "leaves {go_len b} w w' \<Longrightarrow> leaves {} w (push (Cleanse b) r w')"
  unfolding leaves_def by (auto intro!: ext_intros(3) ext_intros(2))

lemma leaves_err: "leaves S w w' \<Longrightarrow> only err_call w' w'' \<Longrightarrow> leaves S w w''"
  by (erule leaves_quiet) (rule quiet.from_err)

lemma leaves_mem: "leaves S w w' \<Longrightarrow> only mem_call w' w'' \<Longrightarrow> leaves S w w''"
  by (erule leaves_quiet) (rule quiet.from_mem)

definition clean_error :: "world \<Rightarrow> err + 'a \<Rightarrow> world \<Rightarrow> bool" where
  "clean_error w r w' \<longleftrightarrow> (case r of Inl e \<Rightarrow> is_panic e \<or> leaves {} w w' | Inr _ \<Rightarrow> True)"

lemma clean_error_simps [simp]:
  "clean_error w (Inr x) w'" "is_panic e \<Longrightarrow> clean_error w (Inl e) w'"
  "leaves {} w w' \<Longrightarrow> clean_error w (Inl e) w'"
  by (simp_all add: clean_error_def)

lemma init_with_only:
  assumes "pstep_ok tagParam kv"
  shows "wp (init_with enc ctx a nonce tagParam) (\<lambda>r w'. leaves {} w w') w"
  unfolding init_with_def
proof (rule wp_with_chain_trace [where P = "\<lambda>r w1 w2. leaves {} w1 w2"])
  show "list_all2 pstep_ok [SizeT pKeyIVLen (a_nonce a), tagParam]
      [(c_string pKeyIVLen, PSizeT (c_size_t (a_nonce a))), kv]"
    using assms pstep_oks(5) [of pKeyIVLen] by simp
next
  fix p w1
  assume p: "wf_params p" "grows newParams w p w1"
  show "wp (if a_ccm a then use_c p (\<lambda>ps. do {
         r \<leftarrow> call (Do (evp enc ''Init_ex2'') [(HCipherCtx, ctx), (HCipher, a_cipher a)] [ANull, ANull, AParams ps]);
         if rc r \<noteq> 1 then failE (evp enc ''Init_ex2(sizes)'')
         else addr0 (a_key a) (addr0 nonce
           (init_keyed enc (evp enc ''Init_ex2(key+iv)'') [(HCipherCtx, ctx)] a nonce ANull))
       })
       else addr0 (a_key a) (addr0 nonce (use_c p (\<lambda>ps.
         init_keyed enc (evp enc ''Init_ex2'') [(HCipherCtx, ctx), (HCipher, a_cipher a)] a nonce (AParams ps)))))
      (\<lambda>r w2. leaves {} w1 w2) w1"
    by (auto simp: init_keyed_def guard_defs intro!: wp_use_c [OF p] trace_rules leaves_push
        elim!: leaves_err [rotated])
qed (meson leaves_trans leaves_mem leaves_refl)+

lemma open_headers_only: "wp (open_headers ctx a body aad) (\<lambda>r w'. leaves {} w w') w"
  by (auto simp: open_headers_def declare_update_def intro!: trace_rules leaves_push
      elim!: leaves_err [rotated])

text \<open>After the data call the output buffer is the only one pending; an error has cleansed it.\<close>

lemma open_data_only:
  "wp (open_data ctx a body buf) (\<lambda>r w'. case r of Inl e \<Rightarrow> is_panic e \<or> leaves {} w w'
     | Inr (b, n) \<Rightarrow> go_len b = go_len buf \<and> leaves {go_len buf} w w') w"
  by (auto simp: open_data_def guard_defs Zero_def index_panic_def
      intro!: trace_rules leaves_cleanse leaves_update disjI2
      elim!: leaves_err [rotated])

lemma open_finish_only:
  "leaves {go_len buf} w w1 \<Longrightarrow> wp (open_finish ctx dst buf n) (clean_error w) w1"
  by (auto simp: open_finish_def guard_defs Zero_def index_panic_def slice_panic_def
      intro!: trace_rules clean_error_simps(3) leaves_cleanse leaves_push
      elim!: leaves_err [rotated])

lemma clean_error_mono: "clean_error w1 r w2 \<Longrightarrow> leaves {} w w1 \<Longrightarrow> clean_error w r w2"
  by (auto simp: clean_error_def intro: leaves_trans split: sum.splits)

lemma clean_error_push: "clean_error w r w' \<Longrightarrow> quiet c \<Longrightarrow> clean_error w r (push c s w')"
  by (auto simp: clean_error_def intro: leaves_push split: sum.splits)

lemma open_in_only: "wp (open_in ctx a dst nonce body tag aad) (clean_error w) w"
proof -
  have finish: "wp (open_finish ctx dst b n) (clean_error w) w3"
    if "leaves {} w w1" "leaves {} w1 w2" "leaves {go_len buf} w2 w3" "go_len b = go_len buf"
    for b buf n w1 w2 w3
    using that by (intro open_finish_only) (auto intro: leaves_trans)
  show ?thesis
    unfolding open_in_def initDecrypt_def wp_must
    by (auto intro!: wp_mono [OF init_with_only [OF pstep_Octets]] wp_mono [OF open_headers_only]
        wp_mono [OF open_data_only] finish
        simp: make_bytes_def intro: leaves_trans split: sum.splits prod.splits)
      (auto simp: clean_error_def intro: leaves_trans)
qed

lemma AEAD_Open_only: "wp (AEAD_Open a dst nonce ct aad) (clean_error w) w"
proof -
  have step: "wp (open_in ctx b dst nonce body tag aad) (clean_error w) w1" if "leaves {} w w1"
    for ctx b body tag w1
    using wp_mono [OF open_in_only] that by (metis clean_error_mono)
  show ?thesis
    by (cases a) (auto simp: AEAD_Open_def wp_defs slice_panic_def
        intro!: trace_rules clean_error_simps(3) leaves_push wp_mono [OF step] clean_error_push
        elim!: leaves_err [rotated])
qed

text \<open>
  C2: an \<open>Open\<close> that fails has cleansed every buffer into which the library released
  plaintext: each \<open>EVP_DecryptUpdate\<close> that had an output buffer is followed by the cleansing
  of a buffer of that size, whatever the library answers.
\<close>

theorem Open_scrubs:
  assumes "run_state (AEAD_Open a dst nonce ct aad) w = (Inl e, w')" "\<not> is_panic e"
  shows "\<exists>es. hist w' = es @ hist w \<and> unscrubbed es = {}"
  using wp_runD [OF AEAD_Open_only assms(1)] assms(2) by (auto simp: clean_error_def leaves_def)

definition demo_aead :: aead where
  "demo_aead = \<lparr>a_cipher = 7, a_key = [1, 2], a_name = ''AES-256-GCM'', a_nonce = 3, a_tag = 12,
     a_ccm = False, a_closed = False\<rparr>"

text \<open>A library that releases a block of plaintext and then rejects the tag.\<close>

definition lib_forged :: "event list \<Rightarrow> ccall \<Rightarrow> cret" where
  "lib_forged h c = (case c of
     Do f hs as \<Rightarrow> if f = ''EVP_DecryptFinal_ex'' then no
       else if f = ''EVP_DecryptUpdate'' then (yes h)\<lparr>rbuf := [65], rlen := 1\<rparr> else yes h
   | _ \<Rightarrow> yes h)"

lemma forged_run:
  "fst (run_state (AEAD_Open (Some demo_aead) [] [0, 0, 0] (replicate 13 5) []) (world_of lib_forged []))
   = Inl ErrVerification"
  by code_simp

lemma Open_scrubs_witness:
  "\<exists>es. hist (snd (run_state (AEAD_Open (Some demo_aead) [] [0, 0, 0] (replicate 13 5) []) (world_of lib_forged [])))
     = es @ hist (world_of lib_forged []) \<and> unscrubbed es = {}"
  by (rule Open_scrubs [OF run_fst [OF forged_run]]) simp


text \<open>A library that accepts.\<close>

definition lib_accepts :: "event list \<Rightarrow> ccall \<Rightarrow> cret" where
  "lib_accepts h c = (case c of
     Do f hs as \<Rightarrow> if f = ''EVP_DecryptUpdate'' then (yes h)\<lparr>rbuf := [65], rlen := 1\<rparr> else yes h
   | _ \<Rightarrow> yes h)"

lemma accepts_run:
  "fst (run_state (AEAD_Open (Some demo_aead) [9] [0, 0, 0] (replicate 13 5) []) (world_of lib_accepts []))
   = Inr [9, 65]"
  by code_simp


end
