(* ===== verification/Evidence.thy ===== *)
theory Evidence
  imports Params
begin

text \<open>
  What a success rests on. \<open>secures E m P\<close>: run in a world where \<open>E\<close> holds, \<open>m\<close> only adds to
  the history, and when it returns \<open>x\<close> then \<open>P x\<close> holds. The assertions are \<open>lasting\<close>: they
  speak of calls that have been made, so that later calls do not undo them. Each rule follows one
  construct of the code, and a proof about an operation applies them in its order.
\<close>

definition lasting :: "(world \<Rightarrow> bool) \<Rightarrow> bool" where
  "lasting E \<longleftrightarrow> (\<forall>w w'. E w \<longrightarrow> ext w w' \<longrightarrow> E w')"

definition secures :: "(world \<Rightarrow> bool) \<Rightarrow> 'a go \<Rightarrow> ('a \<Rightarrow> world \<Rightarrow> bool) \<Rightarrow> bool" where
  "secures E m P \<longleftrightarrow> (\<forall>w. E w \<longrightarrow> wp m (\<lambda>r w'. ext w w' \<and> (\<forall>x. r = Inr x \<longrightarrow> P x w')) w)"

text \<open>A call was made after \<open>w0\<close>, and answered so.\<close>

definition answered :: "world \<Rightarrow> (cret \<Rightarrow> bool) \<Rightarrow> ccall \<Rightarrow> world \<Rightarrow> bool" where
  "answered w0 P c w \<longleftrightarrow> (\<exists>r. P r \<and> saw (c, r) w0 w)"

named_theorems lasting

lemma lastingD: "lasting E \<Longrightarrow> E w \<Longrightarrow> ext w w' \<Longrightarrow> E w'"
  unfolding lasting_def by blast

lemma lasting_rules [lasting]:
  "lasting (ext w0)" "lasting (saw e w0)" "lasting (\<lambda>w. saw e w0 w)" "lasting (answered w0 R c)"
  "lasting (\<lambda>w. b)"
  unfolding lasting_def answered_def by (blast intro: saw_later ext_trans)+

lemma lasting_conn [lasting]:
  "lasting E \<Longrightarrow> lasting F \<Longrightarrow> lasting (\<lambda>w. E w \<and> F w)"
  "lasting E \<Longrightarrow> lasting F \<Longrightarrow> lasting (\<lambda>w. E w \<or> F w)"
  "(\<And>x. lasting (G x)) \<Longrightarrow> lasting (\<lambda>w. \<exists>x. G x w)"
  "lasting E \<Longrightarrow> lasting (\<lambda>w. b \<longrightarrow> E w)" "(\<And>x. lasting (G x)) \<Longrightarrow> lasting (\<lambda>w. \<forall>x\<in>S. G x w)"
  unfolding lasting_def by blast+

lemma lasting_if [lasting]: "lasting E \<Longrightarrow> lasting F \<Longrightarrow> lasting (\<lambda>w. if b then E w else F w)"
  by (cases b) simp_all

text \<open>An assertion about the time since \<open>w0\<close>.\<close>

definition since :: "world \<Rightarrow> (world \<Rightarrow> bool) \<Rightarrow> bool" where
  "since w0 E \<longleftrightarrow> lasting E \<and> (\<forall>w. E w \<longrightarrow> ext w0 w)"

lemma since_rules [lasting]:
  "since w0 (ext w0)" "since w0 E \<Longrightarrow> lasting F \<Longrightarrow> since w0 (\<lambda>w. E w \<and> F w)"
  unfolding since_def by (auto intro: lasting)

lemma since_lasting: "since w0 E \<Longrightarrow> lasting E"
  by (simp add: since_def)

section \<open>Programs whose calls all pass a test\<close>

definition passes :: "(ccall \<Rightarrow> bool) \<Rightarrow> (world, 'a) state \<Rightarrow> bool" where
  "passes P m \<longleftrightarrow> (\<forall>w. wp m (\<lambda>_ w'. only P w w') w)"

lemma passesD: "passes P m \<Longrightarrow> wp m (\<lambda>_ w'. only P w w') w"
  by (simp add: passes_def)

lemma passes_pure:
  "passes P (State_Monad.return x)" "passes P (ok y)" "passes P (fail e)" "passes P (lift r)"
  by (simp_all add: passes_def)

lemma passes_call:
  "P c \<Longrightarrow> passes P (call c)" "P (New k f hs as) \<Longrightarrow> passes P (new k f hs as)" "P (Free k p) \<Longrightarrow> passes P (free k p)"
  by (simp_all add: passes_def wp_call only_push)

lemma passes_bind:
  assumes "passes P m" "\<And>a. passes P (f a)"
  shows "passes P (m \<bind> f)"
  unfolding passes_def wp_bind
  by (intro allI wp_mono [OF passesD [OF assms(1)]] wp_mono [OF passesD [OF assms(2)]]) (rule only_trans)

lemma passes_branch:
  "(b \<Longrightarrow> passes P m) \<Longrightarrow> (\<not> b \<Longrightarrow> passes P n) \<Longrightarrow> passes P (if b then m else n)"
  "(x = None \<Longrightarrow> passes P m) \<Longrightarrow> (\<And>y. x = Some y \<Longrightarrow> passes P (f y)) \<Longrightarrow> passes P (case x of None \<Rightarrow> m | Some y \<Rightarrow> f y)"
  "(\<And>e. s = Inl e \<Longrightarrow> passes P (g e)) \<Longrightarrow> (\<And>y. s = Inr y \<Longrightarrow> passes P (h y)) \<Longrightarrow> passes P (case s of Inl e \<Rightarrow> g e | Inr y \<Rightarrow> h y)"
  "(\<And>a b. p = (a, b) \<Longrightarrow> passes P (k a b)) \<Longrightarrow> passes P (case p of (a, b) \<Rightarrow> k a b)"
  by (cases b; cases x; cases s; cases p; simp)+

lemma passes_must: "passes P m \<Longrightarrow> (\<And>x. passes P (f x)) \<Longrightarrow> passes P (must m f)"
  unfolding must_def by (intro passes_bind passes_branch passes_pure)

lemma passes_onerr: "passes P m \<Longrightarrow> (\<And>e. passes P (h e)) \<Longrightarrow> (\<And>x. passes P (f x)) \<Longrightarrow> passes P (onerr m h f)"
  unfolding onerr_def by (intro passes_bind passes_branch passes_pure)

lemma passes_deferring: "passes P d \<Longrightarrow> passes P m \<Longrightarrow> passes P (deferring d m)"
  unfolding deferring_def by (intro passes_bind passes_pure)

lemma passes_guards:
  "passes P m \<Longrightarrow> passes P (addr0 buf m)" "passes P m \<Longrightarrow> passes P (addr_at buf n m)"
  "(\<And>b. passes P (k b)) \<Longrightarrow> passes P (slice_to buf n k)" "(\<And>b. passes P (k b)) \<Longrightarrow> passes P (make_bytes n k)"
  unfolding guard_defs by (simp_all add: passes_pure)

lemmas passes_steps = passes_pure passes_bind passes_branch passes_must passes_onerr passes_deferring passes_guards passes_call

context call_policy
begin

lemma passes_err: "passes policy clearErrors" "passes policy (newError op)" "passes policy (failE op)"
  by (auto simp: passes_def err_only_eq intro!: clearErrors_only failE_only wp_mono [OF newError_err_only] dest: from_err)

lemma passes_cstr: "(\<And>c. passes policy (k c)) \<Longrightarrow> passes policy (with_cstr s k)"
  unfolding with_cstr_def by (rule passes_steps policy_mem mem_call.simps TrueI | assumption | simp add: policy_mem)+

lemma passes_drop: "passes policy (drop_params p)"
  unfolding passes_def by (auto intro!: wp_mono [OF drop_params_mem] dest: from_mem)

lemma passes_params:
  assumes "psteps_ok ss" "\<And>ps. passes policy (k ps)"
  shows "passes policy (with_params ss k)"
proof -
  obtain kvs where kvs: "list_all2 pstep_ok ss kvs" using psteps_ok_all2 [OF assms(1)] by blast
  have dropped: "wp (drop_params p) (\<lambda>_ w'. only policy w w') w1" if "only policy w w1" for p w w1
    by (rule wp_mono [OF passesD [OF passes_drop]]) (rule only_trans [OF that])
  show ?thesis
    unfolding passes_def with_params_def wp_bind
  proof (intro allI, rule wp_p_stepsI [OF kvs wf_newParams], goal_cases)
    case (1 w p w1)
    then show ?case by (auto intro!: dropped dest!: grows_mem from_mem)
  next
    case (2 w p w1)
    have "wp (use_c p k) (\<lambda>_ w'. only policy w w') w1"
      using from_mem [OF grows_mem [OF 2(2)]]
      by (auto intro!: wp_use_c [OF 2(1,2)] wp_mono [OF passesD [OF assms(2)]] intro: only_trans)
    then show ?case by (auto elim!: wp_mono intro!: dropped)
  qed
qed

lemmas passes_rules = passes_steps passes_err passes_cstr passes_drop passes_params

end

section \<open>Programs only add to the history\<close>

named_theorems adds

abbreviation adds :: "(world, 'a) state \<Rightarrow> bool" where
  "adds m \<equiv> passes (\<lambda>_. True) m"

lemma only_any [simp]: "only (\<lambda>_. True) w w' = ext w w'"
  by (auto simp: only_def ext_def list_all_iff)

interpretation anything: call_policy "\<lambda>_. True"
  by unfold_locales simp_all

lemma adds_def: "adds m \<longleftrightarrow> (\<forall>w. wp m (\<lambda>_ w'. ext w w') w)"
  by (simp add: passes_def)

lemma addsD: "adds m \<Longrightarrow> wp m (\<lambda>_ w'. ext w w') w"
  by (simp add: passes_def)

lemma adds_lock: "adds m \<Longrightarrow> adds (with_lock mu m)" "adds m \<Longrightarrow> adds (with_rlock mu m)"
  unfolding with_lock_def with_rlock_def by (rule passes_steps TrueI | assumption)+

declare anything.passes_rules [adds] adds_lock [adds] TrueI [adds]

lemma adds_bindI: "wp m (\<lambda>_ w'. ext w w') w \<Longrightarrow> (\<And>a w'. ext w w' \<Longrightarrow> Q a w') \<Longrightarrow> wp m Q w"
  by (erule wp_mono) simp

section \<open>Evidence, construct by construct\<close>

lemma securesI:
  "(\<And>w. E w \<Longrightarrow> wp m (\<lambda>r w'. ext w w' \<and> (\<forall>x. r = Inr x \<longrightarrow> P x w')) w) \<Longrightarrow> secures E m P"
  by (simp add: secures_def)

lemma securesD:
  "secures E m P \<Longrightarrow> E w \<Longrightarrow> wp m (\<lambda>r w'. ext w w' \<and> (\<forall>x. r = Inr x \<longrightarrow> P x w')) w"
  by (simp add: secures_def)

lemma secures_weaken:
  "secures E m P \<Longrightarrow> (\<And>w. F w \<Longrightarrow> E w) \<Longrightarrow> (\<And>x w. P x w \<Longrightarrow> Q x w) \<Longrightarrow> secures F m Q"
  unfolding secures_def by (blast intro: wp_mono)

lemma secures_post: "secures E m P \<Longrightarrow> (\<And>x w. P x w \<Longrightarrow> Q x w) \<Longrightarrow> secures E m Q"
  by (erule secures_weaken)

lemma secures_frame:
  assumes "secures E m P" "lasting F"
  shows "secures (\<lambda>w. E w \<and> F w) m (\<lambda>x w. P x w \<and> F w)"
  unfolding secures_def
  by (auto intro!: wp_mono [OF securesD [OF assms(1)]] intro: lastingD [OF assms(2)])

lemma secures_keep: "secures E m P \<Longrightarrow> lasting E \<Longrightarrow> secures E m (\<lambda>x w. E w \<and> P x w)"
  by (drule secures_frame [where F = E]) (auto elim: secures_weaken)

lemma secures_ok: "(\<And>w. E w \<Longrightarrow> P x w) \<Longrightarrow> secures E (ok x) P"
  by (simp add: secures_def)

lemma secures_stop: "secures E (fail e) P" "secures E (failE op) P"
  by (auto simp: secures_def intro!: failE_only dest: only_ext)

lemma secures_lift: "(\<And>x w. r = Inr x \<Longrightarrow> E w \<Longrightarrow> P x w) \<Longrightarrow> secures E (lift r) P"
  by (simp add: secures_def)

lemma secures_then:
  assumes "adds m" "lasting E" "\<And>a. secures E (f a) P"
  shows "secures E (m \<bind> f) P"
proof (rule securesI, unfold wp_bind, rule adds_bindI [OF addsD [OF assms(1)]])
  fix w a w' assume "E w" "ext w w'"
  then show "wp (f a) (\<lambda>r w''. ext w w'' \<and> (\<forall>x. r = Inr x \<longrightarrow> P x w'')) w'"
    by (auto intro!: wp_mono [OF securesD [OF assms(3)]] intro: lastingD [OF assms(2)] ext_trans)
qed

lemma secures_call:
  assumes E: "since w0 E"
    and f: "\<And>r. secures (\<lambda>w. E w \<and> saw (c, r) w0 w) (f r) P"
  shows "secures E (call c \<bind> f) P"
proof (rule securesI, unfold wp_bind, rule wp_call)
  fix w r assume w: "E w"
  then have "E (push c r w) \<and> saw (c, r) w0 (push c r w)"
    using E by (auto intro!: saw_push simp: since_def lasting_def)
  from securesD [OF f this] show "wp (f r) (\<lambda>r' w'. ext w w' \<and> (\<forall>x. r' = Inr x \<longrightarrow> P x w')) (push c r w)"
    by (rule wp_mono) (auto dest: ext_unpush)
qed

lemma secures_must:
  assumes "secures E m R" "\<And>x. secures (R x) (f x) P"
  shows "secures E (must m f) P"
  unfolding secures_def wp_must
  by (auto intro!: wp_mono [OF securesD [OF assms(1)]] wp_mono [OF securesD [OF assms(2)]]
      intro: ext_trans split: sum.split)

lemma secures_must_lift:
  "(\<And>x. r = Inr x \<Longrightarrow> secures E (f x) P) \<Longrightarrow> secures E (must (lift r) f) P"
  by (rule secures_must [where R = "\<lambda>x w. r = Inr x \<and> E w"]) (auto simp: secures_def)

lemma secures_run: "adds m \<Longrightarrow> secures E m (\<lambda>_ _. True)"
  by (auto simp: secures_def adds_def)

lemma secures_if:
  "(b \<Longrightarrow> secures E m P) \<Longrightarrow> (\<not> b \<Longrightarrow> secures E n P) \<Longrightarrow> secures E (if b then m else n) P"
  by simp

lemma secures_option:
  "(x = None \<Longrightarrow> secures E m P) \<Longrightarrow> (\<And>y. x = Some y \<Longrightarrow> secures E (f y) P) \<Longrightarrow>
   secures E (case x of None \<Rightarrow> m | Some y \<Rightarrow> f y) P"
  by (cases x) simp_all

lemma secures_sum:
  "(\<And>e. s = Inl e \<Longrightarrow> secures E (g e) P) \<Longrightarrow> (\<And>y. s = Inr y \<Longrightarrow> secures E (h y) P) \<Longrightarrow>
   secures E (case s of Inl e \<Rightarrow> g e | Inr y \<Rightarrow> h y) P"
  by (cases s) simp_all

lemma secures_step:
  "adds m \<Longrightarrow> lasting E \<Longrightarrow> (\<And>x. secures E (f x) P) \<Longrightarrow> secures E (must m f) P"
  unfolding must_def by (intro secures_then secures_sum secures_stop)

lemma secures_deferring:
  assumes "secures E m P" "adds d" "\<And>x. lasting (P x)"
  shows "secures E (deferring d m) P"
  unfolding secures_def wp_deferring
  by (auto intro!: wp_mono [OF securesD [OF assms(1)]] adds_bindI [OF addsD [OF assms(2)]]
      intro: ext_trans lastingD [OF assms(3)])

lemma secures_guards:
  "secures E m P \<Longrightarrow> secures E (addr0 buf m) P" "secures E m P \<Longrightarrow> secures E (addr_at buf n m) P"
  "(\<And>b. secures E (k b) P) \<Longrightarrow> secures E (slice_to buf n k) P"
  "(\<And>b. secures E (k b) P) \<Longrightarrow> secures E (make_bytes n k) P"
  unfolding guard_defs by (simp_all add: secures_stop)

text \<open>A handle of its own for the time of an operation.\<close>

lemma secures_temp:
  assumes "\<And>p. p \<noteq> NULL \<Longrightarrow> secures E (m p) P" "lasting E" "\<And>x. lasting (P x)"
  shows "secures E (do { p \<leftarrow> new k f hs as; if p = NULL then failE op else deferring (free k p) (m p) }) P"
  by (rule secures_then secures_if secures_stop secures_deferring adds assms | assumption)+

lemma secures_cstr:
  assumes "\<And>p. secures E (k (AStr p (c_string s))) P" "lasting E" "\<And>x. lasting (P x)"
  shows "secures E (with_cstr s k) P"
  unfolding with_cstr_def
  by (rule secures_then secures_if secures_stop secures_deferring adds assms)+

lemma secures_lock:
  assumes "secures E m P" "lasting E" "\<And>x. lasting (P x)"
  shows "secures E (with_lock mu m) P" "secures E (with_rlock mu m) P"
  unfolding with_lock_def with_rlock_def
  by (rule secures_then secures_deferring adds assms)+

lemma secures_with_params:
  assumes kvs: "list_all2 pstep_ok ss kvs"
    and k: "\<And>ps. param_view ps = kvs \<Longrightarrow> secures E (k ps) P"
    and E: "lasting E" "\<And>x. lasting (P x)"
  shows "secures E (with_params ss k) P"
proof (rule securesI, unfold with_params_def wp_bind, rule wp_p_stepsI [OF kvs wf_newParams], goal_cases)
  case (1 w p w1)
  then show ?case
    by (auto intro!: adds_bindI [OF addsD [OF anything.passes_drop]] dest!: grows_mem only_ext intro: ext_trans)
next
  case (2 w p w1)
  have e: "ext w w1" by (rule only_ext [OF grows_mem [OF 2(3)]])
  have "wp (use_c p k) (\<lambda>r w'. ext w w' \<and> (\<forall>x. r = Inr x \<longrightarrow> P x w')) w1"
  proof (rule wp_use_c [OF 2(2,3)])
    fix ps assume "reads_params w (param_view (p_list p)) ps w1"
    then have "param_view ps = kvs" using 2(4) by (simp add: reads_defs)
    from securesD [OF k [OF this] lastingD [OF E(1) 2(1) e]]
    show "wp (k ps) (\<lambda>r w'. ext w w' \<and> (\<forall>x. r = Inr x \<longrightarrow> P x w')) w1"
      by (rule wp_mono) (auto intro: ext_trans [OF e])
  qed
  then show ?case
    by (auto elim!: wp_mono intro!: adds_bindI [OF addsD [OF anything.passes_drop]] intro: ext_trans lastingD [OF E(2)])
qed

text \<open>From a proof about an operation to a statement about its run.\<close>

lemma secures_result:
  "secures (ext w) m P \<Longrightarrow> run_state m w = (Inr x, w') \<Longrightarrow> P x w'"
  unfolding secures_def wp_def by (drule spec [of _ w]) simp

lemma answeredI: "saw (c, r) w0 w \<Longrightarrow> R r \<Longrightarrow> answered w0 R c w"
  unfolding answered_def by blast

lemma secures_onerr_fail:
  assumes "secures E m R" "\<And>e. adds (h e)" "\<And>e w. isl (fst (run_state (h e) w))" "\<And>x. secures (R x) (f x) P"
  shows "secures E (onerr m h f) P"
proof -
  have h: "wp (h e) (\<lambda>r w'. ext w w' \<and> (\<forall>x. r = Inr x \<longrightarrow> P x w')) w1" if "ext w w1" for e w w1
    using addsD [OF assms(2), of e w1] assms(3) [of e w1] that
    by (auto simp: wp_def isl_def split: prod.splits intro: ext_trans)
  show ?thesis
    unfolding secures_def wp_onerr
    by (auto intro!: wp_mono [OF securesD [OF assms(1)]] wp_mono [OF securesD [OF assms(4)]] h
        intro: ext_trans split: sum.split)
qed

text \<open>An operation ran to this result.\<close>

definition ran :: "world \<Rightarrow> 'a go \<Rightarrow> 'a \<Rightarrow> world \<Rightarrow> bool" where
  "ran w0 m x w \<longleftrightarrow> (\<exists>w1 w2. ext w0 w1 \<and> run_state m w1 = (Inr x, w2) \<and> ext w2 w)"

lemma lasting_ran [lasting]: "lasting (ran w0 m x)"
  unfolding lasting_def ran_def by (blast intro: ext_trans)

lemma secures_ran:
  assumes E: "since w0 E" and m: "adds m"
  shows "secures E m (\<lambda>x w. E w \<and> ran w0 m x w)"
proof (rule securesI, rule wpI)
  fix w a w' assume w: "E w" and r: "run_state m w = (a, w')"
  have e: "ext w w'" using addsD [OF m, of w] r by (simp add: wp_def)
  then show "ext w w' \<and> (\<forall>x. a = Inr x \<longrightarrow> E w' \<and> ran w0 m x w')"
    using E w r by (auto simp: since_def ran_def intro: lastingD)
qed

end
