(* ===== verification/Concurrency.thy ===== *)
theory Concurrency
  imports Aead Cipher_Sym Evidence
begin

text \<open>
  One AEAD, or one Cipher or KeyWrap, shared by goroutines (cipher.go, cipher_sym.go): any number of
  them seal and open under the read lock of the object while others close it under the write lock.
  The first part shows of the methods themselves that each call is one critical section. The second
  part interleaves such calls step by step.
\<close>

section \<open>Each method is one critical section\<close>

fun is_lock :: "ccall \<Rightarrow> bool" where
  "is_lock (Mu op mu) = True"
| "is_lock c = False"

text \<open>The C calls of a run lie between one acquisition of the lock and its release, and take no other.\<close>

definition guarded :: "lockop \<Rightarrow> lockop \<Rightarrow> (world, 'a) state \<Rightarrow> bool" where
  "guarded l u m \<longleftrightarrow> (\<forall>w. wp m (\<lambda>_ w'. \<exists>es r1 r2. list_all (\<lambda>e. \<not> is_lock (fst e)) es
     \<and> hist w' = (Mu u MuObject, r2) # es @ (Mu l MuObject, r1) # hist w) w)"

lemma guarded_lock:
  assumes "passes (\<lambda>c. \<not> is_lock c) m"
  shows "guarded RLock RUnlock (with_rlock MuObject m)" "guarded Lock Unlock (with_lock MuObject m)"
proof -
  have h: "wp m (\<lambda>_ w'. \<exists>es r1'. list_all (\<lambda>e. \<not> is_lock (fst e)) es \<and> hist w' = es @ (Mu l MuObject, r1') # hist w)
      (push (Mu l MuObject) r w)" for l r w
    by (rule wp_mono [OF passesD [OF assms]]) (auto simp: only_def comp_def)
  show "guarded RLock RUnlock (with_rlock MuObject m)" "guarded Lock Unlock (with_lock MuObject m)"
    unfolding guarded_def with_rlock_def with_lock_def wp_bind wp_deferring wp_return
    by (intro allI, rule wp_call, rule wp_mono [OF h], rule wp_call, force)+
qed

interpretation unlocked: call_policy "\<lambda>c. \<not> is_lock c"
proof
  fix c show "mem_call c \<Longrightarrow> \<not> is_lock c" "err_call c \<Longrightarrow> \<not> is_lock c"
    by (cases c; simp)+
qed

lemma unlocked_simp [simp]:
  "\<not> is_lock (New k f hs as)" "\<not> is_lock (NewOut x k f hs as)" "\<not> is_lock (Do f hs as)" "\<not> is_lock (Free k p)"
  "\<not> is_lock (Cleanse b)" "\<not> is_lock ERR_clear_error"
  by simp_all

lemma wp_ifI: "(b \<Longrightarrow> wp m Q w) \<Longrightarrow> (\<not> b \<Longrightarrow> wp n Q w) \<Longrightarrow> wp (if b then m else n) Q w"
  by simp

lemma init_unlocked: "pstep_ok tagParam kv \<Longrightarrow> passes (\<lambda>c. \<not> is_lock c) (init_with enc ctx a nonce tagParam)"
  unfolding passes_def
proof (intro allI)
  fix w assume kv: "pstep_ok tagParam kv"
  have keyed: "passes (\<lambda>c. \<not> is_lock c) (init_keyed enc op hs a nonce ps)" for op hs ps
    unfolding init_keyed_def by (rule unlocked.passes_rules unlocked_simp)+
  show "wp (init_with enc ctx a nonce tagParam) (\<lambda>_ w'. only (\<lambda>c. \<not> is_lock c) w w') w"
    unfolding init_with_def
  proof (rule wp_with_chain_trace [where P = "\<lambda>_ w1 w2. only (\<lambda>c. \<not> is_lock c) w1 w2"])
    show "list_all2 pstep_ok [SizeT pKeyIVLen (a_nonce a), tagParam]
        [(c_string pKeyIVLen, PSizeT (c_size_t (a_nonce a))), kv]"
      using kv pstep_oks(5) [of pKeyIVLen] by simp
  next
    fix p w1 assume p: "wf_params p" "grows newParams w p w1"
    have u: "wp (use_c p k) (\<lambda>_ w2. only (\<lambda>c. \<not> is_lock c) w1 w2) w1"
      if "\<And>ps. passes (\<lambda>c. \<not> is_lock c) (k ps)" for k :: "OSSL_PARAM list \<Rightarrow> unit go"
      by (rule wp_use_c [OF p passesD [OF that]])
    have g: "wp (addr0 b m) (\<lambda>_ w2. only (\<lambda>c. \<not> is_lock c) w1 w2) w1"
      if "wp m (\<lambda>_ w2. only (\<lambda>c. \<not> is_lock c) w1 w2) w1" for b :: "byte list" and m :: "unit go"
      using that by (simp add: addr0_def)
    show "wp (if a_ccm a then use_c p (\<lambda>ps. do {
           r \<leftarrow> call (Do (evp enc ''Init_ex2'') [(HCipherCtx, ctx), (HCipher, a_cipher a)] [ANull, ANull, AParams ps]);
           if rc r \<noteq> 1 then failE (evp enc ''Init_ex2(sizes)'')
           else addr0 (a_key a) (addr0 nonce
             (init_keyed enc (evp enc ''Init_ex2(key+iv)'') [(HCipherCtx, ctx)] a nonce ANull))
         })
         else addr0 (a_key a) (addr0 nonce (use_c p (\<lambda>ps.
           init_keyed enc (evp enc ''Init_ex2'') [(HCipherCtx, ctx), (HCipher, a_cipher a)] a nonce (AParams ps)))))
        (\<lambda>_ w2. only (\<lambda>c. \<not> is_lock c) w1 w2) w1"
      by (intro wp_ifI u g) (rule unlocked.passes_rules keyed unlocked_simp)+
  qed (blast intro: only_trans unlocked.from_mem)+
qed

lemma read_tag_unlocked: "passes (\<lambda>c. \<not> is_lock c) (read_tag ctx n)"
  unfolding read_tag_def
  by (rule unlocked.passes_rules unlocked_simp | use pstep_OctetsOut in \<open>auto simp: psteps_ok_def\<close>)+

lemma aead_unlocked:
  "passes (\<lambda>c. \<not> is_lock c) (seal_in ctx a dst nonce pt aad)" "passes (\<lambda>c. \<not> is_lock c) (open_in ctx a dst nonce xs tag aad)"
proof -
  have i: "passes (\<lambda>c. \<not> is_lock c) (initEncrypt ctx a nonce)" "passes (\<lambda>c. \<not> is_lock c) (initDecrypt ctx a nonce tag)"
    unfolding initEncrypt_def initDecrypt_def by (auto intro: init_unlocked pstep_oks)
  show "passes (\<lambda>c. \<not> is_lock c) (seal_in ctx a dst nonce pt aad)" "passes (\<lambda>c. \<not> is_lock c) (open_in ctx a dst nonce xs tag aad)"
    unfolding seal_in_def seal_headers_def seal_data_def seal_finish_def open_in_def open_headers_def open_data_def
      open_finish_def declare_update_def Zero_def
    by (rule unlocked.passes_rules unlocked_simp i read_tag_unlocked | simp)+
qed

lemma cipher_unlocked:
  "passes (\<lambda>c. \<not> is_lock c) (Encrypt_body x dst iv pt)" "passes (\<lambda>c. \<not> is_lock c) (Decrypt_body x dst iv ct)"
  "passes (\<lambda>c. \<not> is_lock c) (KeyWrap_run w xs enc)"
  unfolding Encrypt_body_def Decrypt_body_def checkIV_def Cipher_run_def KeyWrap_run_def run_in_def set_padding_def
    run_update_def run_final_def Zero_def
  by (rule unlocked.passes_rules unlocked_simp | simp)+

text \<open>A run that gives \<open>v\<close> and whose only calls are \<open>cs\<close>, the latest first, between lock and release.\<close>

definition section_of :: "lockop \<Rightarrow> lockop \<Rightarrow> ccall list \<Rightarrow> 'a \<Rightarrow> (world, 'a) state \<Rightarrow> bool" where
  "section_of l u cs v m \<longleftrightarrow> (\<forall>w. wp m (\<lambda>r w'. r = v
     \<and> map fst (hist w') = Mu u MuObject # cs @ Mu l MuObject # map fst (hist w)) w)"

definition releases :: "ptr \<Rightarrow> byte list \<Rightarrow> ccall list" where
  "releases p key = (if key = [] then [Free HCipher p] else [Cleanse key, Free HCipher p])"

lemmas section_simps = section_of_def releases_def with_rlock_def with_lock_def wp_bind wp_deferring wp_call_eq wp_return
  free_def Zero_def fail_def ok_def

lemma closed_sections:
  "section_of RLock RUnlock [] (Inl ErrClosed) (SealErr (Some (a\<lparr>a_closed := True\<rparr>)) dst nonce pt aad)"
  "section_of RLock RUnlock [] (Inl ErrClosed) (AEAD_Open (Some (a\<lparr>a_closed := True\<rparr>)) dst nonce ct aad)"
  "section_of RLock RUnlock [] (Inl ErrClosed) (Cipher_Encrypt (Some (x\<lparr>x_closed := True\<rparr>)) dst iv pt)"
  "section_of RLock RUnlock [] (Inl ErrClosed) (Cipher_Decrypt (Some (x\<lparr>x_closed := True\<rparr>)) dst iv ct)"
  "section_of RLock RUnlock [] (Inl ErrClosed) (Wrap (Some (k\<lparr>k_closed := True\<rparr>)) pt)"
  "section_of RLock RUnlock [] (Inl ErrClosed) (Unwrap (Some (k\<lparr>k_closed := True\<rparr>)) ct)"
  by (simp_all add: section_simps SealErr_def AEAD_Open_def Cipher_Encrypt_def Cipher_Decrypt_def Wrap_def Unwrap_def)

lemma close_sections:
  "section_of Lock Unlock (if a_closed a then [] else releases (a_cipher a) (a_key a))
     (Inr (Some (if a_closed a then a else a\<lparr>a_cipher := NULL, a_key := [], a_closed := True\<rparr>))) (AEAD_Close (Some a))"
  "section_of Lock Unlock (if x_closed x then [] else releases (x_cipher x) (x_key x))
     (Inr (Some (if x_closed x then x else x\<lparr>x_cipher := NULL, x_key := [], x_closed := True\<rparr>))) (Cipher_Close (Some x))"
  "section_of Lock Unlock (if k_closed k then [] else releases (k_cipher k) (k_kek k))
     (Inr (Some (if k_closed k then k else k\<lparr>k_cipher := NULL, k_kek := [], k_closed := True\<rparr>))) (KeyWrap_Close (Some k))"
  by (simp_all add: section_simps AEAD_Close_def Cipher_Close_def KeyWrap_Close_def)

text \<open>
  C38: every method call on an AEAD, Cipher or KeyWrap is one critical section. It takes the lock of the
  object first -- for reading when it seals, opens, encrypts, decrypts or wraps, for writing when it
  closes --, makes all its C calls under it, takes no lock a second time, and gives it back last,
  however it ends. On a closed object it makes no call under the lock and returns \<open>ErrClosed\<close>; closing
  an open one releases the cipher once, cleanses the key and marks the object, and closing it again
  does nothing.
\<close>

theorem Methods_guarded:
  "((guarded RLock RUnlock (SealErr (Some a) dst nonce pt aad) \<and> guarded RLock RUnlock (AEAD_Open (Some a) dst nonce ct aad))
      \<and> (guarded RLock RUnlock (Cipher_Encrypt (Some x) dst iv pt) \<and> guarded RLock RUnlock (Cipher_Decrypt (Some x) dst iv ct))
      \<and> guarded RLock RUnlock (Wrap (Some k) pt) \<and> guarded RLock RUnlock (Unwrap (Some k) ct))
   \<and> ((section_of RLock RUnlock [] (Inl ErrClosed) (SealErr (Some (a\<lparr>a_closed := True\<rparr>)) dst nonce pt aad)
        \<and> section_of RLock RUnlock [] (Inl ErrClosed) (AEAD_Open (Some (a\<lparr>a_closed := True\<rparr>)) dst nonce ct aad))
      \<and> (section_of RLock RUnlock [] (Inl ErrClosed) (Cipher_Encrypt (Some (x\<lparr>x_closed := True\<rparr>)) dst iv pt)
        \<and> section_of RLock RUnlock [] (Inl ErrClosed) (Cipher_Decrypt (Some (x\<lparr>x_closed := True\<rparr>)) dst iv ct))
      \<and> section_of RLock RUnlock [] (Inl ErrClosed) (Wrap (Some (k\<lparr>k_closed := True\<rparr>)) pt)
      \<and> section_of RLock RUnlock [] (Inl ErrClosed) (Unwrap (Some (k\<lparr>k_closed := True\<rparr>)) ct))
   \<and> (section_of Lock Unlock (if a_closed a then [] else releases (a_cipher a) (a_key a))
        (Inr (Some (if a_closed a then a else a\<lparr>a_cipher := NULL, a_key := [], a_closed := True\<rparr>))) (AEAD_Close (Some a))
      \<and> section_of Lock Unlock (if x_closed x then [] else releases (x_cipher x) (x_key x))
        (Inr (Some (if x_closed x then x else x\<lparr>x_cipher := NULL, x_key := [], x_closed := True\<rparr>))) (Cipher_Close (Some x))
      \<and> section_of Lock Unlock (if k_closed k then [] else releases (k_cipher k) (k_kek k))
        (Inr (Some (if k_closed k then k else k\<lparr>k_cipher := NULL, k_kek := [], k_closed := True\<rparr>))) (KeyWrap_Close (Some k)))"
proof -
  have g: "guarded RLock RUnlock (SealErr (Some a) dst nonce pt aad)" "guarded RLock RUnlock (AEAD_Open (Some a) dst nonce ct aad)"
    "guarded RLock RUnlock (Cipher_Encrypt (Some x) dst iv pt)" "guarded RLock RUnlock (Cipher_Decrypt (Some x) dst iv ct)"
    "guarded RLock RUnlock (Wrap (Some k) pt)" "guarded RLock RUnlock (Unwrap (Some k) ct)"
    unfolding SealErr_def AEAD_Open_def Cipher_Encrypt_def Cipher_Decrypt_def Wrap_def Unwrap_def option.case Zero_def
    by (intro guarded_lock; (rule unlocked.passes_rules unlocked_simp aead_unlocked cipher_unlocked | simp)+)+
  show ?thesis by (intro conjI g closed_sections close_sections)
qed

section \<open>Goroutines on one object\<close>

text \<open>
  Where a goroutine stands in its call. A reader is about to take the read lock with \<open>n\<close> C calls
  to make, has it, has found the object open and makes its calls -- any of which may be its last, on an
  error --, or is about to give the lock back; a closer waits for other writers, for the readers,
  has the lock, has released the cipher, or is about to give the lock back.
\<close>

datatype pc = RWant nat | RIn nat | RUse nat | ROut | WWant | WPend | WIn | WFreed | WOut | Finished

text \<open>
  The lock, with the readers that hold it and the writer that has announced itself, and the
  object: its \<open>closed\<close> field, how often \<open>EVP_CIPHER_free\<close> was called on its cipher, and whether
  a call used the cipher after that.
\<close>

record shared =
  rd :: "nat set"
  wr :: "nat option"
  sh_closed :: bool
  freed :: nat
  misused :: bool
  pcs :: "nat \<Rightarrow> pc"

definition goes :: "nat \<Rightarrow> pc \<Rightarrow> shared \<Rightarrow> shared" where
  "goes i p s = s\<lparr>pcs := (pcs s)(i := p)\<rparr>"

text \<open>\<open>sync.RWMutex\<close>: an announced writer holds back new readers and waits for those that are in.\<close>

inductive read_step :: "nat \<Rightarrow> shared \<Rightarrow> shared \<Rightarrow> bool" for i where
  rlock: "pcs s i = RWant n \<Longrightarrow> wr s = None \<Longrightarrow> read_step i s (goes i (RIn n) (s\<lparr>rd := insert i (rd s)\<rparr>))"
| is_closed: "pcs s i = RIn n \<Longrightarrow> sh_closed s \<Longrightarrow> read_step i s (goes i ROut s)"
| is_open: "pcs s i = RIn n \<Longrightarrow> \<not> sh_closed s \<Longrightarrow> read_step i s (goes i (RUse n) s)"
| uses: "pcs s i = RUse (Suc n) \<Longrightarrow> read_step i s (goes i (RUse n) (s\<lparr>misused := (misused s \<or> freed s > 0)\<rparr>))"
| returns: "pcs s i = RUse n \<Longrightarrow> read_step i s (goes i ROut s)"
| runlock: "pcs s i = ROut \<Longrightarrow> read_step i s (goes i Finished (s\<lparr>rd := rd s - {i}\<rparr>))"

inductive close_step :: "nat \<Rightarrow> shared \<Rightarrow> shared \<Rightarrow> bool" for i where
  announce: "pcs s i = WWant \<Longrightarrow> wr s = None \<Longrightarrow> close_step i s (goes i WPend (s\<lparr>wr := Some i\<rparr>))"
| locks: "pcs s i = WPend \<Longrightarrow> rd s = {} \<Longrightarrow> close_step i s (goes i WIn s)"
| closed_before: "pcs s i = WIn \<Longrightarrow> sh_closed s \<Longrightarrow> close_step i s (goes i WOut s)"
| frees: "pcs s i = WIn \<Longrightarrow> \<not> sh_closed s \<Longrightarrow> close_step i s (goes i WFreed (s\<lparr>freed := Suc (freed s)\<rparr>))"
| marks: "pcs s i = WFreed \<Longrightarrow> close_step i s (goes i WOut (s\<lparr>sh_closed := True\<rparr>))"
| unlocks: "pcs s i = WOut \<Longrightarrow> close_step i s (goes i Finished (s\<lparr>wr := None\<rparr>))"

inductive_cases read_stepE: "read_step i s s'"
inductive_cases close_stepE: "close_step i s s'"

definition someone_steps :: "shared \<Rightarrow> shared \<Rightarrow> bool" where
  "someone_steps s s' \<longleftrightarrow> (\<exists>i. read_step i s s' \<or> close_step i s s')"

text \<open>The goroutines of \<open>T\<close>, those of \<open>W\<close> to close, before any has started on an open object.\<close>

definition starts :: "nat set \<Rightarrow> nat set \<Rightarrow> shared \<Rightarrow> bool" where
  "starts T W s \<longleftrightarrow> finite T \<and> W \<subseteq> T \<and> rd s = {} \<and> wr s = None \<and> \<not> sh_closed s \<and> freed s = 0 \<and> \<not> misused s
     \<and> (\<forall>i. if i \<in> W then pcs s i = WWant else if i \<in> T then \<exists>n. pcs s i = RWant n else pcs s i = Finished)"

inductive reaches :: "shared \<Rightarrow> shared \<Rightarrow> bool" for s0 where
  started: "reaches s0 s0"
| then_step: "reaches s0 s \<Longrightarrow> someone_steps s s' \<Longrightarrow> reaches s0 s'"

section \<open>Safety\<close>

text \<open>What each position implies.\<close>

definition reading :: "pc \<Rightarrow> bool" where
  "reading p \<longleftrightarrow> (\<exists>n. p = RIn n \<or> p = RUse n) \<or> p = ROut"

definition writing :: "pc \<Rightarrow> bool" where
  "writing p \<longleftrightarrow> p = WIn \<or> p = WFreed \<or> p = WOut"

definition shared_inv :: "nat set \<Rightarrow> shared \<Rightarrow> bool" where
  "shared_inv W s \<longleftrightarrow> (\<forall>i. i \<in> rd s \<longleftrightarrow> reading (pcs s i)) \<and> (\<forall>i. wr s = Some i \<longleftrightarrow> writing (pcs s i) \<or> pcs s i = WPend)
     \<and> (\<forall>i. writing (pcs s i) \<longrightarrow> rd s = {})
     \<and> (\<forall>i n. pcs s i = RUse n \<longrightarrow> \<not> sh_closed s)
     \<and> (\<forall>i. pcs s i = WFreed \<longrightarrow> \<not> sh_closed s \<and> freed s = 1)
     \<and> (sh_closed s \<longrightarrow> freed s = 1) \<and> (\<not> sh_closed s \<and> (\<forall>i. pcs s i \<noteq> WFreed) \<longrightarrow> freed s = 0)
     \<and> \<not> misused s
     \<and> (\<forall>i \<in> W. pcs s i = WOut \<or> pcs s i = Finished \<longrightarrow> sh_closed s)
     \<and> (\<forall>i \<in> W. \<not> reading (pcs s i) \<and> (\<forall>n. pcs s i \<noteq> RWant n))
     \<and> (\<forall>i. pcs s i = WOut \<longrightarrow> sh_closed s)"

lemma shared_inv_start: "starts T W s \<Longrightarrow> shared_inv W s"
  by (auto simp: starts_def shared_inv_def reading_def writing_def split: if_splits) (metis pc.distinct pc.simps)+

lemma goes_sel [simp]:
  "rd (goes i p s) = rd s" "wr (goes i p s) = wr s" "sh_closed (goes i p s) = sh_closed s" "freed (goes i p s) = freed s"
  "misused (goes i p s) = misused s" "pcs (goes i p s) = (pcs s)(i := p)"
  by (simp_all add: goes_def)

lemmas kinds = reading_def writing_def

lemma inv_read: "read_step i s s' \<Longrightarrow> shared_inv W s \<Longrightarrow> shared_inv W s'"
proof (induction rule: read_step.induct)
  case (rlock s n)
  have "\<not> writing (pcs s j) \<and> pcs s j \<noteq> WPend" for j using rlock unfolding shared_inv_def by (metis option.distinct(1))
  with rlock show ?case unfolding shared_inv_def by (auto simp: kinds)
next
  case (uses s n)
  then show ?case unfolding shared_inv_def by (auto simp: kinds)
qed (unfold shared_inv_def; auto simp: kinds)+

lemma one_writer: "shared_inv W s \<Longrightarrow> wr s = Some i \<Longrightarrow> writing (pcs s j) \<or> pcs s j = WPend \<Longrightarrow> j = i"
  unfolding shared_inv_def by (metis option.inject)

lemma inv_close: "close_step i s s' \<Longrightarrow> shared_inv W s \<Longrightarrow> shared_inv W s'"
proof (induction rule: close_step.induct)
  case (announce s)
  then show ?case unfolding shared_inv_def by (auto simp: kinds)
next
  case (locks s)
  then have "wr s = Some i" unfolding shared_inv_def kinds by blast
  moreover from this have "pcs s j \<noteq> WFreed" for j using one_writer [OF locks(3), of i j] locks(1) by (auto simp: kinds)
  ultimately show ?case using locks unfolding shared_inv_def by (auto simp: kinds)
next
  case (closed_before s)
  then have "wr s = Some i" unfolding shared_inv_def kinds by blast
  with closed_before show ?case unfolding shared_inv_def by (auto simp: kinds)
next
  case (frees s)
  then have "wr s = Some i" unfolding shared_inv_def kinds by blast
  moreover from this have "pcs s j \<noteq> WFreed" for j using one_writer [OF frees(3), of i j] frees(1) by (auto simp: kinds)
  ultimately show ?case using frees unfolding shared_inv_def by (auto simp: kinds)
next
  case (marks s)
  then have "wr s = Some i" unfolding shared_inv_def kinds by blast
  with marks show ?case unfolding shared_inv_def by (auto simp: kinds)
next
  case (unlocks s)
  then have "wr s = Some i" unfolding shared_inv_def kinds by blast
  with unlocks show ?case unfolding shared_inv_def by (auto simp: kinds)
qed

lemma inv_reach: "reaches s0 s \<Longrightarrow> shared_inv W s0 \<Longrightarrow> shared_inv W s"
  by (induction rule: reaches.induct) (auto simp: someone_steps_def intro: inv_read inv_close)

text \<open>
  C6: closing while others seal. Whatever the interleaving of any number of sealing, opening and
  closing goroutines, no C call uses the cipher after it was released, the cipher is released at most
  once, never while a goroutine is between taking and giving back the read lock, and a goroutine that
  found the object open still finds it so at each of its calls.
\<close>

theorem Close_excludes:
  assumes "starts T W s0" "reaches s0 s"
  shows "\<not> misused s \<and> freed s \<le> 1 \<and> (\<forall>i j. writing (pcs s i) \<longrightarrow> \<not> reading (pcs s j) \<and> (writing (pcs s j) \<longrightarrow> i = j))
    \<and> (\<forall>i n. pcs s i = RUse n \<longrightarrow> \<not> sh_closed s \<and> freed s = 0)"
proof -
  have I: "shared_inv W s" by (rule inv_reach [OF assms(2) shared_inv_start [OF assms(1)]])
  have "freed s \<le> 1" using I unfolding shared_inv_def by (metis le_numeral_extra(4) zero_le)
  moreover have "\<not> reading (pcs s j) \<and> (writing (pcs s j) \<longrightarrow> i = j)" if "writing (pcs s i)" for i j
    using that I unfolding shared_inv_def by (metis empty_iff option.inject)
  moreover have "\<not> sh_closed s \<and> freed s = 0" if u: "pcs s i = RUse n" for i n
  proof -
    have "reading (pcs s i)" using u by (simp add: reading_def)
    then have "i \<in> rd s" using I by (simp add: shared_inv_def)
    then have "pcs s j \<noteq> WFreed" for j using I unfolding shared_inv_def writing_def by (metis empty_iff)
    then show ?thesis using I u unfolding shared_inv_def by blast
  qed
  ultimately show ?thesis using I unfolding shared_inv_def by blast
qed

section \<open>Liveness\<close>

text \<open>What a goroutine has still to do, at most.\<close>

fun to_do :: "pc \<Rightarrow> nat" where
  "to_do (RWant n) = n + 4"
| "to_do (RIn n) = n + 3"
| "to_do (RUse n) = n + 2"
| "to_do ROut = 1"
| "to_do WWant = 5"
| "to_do WPend = 4"
| "to_do WIn = 3"
| "to_do WFreed = 2"
| "to_do WOut = 1"
| "to_do Finished = 0"

lemma left_step: "read_step i s s' \<or> close_step i s s' \<Longrightarrow>
    to_do (pcs s' i) < to_do (pcs s i) \<and> (\<forall>j. j \<noteq> i \<longrightarrow> pcs s' j = pcs s j)"
  by (elim disjE read_stepE close_stepE) auto

lemma left_zero: "to_do p = 0 \<longleftrightarrow> p = Finished"
  by (cases p) auto

lemma total_step:
  assumes "finite T" "\<forall>i. i \<notin> T \<longrightarrow> pcs s i = Finished" "someone_steps s s'"
  shows "(\<Sum>i\<in>T. to_do (pcs s' i)) < (\<Sum>i\<in>T. to_do (pcs s i))" "\<forall>i. i \<notin> T \<longrightarrow> pcs s' i = Finished"
proof -
  obtain i where i: "to_do (pcs s' i) < to_do (pcs s i)" and o: "\<And>j. j \<noteq> i \<Longrightarrow> pcs s' j = pcs s j"
    using assms(3) left_step unfolding someone_steps_def by blast
  have T: "i \<in> T" using i assms(2) by (metis to_do.simps(10) not_less_zero)
  show "(\<Sum>i\<in>T. to_do (pcs s' i)) < (\<Sum>i\<in>T. to_do (pcs s i))"
    by (rule sum_strict_mono_ex1 [OF assms(1)]) (use i o T in \<open>metis order.refl less_imp_le\<close>, use i T in blast)
  show "\<forall>i. i \<notin> T \<longrightarrow> pcs s' i = Finished" using o T assms(2) by metis
qed

text \<open>Somebody can always go on.\<close>

lemma reader_moves: "reading p \<Longrightarrow> pcs s i = p \<Longrightarrow> \<exists>s'. read_step i s s'"
  unfolding reading_def by (cases "sh_closed s") (auto intro: read_step.intros)

lemma no_deadlock:
  assumes I: "shared_inv W s" and i: "pcs s i \<noteq> Finished"
  shows "\<exists>s'. someone_steps s s'"
proof (cases "wr s")
  case None
  then have "\<not> writing (pcs s i)" "pcs s i \<noteq> WPend" using I unfolding shared_inv_def by auto
  then have "(\<exists>n. pcs s i = RWant n) \<or> reading (pcs s i) \<or> pcs s i = WWant"
    using i by (cases "pcs s i") (auto simp: kinds)
  then show ?thesis using None unfolding someone_steps_def by (metis reader_moves rlock announce)
next
  case (Some j)
  then consider "writing (pcs s j)" | "pcs s j = WPend" using I unfolding shared_inv_def by blast
  then show ?thesis
  proof cases
    case 1
    then have "\<exists>s'. close_step j s s'" unfolding writing_def by (cases "sh_closed s") (auto intro: close_step.intros)
    then show ?thesis unfolding someone_steps_def by blast
  next
    case 2
    show ?thesis
    proof (cases "rd s = {}")
      case True
      with 2 show ?thesis unfolding someone_steps_def by (blast intro: close_step.intros)
    next
      case False
      then obtain k where "reading (pcs s k)" using I unfolding shared_inv_def by blast
      then show ?thesis unfolding someone_steps_def by (blast dest: reader_moves)
    qed
  qed
qed

lemma steps_reach: "(someone_steps ^^ n) s0 s \<Longrightarrow> reaches s0 s"
  by (induction n arbitrary: s) (auto intro: reaches.intros)

lemma steps_total:
  assumes "finite T" "\<forall>i. i \<notin> T \<longrightarrow> pcs s0 i = Finished"
  shows "(someone_steps ^^ n) s0 s \<Longrightarrow> n + (\<Sum>i\<in>T. to_do (pcs s i)) \<le> (\<Sum>i\<in>T. to_do (pcs s0 i)) \<and> (\<forall>i. i \<notin> T \<longrightarrow> pcs s i = Finished)"
proof (induction n arbitrary: s)
  case (Suc n)
  then obtain s1 where s1: "(someone_steps ^^ n) s0 s1" "someone_steps s1 s" by auto
  from Suc.IH [OF s1(1)] show ?case using total_step [OF assms(1) _ s1(2)] by fastforce
qed (use assms in simp)

text \<open>
  C7: nobody waits for ever. An interleaving of sealing, opening and closing goroutines makes at most
  as many steps as they have to do together, and it stops only when every one of them has returned;
  if one of them was to close, the object is then closed and its cipher released exactly once.
\<close>

theorem Everyone_returns:
  assumes "starts T W s0" "(someone_steps ^^ n) s0 s"
  shows "n \<le> (\<Sum>i\<in>T. to_do (pcs s0 i))
    \<and> ((\<nexists>s'. someone_steps s s') \<longrightarrow> (\<forall>i. pcs s i = Finished) \<and> (W \<noteq> {} \<longrightarrow> sh_closed s \<and> freed s = 1))"
proof -
  have I: "shared_inv W s" by (rule inv_reach [OF steps_reach [OF assms(2)] shared_inv_start [OF assms(1)]])
  have T: "finite T" "\<forall>i. i \<notin> T \<longrightarrow> pcs s0 i = Finished"
    using assms(1) unfolding starts_def by (auto split: if_splits)
  have "\<forall>i. pcs s i = Finished" if "\<nexists>s'. someone_steps s s'" using no_deadlock [OF I] that by blast
  moreover have "sh_closed s \<and> freed s = 1" if "\<forall>i. pcs s i = Finished" "W \<noteq> {}"
    using I that unfolding shared_inv_def by blast
  ultimately show ?thesis using steps_total [OF T assms(2)] by fastforce
qed

text \<open>A reader finds the object open; a closer announces itself, waits, and closes after it.\<close>

definition st0 :: shared where
  "st0 = \<lparr>rd = {}, wr = None, sh_closed = False, freed = 0, misused = False, pcs = (\<lambda>_. Finished)(0 := RWant 1, 1 := WWant)\<rparr>"

definition st1 :: shared where "st1 = goes 0 (RIn 1) (st0\<lparr>rd := insert 0 (rd st0)\<rparr>)"
definition st2 :: shared where "st2 = goes 0 (RUse 1) st1"
definition st3 :: shared where "st3 = goes 1 WPend (st2\<lparr>wr := Some 1\<rparr>)"
definition st4 :: shared where "st4 = goes 0 (RUse 0) (st3\<lparr>misused := (misused st3 \<or> freed st3 > 0)\<rparr>)"
definition st5 :: shared where "st5 = goes 0 ROut st4"
definition st6 :: shared where "st6 = goes 0 Finished (st5\<lparr>rd := rd st5 - {0}\<rparr>)"
definition st7 :: shared where "st7 = goes 1 WIn st6"
definition st8 :: shared where "st8 = goes 1 WFreed (st7\<lparr>freed := Suc (freed st7)\<rparr>)"
definition st9 :: shared where "st9 = goes 1 WOut (st8\<lparr>sh_closed := True\<rparr>)"
definition st10 :: shared where "st10 = goes 1 Finished (st9\<lparr>wr := None\<rparr>)"

lemmas st_defs = st0_def st1_def st2_def st3_def st4_def st5_def st6_def st7_def st8_def st9_def st10_def

lemma st_starts: "starts {0, 1} {1} st0"
  by (auto simp: starts_def st0_def)

lemma st_steps:
  "someone_steps st0 st1" "someone_steps st1 st2" "someone_steps st2 st3" "someone_steps st3 st4" "someone_steps st4 st5"
  "someone_steps st5 st6" "someone_steps st6 st7" "someone_steps st7 st8" "someone_steps st8 st9" "someone_steps st9 st10"
proof -
  have "read_step 0 st0 st1" unfolding st1_def by (rule rlock) (simp_all add: st_defs)
  moreover have "read_step 0 st1 st2" unfolding st2_def by (rule is_open) (simp_all add: st_defs)
  moreover have "close_step 1 st2 st3" unfolding st3_def by (rule announce) (simp_all add: st_defs)
  moreover have "read_step 0 st3 st4" unfolding st4_def by (rule uses) (simp_all add: st_defs)
  moreover have "read_step 0 st4 st5" unfolding st5_def by (rule returns) (simp_all add: st_defs)
  moreover have "read_step 0 st5 st6" unfolding st6_def by (rule runlock) (simp_all add: st_defs)
  moreover have "close_step 1 st6 st7" unfolding st7_def by (rule locks) (simp_all add: st_defs)
  moreover have "close_step 1 st7 st8" unfolding st8_def by (rule frees) (simp_all add: st_defs)
  moreover have "close_step 1 st8 st9" unfolding st9_def by (rule marks) (simp_all add: st_defs)
  moreover have "close_step 1 st9 st10" unfolding st10_def by (rule unlocks) (simp_all add: st_defs)
  ultimately show "someone_steps st0 st1" "someone_steps st1 st2" "someone_steps st2 st3" "someone_steps st3 st4" "someone_steps st4 st5"
    "someone_steps st5 st6" "someone_steps st6 st7" "someone_steps st7 st8" "someone_steps st8 st9" "someone_steps st9 st10"
    unfolding someone_steps_def by blast+
qed

lemma Close_excludes_witness: "\<not> sh_closed st3 \<and> freed st3 = 0"
proof -
  have "reaches st0 st3" by (blast intro: reaches.intros st_steps)
  moreover have "pcs st3 0 = RUse 1" by (simp add: st_defs)
  ultimately show ?thesis using Close_excludes [OF st_starts] by blast
qed

lemma Everyone_returns_witness: "(\<forall>i. pcs st10 i = Finished) \<and> sh_closed st10 \<and> freed st10 = 1"
proof -
  have ten: "(someone_steps ^^ (Suc (Suc (Suc (Suc (Suc (Suc (Suc (Suc (Suc (Suc (0)))))))))))) st0 st10"
    by (rule relpowp_0_I | rule relpowp_Suc_I2 [where P = someone_steps], rule st_steps)+
  have "pcs st10 i = Finished" for i by (simp add: st_defs)
  then have "\<nexists>s'. someone_steps st10 s'" unfolding someone_steps_def by (auto elim!: read_stepE close_stepE)
  then show ?thesis using Everyone_returns [OF st_starts ten] by blast
qed

end
