(* ===== verification/Release.thy ===== *)
theory Release
  imports Errors
begin

text \<open>
  The releases that \<open>AtLeast\<close> (ossl.go) compares: major and minor, lexicographically. They are an
  instance of the library's linear orders, so that its facts apply to version gates.
\<close>

datatype release = Release (r_major: nat) (r_minor: nat)

instantiation release :: linorder
begin

definition less_eq_release :: "release \<Rightarrow> release \<Rightarrow> bool" where
  "v \<le> u \<longleftrightarrow> r_major v < r_major u \<or> r_major v = r_major u \<and> r_minor v \<le> r_minor u"

definition less_release :: "release \<Rightarrow> release \<Rightarrow> bool" where
  "v < u \<longleftrightarrow> v \<le> u \<and> \<not> u \<le> (v :: release)"

instance
  by intro_classes (auto simp: less_eq_release_def less_release_def intro: release.expand)

end

text \<open>The release in a number of \<open>OpenSSL_version_num\<close>.\<close>

definition release_of :: "64 word \<Rightarrow> release" where
  "release_of v = Release (unat (drop_bit 28 v AND 0xff)) (unat (drop_bit 20 v AND 0xff))"

lemma word_of_nonneg:
  assumes "0 \<le> m" "m < 2 ^ 63"
  shows "unat (word_of_int m :: 64 word) = nat m"
proof -
  have "m < 2 ^ 64" using assms(2) by simp
  then have "take_bit 64 m = m" using assms(1) by (simp add: take_bit_int_eq_self)
  then show ?thesis by (simp only: unat_eq_nat_uint uint_word_of_int_eq) simp
qed

text \<open>
  C39: \<open>AtLeast\<close> is the order of releases. For every major and minor that are not negative it says
  yes exactly when that release is at most the one that is running, in lexicographic order; so a
  program that asks for an older release is never refused where it is granted a newer one.
\<close>

theorem AtLeast_order:
  assumes "0 \<le> major" "major < 2 ^ 63" "0 \<le> minor" "minor < 2 ^ 63"
  shows "fst (run_state (AtLeast major minor) w)
      \<longleftrightarrow> Release (nat major) (nat minor) \<le> release_of (fst (run_state VersionNumber w))"
proof -
  have "at_least v major minor \<longleftrightarrow> Release (nat major) (nat minor) \<le> release_of v" for v
    using word_of_nonneg [OF assms(1,2)] word_of_nonneg [OF assms(3,4)]
    unfolding at_least_def release_of_def less_eq_release_def word_less_nat_alt word_le_nat_alt word_unat_eq_iff
    by (simp only: release.sel) metis
  then show ?thesis by (simp add: AtLeast_def VersionNumber_def exec_simps)
qed

text \<open>Release 3.5.2 is running.\<close>

lemma AtLeast_order_witness:
  "fst (run_state (AtLeast 3 5) (world_of (\<lambda>h c. (yes h)\<lparr>rcode := 0x30500020\<rparr>) []))
   \<and> \<not> fst (run_state (AtLeast 3 6) (world_of (\<lambda>h c. (yes h)\<lparr>rcode := 0x30500020\<rparr>) []))"
  using AtLeast_order [of 3 5 "world_of (\<lambda>h c. (yes h)\<lparr>rcode := 0x30500020\<rparr>) []"]
    AtLeast_order [of 3 6 "world_of (\<lambda>h c. (yes h)\<lparr>rcode := 0x30500020\<rparr>) []"]
  by (simp add: less_eq_release_def release_of_def VersionNumber_def exec_simps)

end
