(* ===== verification/Paths.thy ===== *)
theory Paths
  imports Libctx
begin

text \<open>
  The paths fips.go reads from the library: the configuration directory, the directory of provider
  modules, and where \<open>openssl fipsinstall\<close> writes. \<open>filepath.Join\<close> and \<open>filepath.Clean\<close> are those
  of Go on a system whose separator is the slash.
\<close>

section \<open>Paths of the standard library\<close>

fun split_at :: "char \<Rightarrow> string \<Rightarrow> string list" where
  "split_at c [] = [[]]"
| "split_at c (x # xs) = (if x = c then [] # split_at c xs
     else case split_at c xs of [] \<Rightarrow> [[x]] | y # ys \<Rightarrow> (x # y) # ys)"

text \<open>One component of a path, taken up from left to right; the last component comes first.\<close>

definition clean_component :: "bool \<Rightarrow> string \<Rightarrow> string list \<Rightarrow> string list" where
  "clean_component rooted c out =
     (if c = [] \<or> c = ''.'' then out
      else if c \<noteq> ''..'' then c # out
      else if out \<noteq> [] \<and> hd out \<noteq> ''..'' then tl out
      else if rooted then out
      else c # out)"

definition path_Clean :: "string \<Rightarrow> string" where
  "path_Clean path = (if path = [] then ''.''
     else let rooted = (hd path = CHR ''/'');
              out = fold (clean_component rooted) (split_at (CHR ''/'') path) [];
              s = (if rooted then ''/'' else []) @ strings_Join (rev out) ''/''
       in if s = [] then ''.'' else s)"

text \<open>Empty elements in front are skipped.\<close>

definition path_Join :: "string list \<Rightarrow> string" where
  "path_Join es = (case dropWhile (\<lambda>e. e = []) es of [] \<Rightarrow> [] | fs \<Rightarrow> path_Clean (strings_Join fs ''/''))"

section \<open>The directories of the library\<close>

text \<open>Constants of openssl/crypto.h.\<close>

definition OPENSSL_INFO_CONFIG_DIR :: int where "OPENSSL_INFO_CONFIG_DIR = 1001"
definition OPENSSL_INFO_MODULES_DIR :: int where "OPENSSL_INFO_MODULES_DIR = 1003"

definition ConfigDir :: "(world, string) state" where
  "ConfigDir = do { r \<leftarrow> call (Do ''OPENSSL_info'' [] [AInt OPENSSL_INFO_CONFIG_DIR]); ret (rstr r) }"

definition ModulesDir :: "(world, string) state" where
  "ModulesDir = do { r \<leftarrow> call (Do ''OPENSSL_info'' [] [AInt OPENSSL_INFO_MODULES_DIR]); ret (rstr r) }"

definition DefaultFIPSModuleConfig :: "(world, string) state" where
  "DefaultFIPSModuleConfig = do { d \<leftarrow> ConfigDir; ret (path_Join [d, ''fipsmodule.cnf'']) }"

section \<open>Properties\<close>

text \<open>Components that are names go through \<open>Clean\<close> unchanged.\<close>

lemma clean_names:
  "\<forall>c \<in> set cs. c \<noteq> [] \<and> c \<noteq> ''.'' \<and> c \<noteq> ''..'' \<Longrightarrow> fold (clean_component b) cs out = rev cs @ out"
  by (induction cs arbitrary: out) (simp_all add: clean_component_def)

lemma split_at_name: "c \<notin> set n \<Longrightarrow> split_at c n = [n]"
  by (induction n) auto

lemma split_at_ne [simp]: "split_at c xs \<noteq> []"
  by (induction xs) (auto split: list.splits)

lemma split_at_append: "split_at c (xs @ c # ys) = split_at c xs @ split_at c ys"
  by (induction xs) (auto split: list.splits)

lemma Clean_last:
  assumes "n \<noteq> []" "n \<noteq> ''.''" "n \<noteq> ''..''" "CHR ''/'' \<notin> set n" "d \<noteq> []"
  shows "path_Clean (d @ ''/'' @ n) = n \<or> (\<exists>p. path_Clean (d @ ''/'' @ n) = p @ ''/'' @ n)"
proof -
  let ?r = "hd d = CHR ''/''"
  define o1 where "o1 = fold (clean_component ?r) (split_at (CHR ''/'') d) []"
  have f: "fold (clean_component ?r) (split_at (CHR ''/'') (d @ CHR ''/'' # n)) [] = n # o1"
    using assms by (simp add: split_at_append split_at_name clean_component_def o1_def)
  have j: "strings_Join (cs @ [n]) ''/'' = (if cs = [] then n else strings_Join cs ''/'' @ ''/'' @ n)" for cs
    by (induction cs "''/''" rule: strings_Join.induct) auto
  show ?thesis
  proof (cases "rev o1 = []")
    case True
    then show ?thesis using assms(1,5) by (auto simp: path_Clean_def Let_def f intro!: exI [of _ "[]"])
  next
    case False
    then show ?thesis
      using assms(1,5) by (auto simp: path_Clean_def Let_def f j intro!: exI [of _ "CHR ''/'' # strings_Join (rev o1) ''/''"])
  qed
qed

lemma Clean_config: "path_Clean ''fipsmodule.cnf'' = ''fipsmodule.cnf''"
  by code_simp

text \<open>
  The default FIPS configuration is a file of that name, directly or in a directory, whatever
  the library says its own directory is.
\<close>

theorem FIPS_config_name:
  "case run_state DefaultFIPSModuleConfig w of (s, w') \<Rightarrow>
     s = ''fipsmodule.cnf'' \<or> (\<exists>p. s = p @ ''/'' @ ''fipsmodule.cnf'')"
  using Clean_last [of "''fipsmodule.cnf''"]
  by (auto simp: DefaultFIPSModuleConfig_def ConfigDir_def path_Join_def exec_simps Clean_config)

end
