(* ===== verification/Names.thy ===== *)
theory Names
  imports Prelude
begin

text \<open>
  names.go: the typed algorithm names. Each block of constants is a table from the Go name to
  the string OpenSSL is given; the constants other components use are definitions of their
  own. A named string type is a string.
\<close>

type_synonym name_table = "(string \<times> string) list"

text \<open>Message digests.\<close>

definition digest_constants :: name_table where
  "digest_constants =
    [(''SHA224'', ''SHA2-224''), (''SHA256'', ''SHA2-256''), (''SHA384'', ''SHA2-384''),
     (''SHA512'', ''SHA2-512''), (''SHA512_224'', ''SHA2-512/224''),
     (''SHA512_256'', ''SHA2-512/256''), (''SHA3_224'', ''SHA3-224''),
     (''SHA3_256'', ''SHA3-256''), (''SHA3_384'', ''SHA3-384''), (''SHA3_512'', ''SHA3-512''),
     (''SHAKE128'', ''SHAKE-128''), (''SHAKE256'', ''SHAKE-256''),
     (''BLAKE2b512'', ''BLAKE2B-512''), (''BLAKE2s256'', ''BLAKE2S-256''), (''SM3'', ''SM3''),
     (''RIPEMD160'', ''RIPEMD-160''), (''SHA1'', ''SHA1''), (''MD5'', ''MD5'')]"

text \<open>AEAD ciphers, for NewAEAD.\<close>

definition aead_constants :: name_table where
  "aead_constants =
    [(''AES128GCM'', ''AES-128-GCM''), (''AES192GCM'', ''AES-192-GCM''),
     (''AES256GCM'', ''AES-256-GCM''), (''AES128CCM'', ''AES-128-CCM''),
     (''AES192CCM'', ''AES-192-CCM''), (''AES256CCM'', ''AES-256-CCM''),
     (''AES128OCB'', ''AES-128-OCB''), (''AES192OCB'', ''AES-192-OCB''),
     (''AES256OCB'', ''AES-256-OCB''), (''ChaCha20Poly1305'', ''ChaCha20-Poly1305'')]"

text \<open>Block and stream ciphers, for NewCipher.\<close>

definition cipher_constants :: name_table where
  "cipher_constants =
    [(''AES128CBC'', ''AES-128-CBC''), (''AES192CBC'', ''AES-192-CBC''),
     (''AES256CBC'', ''AES-256-CBC''), (''AES128CTR'', ''AES-128-CTR''),
     (''AES192CTR'', ''AES-192-CTR''), (''AES256CTR'', ''AES-256-CTR''),
     (''AES128OFB'', ''AES-128-OFB''), (''AES256OFB'', ''AES-256-OFB''),
     (''AES128CFB'', ''AES-128-CFB''), (''AES256CFB'', ''AES-256-CFB''),
     (''AES128ECB'', ''AES-128-ECB''), (''AES256ECB'', ''AES-256-ECB''),
     (''AES128XTS'', ''AES-128-XTS''), (''AES256XTS'', ''AES-256-XTS''),
     (''ChaCha20'', ''ChaCha20''), (''Camellia128CBC'', ''CAMELLIA-128-CBC''),
     (''Camellia256CBC'', ''CAMELLIA-256-CBC''), (''ARIA128CBC'', ''ARIA-128-CBC''),
     (''ARIA256CBC'', ''ARIA-256-CBC''), (''ARIA128GCM'', ''ARIA-128-GCM''),
     (''ARIA256GCM'', ''ARIA-256-GCM''), (''SM4CBC'', ''SM4-CBC''), (''SM4GCM'', ''SM4-GCM'')]"

text \<open>Ciphers of the legacy provider.\<close>

definition legacy_cipher_constants :: name_table where
  "legacy_cipher_constants =
    [(''SEEDCBC'', ''SEED-CBC''), (''SEEDECB'', ''SEED-ECB''), (''SEEDCFB'', ''SEED-CFB''),
     (''SEEDOFB'', ''SEED-OFB'')]"

text \<open>Key wrapping ciphers.\<close>

definition wrap_constants :: name_table where
  "wrap_constants =
    [(''AES128Wrap'', ''AES-128-WRAP''), (''AES192Wrap'', ''AES-192-WRAP''),
     (''AES256Wrap'', ''AES-256-WRAP''), (''AES128WrapPad'', ''AES-128-WRAP-PAD''),
     (''AES192WrapPad'', ''AES-192-WRAP-PAD''), (''AES256WrapPad'', ''AES-256-WRAP-PAD'')]"

text \<open>Message authentication codes.\<close>

definition mac_constants :: name_table where
  "mac_constants =
    [(''HMAC'', ''HMAC''), (''CMAC'', ''CMAC''), (''GMAC'', ''GMAC''), (''KMAC128'', ''KMAC-128''),
     (''KMAC256'', ''KMAC-256''), (''Poly1305'', ''POLY1305''), (''SipHash'', ''SIPHASH''),
     (''BLAKE2bMAC'', ''BLAKE2BMAC''), (''BLAKE2sMAC'', ''BLAKE2SMAC'')]"

text \<open>Key derivation functions.\<close>

definition kdf_constants :: name_table where
  "kdf_constants =
    [(''KDFHKDF'', ''HKDF''), (''KDFPBKDF2'', ''PBKDF2''), (''KDFArgon2d'', ''ARGON2D''),
     (''KDFArgon2i'', ''ARGON2I''), (''KDFArgon2id'', ''ARGON2ID''), (''KDFScrypt'', ''SCRYPT''),
     (''KDFSSKDF'', ''SSKDF''), (''KDFX963'', ''X963KDF''), (''KDFX942'', ''X942KDF''),
     (''KDFX942Concat'', ''X942KDF-CONCAT''), (''KDFKBKDF'', ''KBKDF''),
     (''KDFTLS1PRF'', ''TLS1-PRF''), (''KDFTLS13'', ''TLS13-KDF''), (''KDFSSH'', ''SSHKDF''),
     (''KDFKrb5'', ''KRB5KDF''), (''KDFPKCS12'', ''PKCS12KDF''),
     (''KDFHMACDRBG'', ''HMAC-DRBG-KDF'')]"

text \<open>Classical asymmetric algorithms.\<close>

definition classical_constants :: name_table where
  "classical_constants =
    [(''RSA'', ''RSA''), (''RSAPSSKey'', ''RSA-PSS''), (''EC'', ''EC''),
     (''Ed25519'', ''ED25519''), (''Ed448'', ''ED448''), (''X25519'', ''X25519''),
     (''X448'', ''X448''), (''DSA'', ''DSA''), (''DH'', ''DH'')]"

text \<open>Post-quantum algorithms.\<close>

definition pq_constants :: name_table where
  "pq_constants =
    [(''MLKEM512'', ''ML-KEM-512''), (''MLKEM768'', ''ML-KEM-768''),
     (''MLKEM1024'', ''ML-KEM-1024''), (''MLDSA44'', ''ML-DSA-44''), (''MLDSA65'', ''ML-DSA-65''),
     (''MLDSA87'', ''ML-DSA-87''), (''SLHDSASHA2128s'', ''SLH-DSA-SHA2-128s''),
     (''SLHDSASHA2128f'', ''SLH-DSA-SHA2-128f''), (''SLHDSASHA2192s'', ''SLH-DSA-SHA2-192s''),
     (''SLHDSASHA2192f'', ''SLH-DSA-SHA2-192f''), (''SLHDSASHA2256s'', ''SLH-DSA-SHA2-256s''),
     (''SLHDSASHA2256f'', ''SLH-DSA-SHA2-256f''), (''SLHDSASHAKE128s'', ''SLH-DSA-SHAKE-128s''),
     (''SLHDSASHAKE128f'', ''SLH-DSA-SHAKE-128f''), (''SLHDSASHAKE192s'', ''SLH-DSA-SHAKE-192s''),
     (''SLHDSASHAKE192f'', ''SLH-DSA-SHAKE-192f''), (''SLHDSASHAKE256s'', ''SLH-DSA-SHAKE-256s''),
     (''SLHDSASHAKE256f'', ''SLH-DSA-SHAKE-256f'')]"

text \<open>Hybrid KEMs.\<close>

definition hybrid_constants :: name_table where
  "hybrid_constants =
    [(''X25519MLKEM768'', ''X25519MLKEM768''), (''X448MLKEM1024'', ''X448MLKEM1024''),
     (''SecP256r1MLKEM768'', ''SecP256r1MLKEM768''),
     (''SecP384r1MLKEM1024'', ''SecP384r1MLKEM1024'')]"

text \<open>Elliptic curves.\<close>

definition curve_constants :: name_table where
  "curve_constants =
    [(''P224'', ''P-224''), (''P256'', ''P-256''), (''P384'', ''P-384''), (''P521'', ''P-521''),
     (''Secp256k1'', ''secp256k1''), (''BrainpoolP256r1'', ''brainpoolP256r1''),
     (''BrainpoolP384r1'', ''brainpoolP384r1''), (''BrainpoolP512r1'', ''brainpoolP512r1'')]"

text \<open>Providers.\<close>

definition provider_constants :: name_table where
  "provider_constants =
    [(''ProviderDefault'', ''default''), (''ProviderFIPS'', ''fips''),
     (''ProviderLegacy'', ''legacy''), (''ProviderBase'', ''base''), (''ProviderNull'', ''null''),
     (''ProviderPKCS11'', ''pkcs11'')]"

text \<open>Property queries.\<close>

definition property_constants :: name_table where
  "property_constants =
    [(''PropFIPS'', ''fips=yes''), (''PropNotFIPS'', ''fips=no''),
     (''PropDefaultProvider'', ''provider=default''), (''PropFIPSProvider'', ''provider=fips''),
     (''PropLegacyProvider'', ''provider=legacy''), (''PropPKCS11Provider'', ''provider=pkcs11'')]"

text \<open>Parameter keys.\<close>

definition param_constants :: name_table where
  "param_constants =
    [(''ParamDigest'', ''digest''), (''ParamCipher'', ''cipher''), (''ParamKey_'', ''key''),
     (''ParamSalt'', ''salt''), (''ParamInfo'', ''info''), (''ParamSeed'', ''seed''),
     (''ParamLabel'', ''label''), (''ParamPassword'', ''pass''), (''ParamSecret'', ''secret''),
     (''ParamIter'', ''iter''), (''ParamSize'', ''size''), (''ParamMode'', ''mode''),
     (''ParamCustom'', ''custom''), (''ParamIV'', ''iv''), (''ParamProperties'', ''properties''),
     (''ParamArgon2Lanes'', ''lanes''), (''ParamArgon2Memcost'', ''memcost''),
     (''ParamArgon2AD'', ''ad''), (''ParamThreads'', ''threads''),
     (''ParamContextString'', ''context-string''), (''ParamInstance'', ''instance''),
     (''ParamNonceType'', ''nonce-type''), (''ParamDeterministic'', ''deterministic''),
     (''ParamRSABits'', ''bits''), (''ParamRSAPubExp'', ''e''), (''ParamGroup'', ''group'')]"

text \<open>The constants other components name.\<close>

definition SHA256 :: string where "SHA256 = ''SHA2-256''"
definition SHA384 :: string where "SHA384 = ''SHA2-384''"
definition SHA512 :: string where "SHA512 = ''SHA2-512''"
definition SHA1 :: string where "SHA1 = ''SHA1''"
definition KMAC128 :: string where "KMAC128 = ''KMAC-128''"
definition KMAC256 :: string where "KMAC256 = ''KMAC-256''"
definition KDFHKDF :: string where "KDFHKDF = ''HKDF''"
definition KDFPBKDF2 :: string where "KDFPBKDF2 = ''PBKDF2''"
definition KDFArgon2d :: string where "KDFArgon2d = ''ARGON2D''"
definition KDFArgon2i :: string where "KDFArgon2i = ''ARGON2I''"
definition KDFArgon2id :: string where "KDFArgon2id = ''ARGON2ID''"
definition RSA :: string where "RSA = ''RSA''"
definition RSAPSSKey :: string where "RSAPSSKey = ''RSA-PSS''"
definition EC :: string where "EC = ''EC''"
definition Ed25519 :: string where "Ed25519 = ''ED25519''"
definition Ed448 :: string where "Ed448 = ''ED448''"
definition X25519 :: string where "X25519 = ''X25519''"
definition X448 :: string where "X448 = ''X448''"
definition DSA :: string where "DSA = ''DSA''"
definition DH :: string where "DH = ''DH''"
definition P256 :: string where "P256 = ''P-256''"
definition ProviderDefault :: string where "ProviderDefault = ''default''"
definition ProviderFIPS :: string where "ProviderFIPS = ''fips''"

lemmas name_defs = SHA256_def SHA384_def SHA512_def SHA1_def KMAC128_def KMAC256_def KDFHKDF_def KDFPBKDF2_def KDFArgon2d_def KDFArgon2i_def KDFArgon2id_def RSA_def RSAPSSKey_def EC_def Ed25519_def Ed448_def X25519_def X448_def DSA_def DH_def P256_def ProviderDefault_def ProviderFIPS_def

section \<open>Property queries\<close>

text \<open>\<open>q.AND(other)\<close>.\<close>

definition AND_query :: "string \<Rightarrow> string \<Rightarrow> string" where
  "AND_query q p = (if q = [] then p else if p = [] then q else q @ '','' @ p)"

text \<open>The requirements of a query: its terms between the commas.\<close>

fun split_comma :: "string \<Rightarrow> string list" where
  "split_comma [] = [[]]"
| "split_comma (c # s) = (if c = CHR '','' then [] # split_comma s
     else (case split_comma s of t # ts \<Rightarrow> (c # t) # ts | [] \<Rightarrow> [[c]]))"

definition terms :: "string \<Rightarrow> string list" where
  "terms q = (if q = [] then [] else split_comma q)"

lemma split_comma_nonempty [simp]: "split_comma s \<noteq> []"
  by (cases s) (auto split: list.splits)

lemma split_comma_append: "split_comma (s @ '','' @ t) = split_comma s @ split_comma t"
  by (induction s) (auto split: list.splits simp: neq_Nil_conv)

text \<open>
  Combining two queries demands the terms of both, in order, an empty query demands
  nothing, and combining is associative.
\<close>

theorem AND_query_terms:
  "terms (AND_query q p) = terms q @ terms p \<and> AND_query [] q = q \<and> AND_query q [] = q
   \<and> AND_query (AND_query q p) r = AND_query q (AND_query p r)"
proof -
  have "terms (AND_query q p) = terms q @ terms p"
    using split_comma_append [of q p] by (auto simp: AND_query_def terms_def)
  then show ?thesis by (auto simp: AND_query_def)
qed

section \<open>The tables\<close>

definition cipher_tables :: name_table where
  "cipher_tables = aead_constants @ cipher_constants @ legacy_cipher_constants @ wrap_constants"

definition key_tables :: name_table where
  "key_tables = classical_constants @ pq_constants @ hybrid_constants"

text \<open>
  No two constants of one kind name the same algorithm, and no constant is declared twice,
  across all the blocks of a kind.
\<close>

theorem constants_distinct:
  "distinct (map snd digest_constants) \<and> distinct (map snd cipher_tables) \<and> distinct (map snd mac_constants)
   \<and> distinct (map snd kdf_constants) \<and> distinct (map snd key_tables) \<and> distinct (map snd curve_constants)
   \<and> distinct (map snd param_constants) \<and> distinct (map fst cipher_tables) \<and> distinct (map fst key_tables)"
  by code_simp

end
