(* ===== verification/Pkey.thy ===== *)
theory Pkey
  imports Lifecycle Names
begin

text \<open>
  pkey.go and pkey_pem.go: asymmetric keys. A \<open>Key\<close> is one reference to an \<open>EVP_PKEY\<close> and a
  pointer to the context it came from; it is generated, parsed from an encoding or from raw
  bytes, and encoded again. The encoder hands over memory of the library, the decoder reads a
  copy of the input in C memory, both released before the call returns.
\<close>

section \<open>Strings\<close>

text \<open>\<open>strings.ToUpper\<close>, \<open>HasPrefix\<close> and \<open>EqualFold\<close> on ASCII, which the names of the library are.\<close>

definition upper_char :: "char \<Rightarrow> char" where
  "upper_char c = (let n = of_char c :: nat in if 97 \<le> n \<and> n \<le> 122 then char_of (n - 32) else c)"

definition ToUpper :: "string \<Rightarrow> string" where "ToUpper s = map upper_char s"

definition EqualFold :: "string \<Rightarrow> string \<Rightarrow> bool" where "EqualFold s t \<longleftrightarrow> ToUpper s = ToUpper t"

section \<open>Keys\<close>

record key =
  k_pkey :: ptr
  k_ctx :: "cref option"

text \<open>An option is what it does to the builder; a \<open>WithParam\<close> of another type does nothing.\<close>

type_synonym KeyOption = "unit pstep list"

definition WithRSABits :: "int \<Rightarrow> KeyOption" where "WithRSABits bits = [SizeT pKeyRSABits bits]"

definition WithGroup :: "string \<Rightarrow> KeyOption" where "WithGroup name = [UTF8 pKeyGroupName name]"

fun WithParam :: "string \<Rightarrow> any \<Rightarrow> KeyOption" where
  "WithParam k (AnyString s) = [UTF8 k s]"
| "WithParam k (AnyBytes b) = [Octets k b]"
| "WithParam k (AnyInt i) = [IntP k i]"
| "WithParam k (AnyUint u) = [UInt k (uint u)]"
| "WithParam k (AnyOther t) = []"

text \<open>\<open>context()\<close>, without the reserved name.\<close>

definition key_context :: "key \<Rightarrow> cref" where
  "key_context k = (case k_ctx k of None \<Rightarrow> Default | Some c \<Rightarrow> c)"

definition key_generate :: "ptr \<Rightarrow> cref \<Rightarrow> string \<Rightarrow> key go" where
  "key_generate ctx a algorithm = do {
     r \<leftarrow> call (NewOut RcPos HPkey ''EVP_PKEY_generate'' [(HPkeyCtx, ctx)] []);
     if rc r \<le> 0 then failE (''EVP_PKEY_generate('' @ algorithm @ '')'')
     else ok \<lparr>k_pkey = rptr r, k_ctx = Some a\<rparr>
   }"

definition generate_in :: "ptr \<Rightarrow> cref \<Rightarrow> string \<Rightarrow> KeyOption list \<Rightarrow> key go" where
  "generate_in ctx a algorithm opts = do {
     i \<leftarrow> call (Do ''EVP_PKEY_keygen_init'' [(HPkeyCtx, ctx)] []);
     if rc i \<le> 0 then failE ''EVP_PKEY_keygen_init''
     else if opts \<noteq> [] then with_params (concat opts) (\<lambda>ps. do {
       r \<leftarrow> call (Do ''EVP_PKEY_CTX_set_params'' [(HPkeyCtx, ctx)] [AParams ps]);
       if rc r \<le> 0 then failE ''EVP_PKEY_CTX_set_params'' else key_generate ctx a algorithm
     })
     else key_generate ctx a algorithm
   }"

definition GenerateKey :: "cref option \<Rightarrow> string \<Rightarrow> KeyOption list \<Rightarrow> key go" where
  "GenerateKey c algorithm opts = (case c of None \<Rightarrow> fail ErrClosed | Some a \<Rightarrow> do {
     clearErrors;
     with_cstr algorithm (\<lambda>calg. do {
       cp \<leftarrow> Context_ptr a;
       ctx \<leftarrow> new HPkeyCtx ''EVP_PKEY_CTX_new_from_name'' [(HLibCtx, cp)] [calg, ANull];
       if ctx = NULL then failE (''EVP_PKEY_CTX_new_from_name('' @ algorithm @ '')'')
       else deferring (free HPkeyCtx ctx) (generate_in ctx a algorithm opts)
     })
   })"

text \<open>A property of the key the library reports; the zero value without a key.\<close>

definition key_query :: "string \<Rightarrow> 'a \<Rightarrow> (cret \<Rightarrow> 'a) \<Rightarrow> key option \<Rightarrow> (world, 'a) state" where
  "key_query f z get k = (case k of None \<Rightarrow> ret z | Some k \<Rightarrow>
     if k_pkey k = NULL then ret z
     else do { r \<leftarrow> call (Do f [(HPkey, k_pkey k)] []); ret (get r) })"

definition Key_Type :: "key option \<Rightarrow> (world, string) state" where
  "Key_Type k = key_query ''EVP_PKEY_get0_type_name'' [] rstr k"

definition Bits :: "key option \<Rightarrow> (world, int) state" where
  "Bits k = key_query ''EVP_PKEY_get_bits'' 0 rc k"

definition SecurityBits :: "key option \<Rightarrow> (world, int) state" where
  "SecurityBits k = key_query ''EVP_PKEY_get_security_bits'' 0 rc k"

definition Key_Size :: "key option \<Rightarrow> (world, int) state" where
  "Key_Size k = key_query ''EVP_PKEY_get_size'' 0 rc k"

definition Key_Close :: "key option \<Rightarrow> (key option) go" where
  "Key_Close k = (case k of None \<Rightarrow> ok None | Some k \<Rightarrow>
     if k_pkey k \<noteq> NULL then do { free HPkey (k_pkey k); ok (Some (k\<lparr>k_pkey := NULL\<rparr>)) }
     else ok (Some k))"

definition oneShotOnly :: "key option \<Rightarrow> (world, bool) state" where
  "oneShotOnly k = do {
     ty \<leftarrow> Key_Type k;
     let t = ToUpper ty;
     ret (prefix ''ED25519'' t \<or> prefix ''ED448'' t \<or> prefix ''ML-DSA'' t \<or> prefix ''SLH-DSA'' t)
   }"

definition defaultDigest :: "key option \<Rightarrow> (world, string) state" where
  "defaultDigest k = do {
     one \<leftarrow> oneShotOnly k;
     if one then ret [] else do {
       b \<leftarrow> SecurityBits k;
       ret (if b \<ge> 192 then SHA384 else SHA256)
     }
   }"

section \<open>Encoding\<close>

definition structPKCS8 :: string where "structPKCS8 = ''PrivateKeyInfo''"
definition structSEC1 :: string where "structSEC1 = ''type-specific''"
definition structSPKI :: string where "structSPKI = ''SubjectPublicKeyInfo''"

text \<open>The selections of openssl/evp.h: domain and other parameters, the public, the private part.\<close>

definition EVP_PKEY_PUBLIC_KEY :: int where "EVP_PKEY_PUBLIC_KEY = 0x84 OR 0x02"
definition EVP_PKEY_KEYPAIR :: int where "EVP_PKEY_KEYPAIR = EVP_PKEY_PUBLIC_KEY OR 0x01"

text \<open>\<open>C.GoBytes(data, C.int(n))\<close>: a length from 2 GiB up turns negative and panics.\<close>

definition go_bytes :: "byte list \<Rightarrow> int \<Rightarrow> (byte list) go" where
  "go_bytes out n = (if c_int n < 0 then fail (Panic ''gobytes: length out of range'') else ok (readOut out n))"

definition encode_in :: "ptr \<Rightarrow> string \<Rightarrow> (byte list) go" where
  "encode_in ctx structure = do {
     r \<leftarrow> call (NewOut Rc1 HBuf ''OSSL_ENCODER_to_data'' [(HEncoder, ctx)] []);
     if rc r \<noteq> 1 then failE (''OSSL_ENCODER_to_data('' @ structure @ '')'')
     else deferring (free HBuf (rptr r)) (go_bytes (rbuf r) (rlen r))
   }"

definition encode :: "key option \<Rightarrow> int \<Rightarrow> string \<Rightarrow> string \<Rightarrow> (byte list) go" where
  "encode k selection outType structure = (case k of None \<Rightarrow> fail ErrClosed | Some k \<Rightarrow>
     if k_pkey k = NULL then fail ErrClosed
     else do {
       clearErrors;
       with_cstr outType (\<lambda>ot. with_cstr structure (\<lambda>st. do {
         ctx \<leftarrow> new HEncoder ''OSSL_ENCODER_CTX_new_for_pkey'' [(HPkey, k_pkey k)] [AInt (c_int selection), ot, st, ANull];
         if ctx = NULL then failE (''OSSL_ENCODER_CTX_new_for_pkey('' @ structure @ '')'')
         else deferring (free HEncoder ctx) (encode_in ctx structure)
       }))
     })"

definition MarshalPKCS8 :: "key option \<Rightarrow> (byte list) go" where
  "MarshalPKCS8 k = encode k EVP_PKEY_KEYPAIR ''DER'' structPKCS8"

definition MarshalPKCS8PEM :: "key option \<Rightarrow> (byte list) go" where
  "MarshalPKCS8PEM k = encode k EVP_PKEY_KEYPAIR ''PEM'' structPKCS8"

text \<open>The type is read once more for the message.\<close>

definition MarshalSEC1 :: "key option \<Rightarrow> (byte list) go" where
  "MarshalSEC1 k = do {
     t \<leftarrow> Key_Type k;
     if t \<noteq> ''EC'' then do { t \<leftarrow> Key_Type k; fail (Errorf ''ossl: MarshalSEC1 requires an EC key, got %s'' [FStr t]) }
     else encode k EVP_PKEY_KEYPAIR ''DER'' structSEC1
   }"

definition MarshalSEC1PEM :: "key option \<Rightarrow> (byte list) go" where
  "MarshalSEC1PEM k = do {
     t \<leftarrow> Key_Type k;
     if t \<noteq> ''EC'' then do { t \<leftarrow> Key_Type k; fail (Errorf ''ossl: MarshalSEC1PEM requires an EC key, got %s'' [FStr t]) }
     else encode k EVP_PKEY_KEYPAIR ''PEM'' structSEC1
   }"

definition MarshalPKCS1 :: "key option \<Rightarrow> (byte list) go" where
  "MarshalPKCS1 k = do {
     t \<leftarrow> Key_Type k;
     if t \<noteq> ''RSA'' then fail (Errorf ''ossl: MarshalPKCS1 requires an RSA key, got %s'' [FStr t])
     else encode k EVP_PKEY_KEYPAIR ''DER'' structSEC1
   }"

definition MarshalPKCS1PEM :: "key option \<Rightarrow> (byte list) go" where
  "MarshalPKCS1PEM k = do {
     t \<leftarrow> Key_Type k;
     if t \<noteq> ''RSA'' then fail (Errorf ''ossl: MarshalPKCS1PEM requires an RSA key, got %s'' [FStr t])
     else encode k EVP_PKEY_KEYPAIR ''PEM'' structSEC1
   }"

definition MarshalSPKI :: "key option \<Rightarrow> (byte list) go" where
  "MarshalSPKI k = encode k EVP_PKEY_PUBLIC_KEY ''DER'' structSPKI"

definition MarshalSPKIPEM :: "key option \<Rightarrow> (byte list) go" where
  "MarshalSPKIPEM k = encode k EVP_PKEY_PUBLIC_KEY ''PEM'' structSPKI"

text \<open>The raw encodings ask for the length first.\<close>

definition marshal_raw :: "string \<Rightarrow> key option \<Rightarrow> (byte list) go" where
  "marshal_raw f k = (case k of None \<Rightarrow> fail ErrClosed | Some x \<Rightarrow>
     if k_pkey x = NULL then fail ErrClosed
     else do {
       clearErrors;
       q \<leftarrow> call (Do f [(HPkey, k_pkey x)] [ANull]);
       if rc q \<noteq> 1 then do { t \<leftarrow> Key_Type k; failE (f @ '': no raw encoding for '' @ t) }
       else if rlen q = 0 then ok []
       else make_bytes (rlen q) (\<lambda>buf. addr0 buf (do {
         r \<leftarrow> call (Do f [(HPkey, k_pkey x)] [AOut (rlen q)]);
         if rc r \<noteq> 1 then failE f else slice_to (write_at buf 0 (rbuf r)) (rlen r) ok
       }))
     })"

definition MarshalRawPrivateKey :: "key option \<Rightarrow> (byte list) go" where
  "MarshalRawPrivateKey k = marshal_raw ''EVP_PKEY_get_raw_private_key'' k"

definition MarshalRawPublicKey :: "key option \<Rightarrow> (byte list) go" where
  "MarshalRawPublicKey k = marshal_raw ''EVP_PKEY_get_raw_public_key'' k"

section \<open>Decoding\<close>

text \<open>\<open>C.CBytes(b)\<close> with the deferred release.\<close>

definition with_cbytes :: "(ptr \<Rightarrow> 'a go) \<Rightarrow> 'a go" where
  "with_cbytes k = do {
     p \<leftarrow> new HMem ''C.CBytes'' [] [];
     if p = NULL then fail (Panic ''out of C memory'') else deferring (free HMem p) (k p)
   }"

definition decode_in :: "ptr \<Rightarrow> cref \<Rightarrow> byte list \<Rightarrow> string \<Rightarrow> key go" where
  "decode_in dctx a inp structure = with_cbytes (\<lambda>p. do {
     r \<leftarrow> call (NewOut Rc1 HPkey ''OSSL_DECODER_from_data'' [(HDecoder, dctx), (HMem, p)]
       [ABytes inp, AInt (c_size_t (go_len inp))]);
     if rc r \<noteq> 1 then failE (''OSSL_DECODER_from_data('' @ structure @ '')'')
     else ok \<lparr>k_pkey = rptr r, k_ctx = Some a\<rparr>
   })"

definition decode_with :: "cref \<Rightarrow> byte list \<Rightarrow> string \<Rightarrow> carg list \<Rightarrow> key go" where
  "decode_with a inp structure as = do {
     cp \<leftarrow> Context_ptr a;
     dctx \<leftarrow> new HDecoder ''OSSL_DECODER_CTX_new_for_pkey'' [(HLibCtx, cp)] as;
     if dctx = NULL then failE (''OSSL_DECODER_CTX_new_for_pkey('' @ structure @ '')'')
     else deferring (free HDecoder dctx) (decode_in dctx a inp structure)
   }"

definition decodeKey :: "cref option \<Rightarrow> byte list \<Rightarrow> string \<Rightarrow> string \<Rightarrow> string \<Rightarrow> int \<Rightarrow> key go" where
  "decodeKey c inp inType structure keytype selection = (case c of None \<Rightarrow> fail ErrClosed | Some a \<Rightarrow>
     if inp = [] then fail (Errorf ''ossl: empty key input'' [])
     else do {
       clearErrors;
       with_cstr inType (\<lambda>it. with_cstr structure (\<lambda>st.
         if keytype \<noteq> [] then with_cstr keytype (\<lambda>kt. decode_with a inp structure [it, st, kt, AInt (c_int selection), ANull])
         else decode_with a inp structure [it, st, ANull, AInt (c_int selection), ANull]))
     })"

definition ParsePKCS1PrivateKey :: "cref option \<Rightarrow> byte list \<Rightarrow> key go" where
  "ParsePKCS1PrivateKey c der = decodeKey c der ''DER'' structSEC1 ''RSA'' EVP_PKEY_KEYPAIR"

definition ParsePKCS1PrivateKeyPEM :: "cref option \<Rightarrow> byte list \<Rightarrow> key go" where
  "ParsePKCS1PrivateKeyPEM c pem = decodeKey c pem ''PEM'' structSEC1 ''RSA'' EVP_PKEY_KEYPAIR"

definition ParsePKCS8PrivateKey :: "cref option \<Rightarrow> byte list \<Rightarrow> key go" where
  "ParsePKCS8PrivateKey c der = decodeKey c der ''DER'' structPKCS8 [] EVP_PKEY_KEYPAIR"

definition ParsePKCS8PrivateKeyPEM :: "cref option \<Rightarrow> byte list \<Rightarrow> key go" where
  "ParsePKCS8PrivateKeyPEM c pem = decodeKey c pem ''PEM'' structPKCS8 [] EVP_PKEY_KEYPAIR"

definition ParseSEC1PrivateKey :: "cref option \<Rightarrow> byte list \<Rightarrow> key go" where
  "ParseSEC1PrivateKey c der = decodeKey c der ''DER'' structSEC1 ''EC'' EVP_PKEY_KEYPAIR"

definition ParseSEC1PrivateKeyPEM :: "cref option \<Rightarrow> byte list \<Rightarrow> key go" where
  "ParseSEC1PrivateKeyPEM c pem = decodeKey c pem ''PEM'' structSEC1 ''EC'' EVP_PKEY_KEYPAIR"

definition ParseSPKIPublicKey :: "cref option \<Rightarrow> byte list \<Rightarrow> key go" where
  "ParseSPKIPublicKey c der = decodeKey c der ''DER'' structSPKI [] EVP_PKEY_PUBLIC_KEY"

definition ParseSPKIPublicKeyPEM :: "cref option \<Rightarrow> byte list \<Rightarrow> key go" where
  "ParseSPKIPublicKeyPEM c pem = decodeKey c pem ''PEM'' structSPKI [] EVP_PKEY_PUBLIC_KEY"

definition parse_raw :: "string \<Rightarrow> cref option \<Rightarrow> string \<Rightarrow> byte list \<Rightarrow> key go" where
  "parse_raw f c algorithm raw = (case c of None \<Rightarrow> fail ErrClosed | Some a \<Rightarrow>
     if raw = [] then fail (Errorf ''ossl: empty raw key input'' [])
     else do {
       clearErrors;
       with_cstr algorithm (\<lambda>kt. do {
         cp \<leftarrow> Context_ptr a;
         p \<leftarrow> new HPkey f [(HLibCtx, cp)] [kt, ANull, ABytes raw, AInt (c_size_t (go_len raw))];
         if p = NULL then failE (f @ ''('' @ algorithm @ '')'') else ok \<lparr>k_pkey = p, k_ctx = Some a\<rparr>
       })
     })"

definition ParseRawPrivateKey :: "cref option \<Rightarrow> string \<Rightarrow> byte list \<Rightarrow> key go" where
  "ParseRawPrivateKey c algorithm raw = parse_raw ''EVP_PKEY_new_raw_private_key_ex'' c algorithm raw"

definition ParseRawPublicKey :: "cref option \<Rightarrow> string \<Rightarrow> byte list \<Rightarrow> key go" where
  "ParseRawPublicKey c algorithm raw = parse_raw ''EVP_PKEY_new_raw_public_key_ex'' c algorithm raw"

definition Public :: "key option \<Rightarrow> key go" where
  "Public k = (case k of None \<Rightarrow> fail ErrClosed | Some x \<Rightarrow>
     if k_pkey x = NULL then fail ErrClosed
     else must (MarshalSPKI k) (\<lambda>spki. ParseSPKIPublicKey (Some (key_context x)) spki))"

section \<open>Ownership\<close>

definition key_refs :: "key \<Rightarrow> handle multiset" where "key_refs k = held HPkey (k_pkey k)"

interpretation key: closable Key_Close "\<lambda>k. k_pkey k = NULL" key_refs
  by unfold_locales (auto simp: Key_Close_def key_refs_def now_owns_def intro!: vcg)

text \<open>The key is held and its context not closed under it.\<close>

definition key_ok :: "key \<Rightarrow> world \<Rightarrow> bool" where
  "key_ok k w \<longleftrightarrow> (k_pkey k \<noteq> NULL \<longrightarrow> (HPkey, k_pkey k) \<in># owned w) \<and> ctx_live (key_context k) w"

definition key_opt_ok :: "key option \<Rightarrow> world \<Rightarrow> bool" where
  "key_opt_ok k w \<longleftrightarrow> (case k of None \<Rightarrow> True | Some x \<Rightarrow> key_ok x w)"

lemma key_opt_ok_simps [simp]: "key_opt_ok None w" "key_opt_ok (Some x) w = key_ok x w"
  by (simp_all add: key_opt_ok_def)

lemma stable_ctx_live: "stable (ctx_live c)"
  by (auto simp: stable_def gains_def ctx_live_def)

lemma stable_key: "stable (key_ok k)"
  unfolding key_ok_def by (intro stable_conj stable_holds stable_ctx_live)

lemma stable_key_opt: "stable (key_opt_ok k)"
  using stable_key by (cases k) (auto simp: stable_def)

lemma key_query_keeps:
  assumes "key_opt_ok k w"
  shows "wp (key_query f z get k) (\<lambda>_ w'. keeps w w') w"
  using assms by (cases k) (auto simp: key_query_def key_ok_def keeps_def intro!: vcg)

lemmas key_queries = Key_Type_def Bits_def SecurityBits_def Key_Size_def

lemmas wp_key_query [vcg] = wp_mono [OF key_query_keeps]

lemma policy_keeps:
  assumes "key_opt_ok k w"
  shows "wp (oneShotOnly k) (\<lambda>_ w'. keeps w w') w" "wp (defaultDigest k) (\<lambda>_ w'. keeps w w') w"
  using assms stable_keeps [OF stable_key_opt assms]
  by (auto simp: oneShotOnly_def defaultDigest_def key_queries Let_def intro!: vcg intro: keeps_trans)

lemmas wp_policy [vcg] = policy_keeps [THEN wp_mono]

lemma go_bytes_keeps: "wp (go_bytes out n) (\<lambda>_ w'. keeps w w') w"
  by (simp add: go_bytes_def)

lemma encode_keeps:
  assumes "key_opt_ok k w"
  shows "wp (encode k sel ot st) (\<lambda>_ w'. keeps w w') w"
  using assms
  by (cases k) (auto simp: encode_def encode_in_def key_ok_def go_bytes_def wp_defs eff_defs intro!: vcg)

lemmas wp_encode [vcg] = wp_mono [OF encode_keeps]

lemma marshal_raw_keeps:
  assumes "key_opt_ok k w"
  shows "wp (marshal_raw f k) (\<lambda>_ w'. keeps w w') w"
  using assms
  by (cases k) (auto simp: marshal_raw_def Key_Type_def key_query_def key_ok_def wp_defs eff_defs intro!: vcg)

text \<open>What a constructor promises: one reference more and the context it was given, or nothing.\<close>

definition key_out :: "cref \<Rightarrow> world \<Rightarrow> err + key \<Rightarrow> world \<Rightarrow> bool" where
  "key_out a w r w' \<longleftrightarrow> (case r of Inl _ \<Rightarrow> keeps w w'
     | Inr k \<Rightarrow> gains (key_refs k) w w' \<and> k_ctx k = Some a)"

lemma key_out_simps [simp]:
  "key_out a w (Inl e) w' = keeps w w'"
  "key_out a w (Inr k) w' \<longleftrightarrow> gains (key_refs k) w w' \<and> k_ctx k = Some a"
  by (simp_all add: key_out_def)

lemma key_generate_spec:
  assumes "(HPkeyCtx, ctx) \<in># owned w \<or> ctx = NULL"
  shows "wp (key_generate ctx a alg) (key_out a w) w"
  using assms by (auto simp: key_generate_def key_refs_def held_def eff_defs intro!: vcg)

lemma key_out_with_params:
  assumes ss: "psteps_ok ss"
    and body: "\<And>ps w1. (\<exists>kvs. reads_params w kvs ps w1) \<Longrightarrow> wp (k ps) (key_out a w1) w1"
  shows "wp (with_params ss k) (key_out a w) w"
proof -
  obtain kvs where "list_all2 pstep_ok ss kvs" using psteps_ok_all2 [OF ss] by blast
  then show ?thesis
  proof (rule wp_with_params [where D = "case_sum (\<lambda>_. {#}) key_refs" and P = "case_sum (\<lambda>_. True) (\<lambda>k. k_ctx k = Some a)"])
    fix ps w1 assume "reads_params w kvs ps w1"
    with body show "wp (k ps) (\<lambda>r w2. gains (case_sum (\<lambda>_. {#}) key_refs r) w1 w2
        \<and> (case r of Inl _ \<Rightarrow> True | Inr k \<Rightarrow> k_ctx k = Some a)) w1"
      by (intro wp_mono [OF body]) (auto simp: key_out_def split: sum.splits)
  qed (auto simp: key_out_def split: sum.splits)
qed

lemma key_out_after: "keeps w w1 \<Longrightarrow> key_out a w1 r w2 \<Longrightarrow> key_out a w r w2"
  by (auto simp: key_out_def eff_defs split: sum.splits)

lemma ctx_call_keeps:
  "(HPkeyCtx, ctx) \<in># owned w \<Longrightarrow> keeps w (push (Do f [(HPkeyCtx, ctx)] []) r w)"
  by (simp add: keeps_def)

lemma set_params_spec:
  assumes "reads_params w1 kvs ps w2" "(HPkeyCtx, ctx) \<in># owned w1"
  shows "wp (do {
       r \<leftarrow> call (Do ''EVP_PKEY_CTX_set_params'' [(HPkeyCtx, ctx)] [AParams ps]);
       if rc r \<le> 0 then failE ''EVP_PKEY_CTX_set_params'' else key_generate ctx a alg
     }) (key_out a w2) w2"
proof -
  let ?s = "Do ''EVP_PKEY_CTX_set_params'' [(HPkeyCtx, ctx)] [AParams ps]"
  have k: "keeps w2 (push ?s r w2)" for r
    using assms by (auto simp: reads_defs keeps_def)
  have own: "(HPkeyCtx, ctx) \<in># owned (push ?s r w2)" for r
    using assms by (auto simp: reads_defs)
  show ?thesis
    using own by (auto intro!: vcg wp_mono [OF key_generate_spec]) (erule keeps_trans [OF k] key_out_after [OF k])+
qed

lemma generate_in_spec:
  assumes own: "(HPkeyCtx, ctx) \<in># owned w" and ss: "psteps_ok (concat opts)"
  shows "wp (generate_in ctx a alg opts) (key_out a w) w"
proof -
  let ?w = "\<lambda>r. push (Do ''EVP_PKEY_keygen_init'' [(HPkeyCtx, ctx)] []) r w"
  note k = ctx_call_keeps [OF own]
  have own': "(HPkeyCtx, ctx) \<in># owned (?w r)" for r using own by simp
  show ?thesis
    unfolding generate_in_def wp_bind
    using own' ss
    by (auto intro!: wp_call wp_failE wp_mono [OF key_out_with_params [where a = a]]
        wp_mono [OF key_generate_spec [where a = a]] set_params_spec simp del: wp_bind)
      (assumption | rule own' | erule keeps_trans [OF k] key_out_after [OF k])+
qed

lemma GenerateKey_spec:
  assumes "\<And>a. c = Some a \<Longrightarrow> ctx_live a w" "psteps_ok (concat opts)"
  shows "wp (GenerateKey c alg opts) (\<lambda>r w'. case r of Inl _ \<Rightarrow> keeps w w'
    | Inr k \<Rightarrow> gains (key_refs k) w w' \<and> k_ctx k = c) w"
  using assms
  by (cases c) (auto simp: GenerateKey_def wp_defs eff_defs ctx_live_def key_out_def intro!: vcg
      wp_mono [OF generate_in_spec] split: sum.splits)

text \<open>Every option the package offers builds.\<close>

lemma options_ok [simp]: "psteps_ok (WithRSABits n)" "psteps_ok (WithGroup g)" "psteps_ok (WithParam k v)"
  by (simp_all add: WithRSABits_def WithGroup_def) (cases v; simp)

lemma decode_with_spec:
  assumes "ctx_live a w" "\<Union> (arg_handles ` set as) \<subseteq> set_mset (owned w)"
  shows "wp (decode_with a inp st as) (key_out a w) w"
  using assms
  by (auto simp: decode_with_def decode_in_def with_cbytes_def eff_defs ctx_live_def key_out_def uses_of_def
      key_refs_def held_def intro!: vcg)

lemma decodeKey_spec:
  assumes "\<And>a. c = Some a \<Longrightarrow> ctx_live a w"
  shows "wp (decodeKey c inp it st kt sel) (\<lambda>r w'. case r of Inl _ \<Rightarrow> keeps w w'
    | Inr k \<Rightarrow> gains (key_refs k) w w' \<and> k_ctx k = c) w"
  using assms
  by (cases c) (auto simp: decodeKey_def wp_defs eff_defs ctx_live_def key_out_def live_handles_def
      intro!: vcg wp_mono [OF decode_with_spec] split: sum.splits)

lemma parse_raw_spec:
  assumes "\<And>a. c = Some a \<Longrightarrow> ctx_live a w"
  shows "wp (parse_raw f c alg raw) (\<lambda>r w'. case r of Inl _ \<Rightarrow> keeps w w'
    | Inr k \<Rightarrow> gains (key_refs k) w w' \<and> k_ctx k = c) w"
  using assms
  by (cases c) (auto simp: parse_raw_def wp_defs eff_defs ctx_live_def key_refs_def intro!: vcg)

lemma Public_spec:
  assumes "key_ok k w"
  shows "wp (Public (Some k)) (key_out (key_context k) w) w"
proof -
  have parse: "wp (ParseSPKIPublicKey (Some (key_context k)) b) (key_out (key_context k) w) w1" if "keeps w w1" for b w1
    using assms that unfolding ParseSPKIPublicKey_def
    by (intro wp_mono [OF decodeKey_spec])
      (auto simp: key_ok_def eff_defs ctx_live_def key_out_def split: sum.splits)
  show ?thesis
    using assms by (auto simp: Public_def MarshalSPKI_def intro!: vcg parse split: sum.splits)
qed

section \<open>The public half\<close>

text \<open>Only public parts are encoded, and decoders resolve against the library context \<open>cp\<close>.\<close>

fun public_only :: "ptr \<Rightarrow> ccall \<Rightarrow> bool" where
  "public_only cp (New HEncoder f hs as) \<longleftrightarrow> (\<exists>bs. as = AInt EVP_PKEY_PUBLIC_KEY # bs)"
| "public_only cp (New HDecoder f hs as) \<longleftrightarrow> hs = [(HLibCtx, cp)]"
| "public_only cp c = True"

interpretation public: call_policy "public_only cp" for cp
proof
  fix c
  show "err_call c \<Longrightarrow> public_only cp c" by (cases "(cp, c)" rule: public_only.cases) auto
  show "mem_call c \<Longrightarrow> public_only cp c" by (cases "(cp, c)" rule: public_only.cases) auto
qed

lemma public_selection: "c_int EVP_PKEY_PUBLIC_KEY = EVP_PKEY_PUBLIC_KEY"
  by (simp add: EVP_PKEY_PUBLIC_KEY_def c_int_id)

text \<open>The bytes of the encoder, and the key the decoder made of them.\<close>

definition encoded :: "byte list \<Rightarrow> world \<Rightarrow> world \<Rightarrow> bool" where
  "encoded b w w' \<longleftrightarrow> (\<exists>e r. rc r = 1 \<and> b = readOut (rbuf r) (rlen r)
     \<and> saw (NewOut Rc1 HBuf ''OSSL_ENCODER_to_data'' [(HEncoder, e)] [], r) w w')"

definition decoded :: "byte list \<Rightarrow> ptr \<Rightarrow> world \<Rightarrow> world \<Rightarrow> bool" where
  "decoded b q w w' \<longleftrightarrow> (\<exists>d m r. rc r = 1 \<and> q = rptr r \<and>
     saw (NewOut Rc1 HPkey ''OSSL_DECODER_from_data'' [(HDecoder, d), (HMem, m)] [ABytes b, AInt (c_size_t (go_len b))], r) w w')"

text \<open>Draining and clearing, with the contexts they leave alone.\<close>

lemma clearErrors_trace:
  "(\<And>w'. only err_call w w' \<Longrightarrow> ctxs w' = ctxs w \<Longrightarrow> Q () w') \<Longrightarrow> wp clearErrors Q w"
  by (rule wp_mono [OF clearErrors_err_only]) (auto simp: err_only_eq keeps_def)

lemma failE_trace:
  "(\<And>e w'. lib_err e \<Longrightarrow> only err_call w w' \<Longrightarrow> ctxs w' = ctxs w \<Longrightarrow> Q (Inl e) w') \<Longrightarrow> wp (failE op) Q w"
  unfolding failE_def wp_bind by (rule wp_mono [OF newError_err_only]) (auto simp: err_only_eq keeps_def)

lemmas ctx_trace = wp_call clearErrors_trace failE_trace

lemma encoded_now:
  "ext w w1 \<Longrightarrow> rc r = 1 \<Longrightarrow> encoded (readOut (rbuf r) (rlen r)) w (push (NewOut Rc1 HBuf ''OSSL_ENCODER_to_data'' [(HEncoder, e)] []) r w1)"
  unfolding encoded_def by (blast intro: saw_push)

lemma decoded_now:
  "ext w w1 \<Longrightarrow> rc r = 1 \<Longrightarrow> decoded b (rptr r) w (push (NewOut Rc1 HPkey ''OSSL_DECODER_from_data''
     [(HDecoder, d), (HMem, m)] [ABytes b, AInt (c_size_t (go_len b))]) r w1)"
  unfolding decoded_def by (blast intro: saw_push)

lemma coded_later:
  "encoded b w w1 \<Longrightarrow> ext w1 w2 \<Longrightarrow> encoded b w w2"
  "decoded b q w w1 \<Longrightarrow> ext w1 w2 \<Longrightarrow> decoded b q w w2"
  unfolding encoded_def decoded_def by (blast intro: saw_later)+

lemma coded_push:
  "encoded b w w1 \<Longrightarrow> encoded b w (push c r w1)" "decoded b q w w1 \<Longrightarrow> decoded b q w (push c r w1)"
  by (auto elim: coded_later)

lemmas coded_intros = encoded_now decoded_now coded_push

lemma encode_public:
  "wp (encode k EVP_PKEY_PUBLIC_KEY ot st) (\<lambda>r w'. only (public_only cp) w w' \<and> ctxs w' = ctxs w
     \<and> (\<forall>b. r = Inr b \<longrightarrow> encoded b w w')) w"
  by (cases k, auto simp: encode_def encode_in_def go_bytes_def wp_defs public_selection
      intro!: ctx_trace only_push elim!: public.after_err [rotated])
    (rule coded_intros ext_push | assumption | erule only_ext)+

lemma parse_public:
  assumes "ctxs w = ctxs w0"
  shows "wp (ParseSPKIPublicKey (Some a) b) (\<lambda>r w'. only (public_only (c_ctx (ctxs w0 a))) w w'
     \<and> (\<forall>k. r = Inr k \<longrightarrow> k_ctx k = Some a \<and> decoded b (k_pkey k) w w')) w"
  using assms
  by (auto simp: ParseSPKIPublicKey_def decodeKey_def decode_with_def decode_in_def with_cbytes_def wp_defs
      intro!: ctx_trace only_push elim!: public.after_err [rotated])
    (rule coded_intros ext_push | assumption | erule only_ext)+

text \<open>
  C27: \<open>Public\<close> asks the encoder for the public parts only, and the key it returns was decoded
  from exactly the bytes the encoder produced, by a decoder of the library context the key came
  from; the key remembers that context.
\<close>

theorem Public_own_context:
  assumes "run_state (Public (Some k)) w = (Inr p, w')"
  shows "only (public_only (c_ctx (ctxs w (key_context k)))) w w' \<and> k_ctx p = Some (key_context k)
    \<and> (\<exists>der. encoded der w w' \<and> decoded der (k_pkey p) w w')"
proof -
  let ?cp = "c_ctx (ctxs w (key_context k))"
  have "wp (Public (Some k)) (\<lambda>r w'. \<forall>p. r = Inr p \<longrightarrow> only (public_only ?cp) w w' \<and> k_ctx p = Some (key_context k)
    \<and> (\<exists>der. encoded der w w' \<and> decoded der (k_pkey p) w w')) w"
    unfolding Public_def MarshalSPKI_def option.case wp_if wp_fail wp_must
  proof (split if_split, intro conjI impI, simp, rule wp_mono [OF encode_public [where cp = ?cp]], goal_cases)
    case (1 r w1)
    show ?case
    proof (cases r)
      case (Inr der)
      with 1 have e: "ctxs w1 = ctxs w" "only (public_only ?cp) w w1" "encoded der w w1" by auto
      have *: "\<exists>der. encoded der w w2 \<and> decoded der q w w2"
        if "only (public_only ?cp) w1 w2" "decoded der q w1 w2" for q w2
        using that e(2,3) only_ext [OF that(1)] only_ext [OF e(2)] unfolding decoded_def
        by (blast intro: coded_later saw_earlier)
      show ?thesis
        unfolding Inr sum.case
        by (rule wp_mono [OF parse_public [OF e(1)]]) (auto intro: only_trans [OF e(2)] *)
    qed simp
  qed
  from wp_runD [OF this assms] show ?thesis by simp
qed

definition demo_key :: key where "demo_key = \<lparr>k_pkey = 5, k_ctx = Some Default\<rparr>"

lemma Public_run:
  "fst (run_state (Public (Some demo_key)) (world_of ((\<lambda>h c. (yes h)\<lparr>rbuf := [48], rlen := 1\<rparr>)) [(HPkey, 5)]))
   = Inr \<lparr>k_pkey = 16, k_ctx = Some Default\<rparr>"
  by code_simp

lemma Public_own_context_witness:
  "\<exists>der. encoded der (world_of (\<lambda>h c. (yes h)\<lparr>rbuf := [48], rlen := 1\<rparr>) [(HPkey, 5)])
     (snd (run_state (Public (Some demo_key)) (world_of (\<lambda>h c. (yes h)\<lparr>rbuf := [48], rlen := 1\<rparr>) [(HPkey, 5)])))"
  using Public_own_context [OF run_fst [OF Public_run]] by blast

end
