(* ===== verification/Asn1.thy ===== *)
theory Asn1
  imports Padding
begin

text \<open>
  The two encodings of an ECDSA signature (sign.go): the DER form of encoding/asn1, a SEQUENCE of
  two INTEGERs, and the fixed-width form of IEEE P1363. The codec of encoding/asn1 is written
  out for this one type, with the checks its parser makes on tags, lengths and integers.
\<close>

section \<open>Writing\<close>

text \<open>\<open>appendTagAndLength\<close>: the short form below 128, else the minimal long form.\<close>

definition der_length :: "nat \<Rightarrow> byte list" where
  "der_length n = (if n < 128 then [of_nat n]
     else (0x80 OR of_nat (length (bytes_of n))) # bytes_of n)"

definition der_tlv :: "byte \<Rightarrow> byte list \<Rightarrow> byte list" where
  "der_tlv tag body = tag # der_length (length body) @ body"

text \<open>\<open>makeBigInt\<close> for a non-negative number.\<close>

definition big_content :: "nat \<Rightarrow> byte list" where
  "big_content n = (if n = 0 then [0]
     else let b = bytes_of n in if hd b AND 0x80 \<noteq> 0 then 0 # b else b)"

definition asn1_Marshal :: "nat \<Rightarrow> nat \<Rightarrow> byte list" where
  "asn1_Marshal r s = der_tlv 0x30 (der_tlv 0x02 (big_content r) @ der_tlv 0x02 (big_content s))"

section \<open>Reading\<close>

abbreviation asn1_error :: "string \<Rightarrow> err + 'a" where "asn1_error m \<equiv> Inl (Errorf m [])"

text \<open>The bytes of a long length, \<open>k\<close> still to come.\<close>

fun long_length :: "nat \<Rightarrow> nat \<Rightarrow> byte list \<Rightarrow> err + (nat \<times> byte list)" where
  "long_length 0 n bs = Inr (n, bs)"
| "long_length (Suc k) n [] = asn1_error ''asn1: syntax error: truncated tag or length''"
| "long_length (Suc k) n (b # bs) =
     (if n \<ge> 2 ^ 23 then asn1_error ''asn1: structure error: length too large''
      else let n' = 256 * n + unat b in
        if n' = 0 then asn1_error ''asn1: structure error: superfluous leading zeros in length''
        else long_length k n' bs)"

fun parse_length :: "byte list \<Rightarrow> err + (nat \<times> byte list)" where
  "parse_length [] = asn1_error ''asn1: syntax error: truncated tag or length''"
| "parse_length (b # bs) =
     (if b AND 0x80 = 0 then Inr (unat (b AND 0x7f), bs)
      else if b AND 0x7f = 0 then asn1_error ''asn1: syntax error: indefinite length found (not DER)''
      else case long_length (unat (b AND 0x7f)) 0 bs of
          Inl e \<Rightarrow> Inl e
        | Inr (n, bs) \<Rightarrow> if n < 0x80 then asn1_error ''asn1: structure error: non-minimal length'' else Inr (n, bs))"

text \<open>
  An element with the expected identifier byte: its body and what follows. A tag in the
  high-number form is never one of the two used here, whatever its number.
\<close>

fun parse_tlv :: "byte \<Rightarrow> byte list \<Rightarrow> err + (byte list \<times> byte list)" where
  "parse_tlv tag [] = asn1_error ''asn1: syntax error: sequence truncated''"
| "parse_tlv tag (b # bs) =
     (if b AND 0x1f = 0x1f then asn1_error ''asn1: structure error: tags don't match''
      else case parse_length bs of
          Inl e \<Rightarrow> Inl e
        | Inr (n, rest) \<Rightarrow>
            if b \<noteq> tag then asn1_error ''asn1: structure error: tags don't match''
            else if n > length rest then asn1_error ''asn1: syntax error: data truncated''
            else Inr (take n rest, drop n rest))"

text \<open>\<open>parseBigInt\<close> with \<open>checkInteger\<close>: minimal two's complement.\<close>

definition parse_bigint :: "byte list \<Rightarrow> err + int" where
  "parse_bigint b =
     (if b = [] then asn1_error ''asn1: structure error: empty integer''
      else if length b > 1 \<and> ((b ! 0 = 0 \<and> b ! 1 AND 0x80 = 0) \<or> (b ! 0 = 0xff \<and> b ! 1 AND 0x80 = 0x80))
      then asn1_error ''asn1: structure error: integer not minimally-encoded''
      else if b ! 0 AND 0x80 = 0x80 then Inr (int (set_bytes b) - 256 ^ length b)
      else Inr (int (set_bytes b)))"

definition parse_field :: "byte list \<Rightarrow> err + (int \<times> byte list)" where
  "parse_field bs = (case parse_tlv 0x02 bs of
     Inl e \<Rightarrow> Inl e
   | Inr (body, rest) \<Rightarrow> (case parse_bigint body of Inl e \<Rightarrow> Inl e | Inr x \<Rightarrow> Inr (x, rest)))"

text \<open>Bytes left over inside the SEQUENCE are skipped; those after it are returned.\<close>

definition asn1_Unmarshal :: "byte list \<Rightarrow> err + ((int \<times> int) \<times> byte list)" where
  "asn1_Unmarshal bs = (case parse_tlv 0x30 bs of
     Inl e \<Rightarrow> Inl e
   | Inr (body, rest) \<Rightarrow> (case parse_field body of
       Inl e \<Rightarrow> Inl e
     | Inr (r, left) \<Rightarrow> (case parse_field left of
         Inl e \<Rightarrow> Inl e
       | Inr (s, extra) \<Rightarrow> Inr ((r, s), rest))))"

section \<open>The two forms\<close>

text \<open>\<open>copy(out[i:], src)\<close> where \<open>src\<close> fits.\<close>

definition copy_at :: "byte list \<Rightarrow> nat \<Rightarrow> byte list \<Rightarrow> byte list" where
  "copy_at out i src = take i out @ src @ drop (i + length src) out"

definition derToP1363 :: "byte list \<Rightarrow> int \<Rightarrow> err + byte list" where
  "derToP1363 der coord = (case asn1_Unmarshal der of
     Inl e \<Rightarrow> Inl (Wrapf ''ossl: signature is not a DER ECDSA-Sig-Value: %w'' e [])
   | Inr ((r, s), rest) \<Rightarrow>
       if rest \<noteq> [] then Inl (Errorf ''ossl: %d trailing bytes after the DER signature'' [FInt (go_len rest)])
       else if r < 0 \<or> s < 0 then Inl (Errorf ''ossl: DER signature has a missing or negative component'' [])
       else let rb = bytes_of (nat r); sb = bytes_of (nat s) in
         if go_len rb > coord \<or> go_len sb > coord
         then Inl (Errorf ''ossl: signature component is wider than the %d-byte curve order'' [FInt coord])
         else let out = replicate (nat (2 * coord)) 0;
                  out = copy_at out (nat (coord - go_len rb)) rb
           in Inr (copy_at out (nat (2 * coord - go_len sb)) sb))"

definition p1363ToDER :: "byte list \<Rightarrow> int \<Rightarrow> err + byte list" where
  "p1363ToDER raw coord =
     (if go_len raw \<noteq> 2 * coord
      then Inl (Errorf ''ossl: P1363 signature must be %d bytes for this curve, got %d'' [FInt (2 * coord), FInt (go_len raw)])
      else Inr (asn1_Marshal (set_bytes (take (nat coord) raw)) (set_bytes (drop (nat coord) raw))))"

section \<open>Lengths\<close>

lemma byte_const: "(0x80 :: byte) = 2 ^ 7" "(0x7f :: byte) = mask 7"
  by (simp_all add: mask_eq_exp_minus_1)

lemma byte_bit7: "bit (b :: byte) 7 \<longleftrightarrow> 128 \<le> unat b"
proof -
  have "bit b 7 \<longleftrightarrow> odd (unat b div 128)"
    using bit_unsigned_iff [of b 7, where ?'a = nat] by (simp add: bit_iff_odd)
  moreover have "unat b div 128 < 2"
    using unat_byte_lt [of b] by (intro less_mult_imp_div_less) simp
  then have "odd (unat b div 128) \<longleftrightarrow> unat b div 128 \<noteq> 0"
    by (auto simp: less_2_cases_iff)
  moreover have "unat b div 128 \<noteq> 0 \<longleftrightarrow> 128 \<le> unat b"
    by (simp add: div_eq_0_iff not_less)
  ultimately show ?thesis by blast
qed

lemma byte_bits:
  "(b :: byte) AND 0x80 = 0 \<longleftrightarrow> unat b < 128" "b AND 0x80 = 0x80 \<longleftrightarrow> 128 \<le> unat b"
  "unat b < 128 \<Longrightarrow> b AND 0x7f = b" "128 \<le> unat b \<Longrightarrow> b = 0x80 OR (b AND 0x7f)"
  "unat b < 128 \<Longrightarrow> (0x80 OR b) AND 0x7f = b" "unat b < 128 \<Longrightarrow> 128 \<le> unat (0x80 OR b)"
proof -
  have seven: "n = 7" if "n < 8" "\<not> n < 7" for n :: nat using that by simp
  show "b AND 0x80 = 0 \<longleftrightarrow> unat b < 128"
    unfolding byte_const and_exp_eq_0_iff_not_bit byte_bit7 by (rule not_le)
  have "b AND 2 ^ 7 = 2 ^ 7" if "bit b 7"
    by (rule bit_eqI) (use that in \<open>auto simp: bit_simps simp del: power_numeral\<close>)
  moreover have "bit b 7" if "b AND 2 ^ 7 = 2 ^ 7"
    using that and_exp_eq_0_iff_not_bit [of b 7] by auto
  ultimately show "b AND 0x80 = 0x80 \<longleftrightarrow> 128 \<le> unat b"
    unfolding byte_const byte_bit7 [symmetric] by blast
  show "unat b < 128 \<Longrightarrow> b AND 0x7f = b"
    unfolding byte_const not_le [symmetric] byte_bit7 [symmetric]
    by (rule bit_eqI) (auto simp: bit_simps simp del: power_numeral dest: seven)
  show "128 \<le> unat b \<Longrightarrow> b = 0x80 OR (b AND 0x7f)"
    unfolding byte_const byte_bit7 [symmetric]
    by (rule bit_eqI) (auto simp: bit_simps simp del: power_numeral dest: seven)
  show "unat b < 128 \<Longrightarrow> (0x80 OR b) AND 0x7f = b"
    unfolding byte_const not_le [symmetric] byte_bit7 [symmetric]
    by (rule bit_eqI) (auto simp: bit_simps simp del: power_numeral dest: seven)
  show "unat b < 128 \<Longrightarrow> 128 \<le> unat (0x80 OR b)"
    unfolding byte_const byte_bit7 [symmetric] by (simp add: bit_simps del: power_numeral)
qed

definition be_from :: "nat \<Rightarrow> byte list \<Rightarrow> nat" where
  "be_from m cs = foldl (\<lambda>n b. 256 * n + unat b) m cs"

lemma be_from_simps [simp]: "be_from m [] = m" "be_from m (c # cs) = be_from (256 * m + unat c) cs"
  by (simp_all add: be_from_def)

lemma be_from_0: "be_from 0 cs = set_bytes cs"
  by (simp add: be_from_def set_bytes_def)

lemma be_from_ge: "m \<le> be_from m cs"
proof (induction cs arbitrary: m)
  case (Cons c cs)
  have "m \<le> 256 * m + unat c" by simp
  also have "\<dots> \<le> be_from (256 * m + unat c) cs" by (rule Cons.IH)
  finally show ?case by simp
qed simp

lemma unat_0_byte: "unat (b :: byte) = 0 \<longleftrightarrow> b = 0"
  by (simp add: unat_eq_zero)

text \<open>A long length is read back exactly when its bytes are minimal and it fits in 31 bits.\<close>

lemma long_length_iff:
  "long_length k m bs = Inr (n, rest) \<longleftrightarrow> (\<exists>cs. length cs = k \<and> bs = cs @ rest \<and> n = be_from m cs
     \<and> (cs \<noteq> [] \<longrightarrow> (m \<noteq> 0 \<or> hd cs \<noteq> 0) \<and> be_from m (butlast cs) < 2 ^ 23))"
proof (induction k arbitrary: m bs)
  case 0
  then show ?case by auto
next
  case (Suc k)
  show ?case
  proof (cases bs)
    case Nil
    then show ?thesis by auto
  next
    case (Cons b bs')
    let ?m = "256 * m + unat b"
    have step: "long_length (Suc k) m bs = Inr (n, rest)
        \<longleftrightarrow> m < 2 ^ 23 \<and> (m \<noteq> 0 \<or> b \<noteq> 0) \<and> long_length k ?m bs' = Inr (n, rest)"
      by (auto simp: Cons Let_def unat_0_byte)
    have least: "m \<le> be_from ?m ys" for ys using be_from_ge [of ?m ys] by simp
    have last: "be_from m (butlast (b # cs)) < N \<longleftrightarrow> m < N \<and> (cs \<noteq> [] \<longrightarrow> be_from ?m (butlast cs) < N)" for cs N
      using least [of "butlast cs"] by auto
    have front: "(\<exists>cs. length cs = Suc k \<and> bs = cs @ rest \<and> Q cs) \<longleftrightarrow> (\<exists>cs. length cs = k \<and> bs' = cs @ rest \<and> Q (b # cs))"
      for Q by (auto simp: Cons length_Suc_conv)
    show ?thesis
      unfolding step Suc.IH front by (auto simp: last unat_0_byte simp del: butlast.simps)
  qed
qed

lemma length_bytes_of: "n < 256 ^ k \<Longrightarrow> length (bytes_of n) \<le> k"
proof (induction k arbitrary: n)
  case (Suc k)
  show ?case
  proof (cases "n = 0")
    case False
    moreover have "n div 256 < 256 ^ k" using Suc.prems by (simp add: less_mult_imp_div_less mult.commute)
    ultimately show ?thesis using Suc.IH [of "n div 256"] by (simp add: bytes_of_pos)
  qed simp
qed simp

lemma set_bytes_less: "set_bytes bs < 256 ^ length bs"
proof (induction bs rule: rev_induct)
  case (snoc b bs)
  have "256 * set_bytes bs + unat b < 256 * (set_bytes bs + 1)" using unat_byte_lt [of b] by simp
  also have "\<dots> \<le> 256 * 256 ^ length bs" using snoc by simp
  finally show ?case by simp
qed simp

lemma unat_small_byte: "n < 256 \<Longrightarrow> unat (of_nat n :: byte) = n"
  by (simp add: unat_of_nat)

lemma butlast_bytes_of: "0 < n \<Longrightarrow> butlast (bytes_of n) = bytes_of (n div 256)"
  by (simp add: bytes_of_pos)

lemma bytes_of_length_31: "n < 2 ^ 31 \<Longrightarrow> length (bytes_of n) \<le> 4"
  by (rule length_bytes_of) simp

text \<open>The parser accepts exactly the minimal lengths below \<open>2^31\<close>.\<close>

lemma parse_der_length:
  assumes "n < 2 ^ 31"
  shows "parse_length (der_length n @ rest) = Inr (n, rest)"
proof (cases "n < 128")
  case True
  then have "unat (of_nat n :: byte) = n" by (intro unat_small_byte) simp
  with True show ?thesis by (simp add: der_length_def byte_bits)
next
  case False
  then have pos: "0 < n" by simp
  define l where "l = length (bytes_of n)"
  have l: "0 < l" "l \<le> 4" using bytes_of_length_31 [OF assms] pos by (auto simp: l_def)
  then have u: "unat (of_nat l :: byte) = l" by (intro unat_small_byte) simp
  have long: "long_length l 0 (bytes_of n @ rest) = Inr (n, rest)"
    unfolding long_length_iff using assms pos
    by (intro exI [of _ "bytes_of n"])
      (auto simp: l_def be_from_0 hd_bytes_of butlast_bytes_of)
  have "0x80 OR (of_nat l :: byte) \<noteq> 0" "(0x80 OR (of_nat l :: byte)) AND 0x80 \<noteq> 0"
    "(0x80 OR of_nat l) AND 0x7f = (of_nat l :: byte)" "(of_nat l :: byte) \<noteq> 0"
    using byte_bits(5,6) [of "of_nat l"] u l by (auto simp: byte_bits(1))
  with False long u show ?thesis by (simp add: der_length_def l_def [symmetric])
qed

lemma parse_length_exact:
  assumes "parse_length bs = Inr (n, rest)"
  shows "bs = der_length n @ rest \<and> n < 2 ^ 31"
proof (cases bs)
  case (Cons b bs')
  show ?thesis
  proof (cases "unat b < 128")
    case True
    with assms Cons have "n = unat b" "bs' = rest" by (auto simp: byte_bits)
    with True Cons show ?thesis by (simp add: der_length_def)
  next
    case False
    then have b: "b AND 0x80 \<noteq> 0" "b = 0x80 OR (b AND 0x7f)" by (auto simp: byte_bits(1) intro: byte_bits(4))
    define k where "k = unat (b AND 0x7f)"
    from assms Cons b(1) have long: "long_length k 0 bs' = Inr (n, rest)" and n: "128 \<le> n"
      by (auto simp: k_def split: if_splits sum.splits)
    obtain cs where cs: "length cs = k" "bs' = cs @ rest" "n = set_bytes cs"
      "cs \<noteq> [] \<longrightarrow> hd cs \<noteq> 0 \<and> set_bytes (butlast cs) < 2 ^ 23"
      using long unfolding long_length_iff by (auto simp: be_from_0)
    have ne: "cs \<noteq> []" using n cs(3) by auto
    then have "bytes_of n = cs" using cs(3,4) by (simp add: bytes_of_set_bytes)
    moreover have "set_bytes (butlast cs) = n div 256"
      using ne cs(3) unat_byte_lt [of "last cs"] set_bytes_snoc [of "butlast cs" "last cs"] by simp
    ultimately show ?thesis
      using n cs ne b(2) Cons by (simp add: der_length_def k_def [symmetric]) (simp add: k_def div_less_iff_less_mult)
  qed
qed (use assms in simp)

section \<open>Elements\<close>

lemma parse_der_tlv:
  assumes "tag AND 0x1f \<noteq> 0x1f" "length body < 2 ^ 31"
  shows "parse_tlv tag (der_tlv tag body @ rest) = Inr (body, rest)"
  using assms by (simp add: der_tlv_def parse_der_length)

lemma parse_tlv_exact:
  assumes "parse_tlv tag bs = Inr (body, rest)"
  shows "bs = der_tlv tag body @ rest \<and> length body < 2 ^ 31"
proof (cases bs)
  case (Cons b bs')
  with assms obtain n r where l: "parse_length bs' = Inr (n, r)" and b: "b = tag" "n \<le> length r"
    "body = take n r" "rest = drop n r"
    by (auto split: if_splits sum.splits)
  from parse_length_exact [OF l] b Cons show ?thesis by (auto simp: der_tlv_def min_def)
qed (use assms in simp)

lemma nonempty_split: "bs \<noteq> [] \<Longrightarrow> \<exists>c cs. bs = c # cs"
  by (cases bs) auto

lemma parse_big_content: "parse_bigint (big_content n) = Inr (int n)"
proof (cases "n = 0")
  case False
  then have b: "bytes_of n \<noteq> []" "hd (bytes_of n) \<noteq> 0" by (simp_all add: hd_bytes_of)
  then obtain c cs where c: "bytes_of n = c # cs" using nonempty_split by blast
  have v: "set_bytes (c # cs) = n" using set_bytes_bytes_of [of n] c by simp
  show ?thesis
  proof (cases "c AND 0x80 = 0")
    case True
    then have "c \<noteq> 0xff" "c AND 0x80 \<noteq> 0x80" by auto
    with True False b c v show ?thesis by (simp add: big_content_def parse_bigint_def)
  next
    case high: False
    with False b c v show ?thesis by (simp add: big_content_def parse_bigint_def)
  qed
qed (simp add: big_content_def parse_bigint_def)

lemma parse_bigint_exact:
  assumes "parse_bigint bs = Inr z" "0 \<le> z"
  shows "bs = big_content (nat z)"
proof -
  from assms have ne: "bs \<noteq> []" by (auto simp: parse_bigint_def)
  then obtain c cs where c: "bs = c # cs" using nonempty_split by blast
  have neg: "int (set_bytes bs) - 256 ^ length bs < 0"
    using set_bytes_less [of bs] by (metis diff_less_0_iff_less of_nat_less_iff of_nat_numeral of_nat_power)
  have low: "c AND 0x80 = 0" and z: "z = int (set_bytes bs)"
    using assms ne c neg by (auto simp: parse_bigint_def byte_bits split: if_splits)
  show ?thesis
  proof (cases "c = 0")
    case True
    show ?thesis
    proof (cases cs)
      case Nil
      then show ?thesis using True c z by (simp add: big_content_def)
    next
      case (Cons d ds)
      then have d: "d AND 0x80 \<noteq> 0" using assms(1) c True by (auto simp: parse_bigint_def split: if_splits)
      then have "d \<noteq> 0" by auto
      then have "bytes_of (set_bytes cs) = cs" "0 < set_bytes cs"
        using Cons by (auto simp: bytes_of_set_bytes intro: set_bytes_pos)
      then show ?thesis using z c True Cons d by (simp add: big_content_def)
    qed
  next
    case False
    then have "bytes_of (set_bytes bs) = bs" "0 < set_bytes bs"
      using c by (auto simp: bytes_of_set_bytes intro: set_bytes_pos)
    then show ?thesis using z c low by (simp add: big_content_def)
  qed
qed

lemma length_big_content: "length (big_content n) \<le> Suc (length (bytes_of n))"
  by (simp add: big_content_def Let_def)

text \<open>What the parser makes of two non-negative numbers and what follows them.\<close>

definition der_body :: "nat \<Rightarrow> nat \<Rightarrow> byte list \<Rightarrow> byte list" where
  "der_body r s extra = der_tlv 0x02 (big_content r) @ der_tlv 0x02 (big_content s) @ extra"

lemma length_tlv_body: "length body < length (der_tlv tag body)"
  by (simp add: der_tlv_def)

lemma Unmarshal_der:
  assumes "length (der_body r s extra) < 2 ^ 31"
  shows "asn1_Unmarshal (der_tlv 0x30 (der_body r s extra) @ rest) = Inr ((int r, int s), rest)"
proof -
  have "length (big_content r) < 2 ^ 31" "length (big_content s) < 2 ^ 31"
    using assms length_tlv_body [of "big_content r" 2] length_tlv_body [of "big_content s" 2]
    by (auto simp: der_body_def)
  with assms show ?thesis
    by (simp add: asn1_Unmarshal_def parse_field_def parse_der_tlv der_body_def parse_big_content)
qed

lemma Unmarshal_exact:
  assumes "asn1_Unmarshal der = Inr ((r, s), rest)" "0 \<le> r" "0 \<le> s"
  shows "\<exists>extra. der = der_tlv 0x30 (der_body (nat r) (nat s) extra) @ rest \<and> length (der_body (nat r) (nat s) extra) < 2 ^ 31"
proof -
  from assms(1) obtain body b1 left b2 extra where
    "parse_tlv 0x30 der = Inr (body, rest)" "parse_tlv 0x02 body = Inr (b1, left)"
    "parse_bigint b1 = Inr r" "parse_tlv 0x02 left = Inr (b2, extra)" "parse_bigint b2 = Inr s"
    by (auto simp: asn1_Unmarshal_def parse_field_def split: sum.splits)
  with assms(2,3) show ?thesis
    by (auto simp: der_body_def dest!: parse_tlv_exact parse_bigint_exact)
qed

section \<open>Fixed width and DER\<close>

definition halves :: "byte list \<Rightarrow> int \<Rightarrow> nat \<times> nat" where
  "halves raw coord = (set_bytes (take (nat coord) raw), set_bytes (drop (nat coord) raw))"

definition fixed :: "int \<Rightarrow> nat \<Rightarrow> byte list" where
  "fixed coord n = replicate (nat coord - length (bytes_of n)) 0 @ bytes_of n"

lemma fixed_len: "go_len (bytes_of n) \<le> coord \<Longrightarrow> length (fixed coord n) = nat coord"
  by (auto simp: fixed_def go_len_def)

lemma set_bytes_fixed [simp]: "set_bytes (fixed coord n) = n"
  by (simp add: fixed_def)

lemma fixed_set_bytes: "length bs = nat coord \<Longrightarrow> fixed coord (set_bytes bs) = bs"
  unfolding fixed_def using bytes_split_zeros [of bs] by simp

text \<open>The two copies fill a fresh buffer with the padded halves.\<close>

lemma copies_fill:
  assumes "go_len rb \<le> coord" "go_len sb \<le> coord"
  shows "copy_at (copy_at (replicate (nat (2 * coord)) 0) (nat (coord - go_len rb)) rb) (nat (2 * coord - go_len sb)) sb
    = replicate (nat coord - length rb) 0 @ rb @ replicate (nat coord - length sb) 0 @ sb"
proof -
  obtain c where c: "coord = int c" using assms(1) go_len_nonneg [of rb] by (metis nonneg_int_cases order_trans)
  have l: "length rb \<le> c" "length sb \<le> c" using assms by (simp_all add: c go_len_def)
  have i: "nat (coord - go_len rb) = c - length rb" "nat (2 * coord - go_len sb) = 2 * c - length sb"
    "nat (2 * coord) = 2 * c" "nat coord = c"
    using l by (auto simp: c go_len_def)
  define P where "P = replicate (c - length rb) 0 @ rb"
  have P: "length P = c" using l by (simp add: P_def)
  have "copy_at (replicate (2 * c) 0) (c - length rb) rb = P @ replicate c 0"
    using l by (auto simp: copy_at_def P_def min_def)
  moreover have "copy_at (P @ replicate c 0) (2 * c - length sb) sb = P @ replicate (c - length sb) 0 @ sb"
    using l P by (simp add: copy_at_def min_def)
  ultimately show ?thesis unfolding i by (simp add: P_def)
qed

lemma derToP1363_body:
  assumes "length (der_body r s extra) < 2 ^ 31"
  shows "derToP1363 (der_tlv 0x30 (der_body r s extra)) coord =
    (if go_len (bytes_of r) \<le> coord \<and> go_len (bytes_of s) \<le> coord then Inr (fixed coord r @ fixed coord s)
     else Inl (Errorf ''ossl: signature component is wider than the %d-byte curve order'' [FInt coord]))"
  using Unmarshal_der [OF assms, of "[]"]
  by (auto simp: derToP1363_def copies_fill fixed_def Let_def not_le)

lemma p1363ToDER_body:
  "go_len raw = 2 * coord \<Longrightarrow> p1363ToDER raw coord = Inr (der_tlv 0x30 (case halves raw coord of (r, s) \<Rightarrow> der_body r s []))"
  by (simp add: p1363ToDER_def asn1_Marshal_def der_body_def halves_def)

lemma halves_fixed:
  assumes "go_len raw = 2 * coord" "halves raw coord = (r, s)"
  shows "go_len (bytes_of r) \<le> coord" "go_len (bytes_of s) \<le> coord" "fixed coord r @ fixed coord s = raw"
proof -
  obtain c where c: "coord = int c" using assms(1) go_len_nonneg [of raw] by (metis nonneg_int_cases zero_le_mult_iff zero_less_numeral not_less order.asym)
  have l: "length (take c raw) = c" "length (drop c raw) = c" using assms(1) by (auto simp: c go_len_def)
  have rs: "r = set_bytes (take c raw)" "s = set_bytes (drop c raw)" using assms(2) by (auto simp: halves_def c)
  show "go_len (bytes_of r) \<le> coord" "go_len (bytes_of s) \<le> coord"
    using length_bytes_of_set_bytes [of "take c raw"] length_bytes_of_set_bytes [of "drop c raw"] l
    by (auto simp: rs c go_len_def)
  show "fixed coord r @ fixed coord s = raw"
    using l by (simp add: rs fixed_set_bytes c)
qed

lemma halves_of_fixed:
  assumes "go_len (bytes_of r) \<le> coord" "go_len (bytes_of s) \<le> coord"
  shows "go_len (fixed coord r @ fixed coord s) = 2 * coord" "halves (fixed coord r @ fixed coord s) coord = (r, s)"
proof -
  have "0 \<le> coord" using assms(1) go_len_nonneg [of "bytes_of r"] by linarith
  then show "go_len (fixed coord r @ fixed coord s) = 2 * coord" "halves (fixed coord r @ fixed coord s) coord = (r, s)"
    using fixed_len [OF assms(1)] fixed_len [OF assms(2)] by (simp_all add: go_len_def halves_def)
qed

text \<open>
  C13: a DER signature is accepted for a curve exactly when it is the DER form of the fixed-width
  signature it is turned into, in minimal lengths and integers, up to bytes added at the end of
  the SEQUENCE: encoding/asn1 skips those, so that they can be changed at will.
\<close>

theorem derToP1363_exact:
  "derToP1363 der coord = Inr raw \<longleftrightarrow> go_len raw = 2 * coord
     \<and> (\<exists>r s extra. halves raw coord = (r, s) \<and> length (der_body r s extra) < 2 ^ 31 \<and> der = der_tlv 0x30 (der_body r s extra))"
proof
  assume d: "derToP1363 der coord = Inr raw"
  then obtain r s where u: "asn1_Unmarshal der = Inr ((r, s), [])" "0 \<le> r" "0 \<le> s"
    by (auto simp: derToP1363_def Let_def not_less split: sum.splits if_splits)
  from Unmarshal_exact [OF this] obtain extra where
    e: "der = der_tlv 0x30 (der_body (nat r) (nat s) extra)" "length (der_body (nat r) (nat s) extra) < 2 ^ 31" by auto
  from d derToP1363_body [OF e(2), of coord] e(1)
  have fit: "go_len (bytes_of (nat r)) \<le> coord" "go_len (bytes_of (nat s)) \<le> coord"
    and raw: "raw = fixed coord (nat r) @ fixed coord (nat s)"
    by (auto split: if_splits)
  show "go_len raw = 2 * coord
     \<and> (\<exists>r s extra. halves raw coord = (r, s) \<and> length (der_body r s extra) < 2 ^ 31 \<and> der = der_tlv 0x30 (der_body r s extra))"
    using halves_of_fixed [OF fit] e unfolding raw by blast
next
  assume "go_len raw = 2 * coord
     \<and> (\<exists>r s extra. halves raw coord = (r, s) \<and> length (der_body r s extra) < 2 ^ 31 \<and> der = der_tlv 0x30 (der_body r s extra))"
  then show "derToP1363 der coord = Inr raw"
    by (auto simp: derToP1363_body halves_fixed)
qed

lemma length_der_length: "length (der_length n) \<le> 1 + length (bytes_of n)"
  by (cases "n = 0") (auto simp: der_length_def Suc_le_eq)

lemma length_tlv_big:
  assumes "go_len (bytes_of n) \<le> coord" "coord < 2 ^ 28"
  shows "length (der_tlv tag (big_content n)) \<le> nat coord + 7"
proof -
  let ?n = "length (big_content n)"
  have n: "?n \<le> nat coord + 1" using assms(1) length_big_content [of n] by (auto simp: go_len_def)
  then have "?n < 256 ^ 4" using assms(2) by simp
  from length_bytes_of [OF this] length_der_length [of ?n] n show ?thesis by (simp add: der_tlv_def)
qed

interpretation p1363: codec p1363ToDER derToP1363 "\<lambda>raw coord. go_len raw = 2 * coord \<and> coord < 2 ^ 28"
proof
  fix raw :: "byte list" and coord :: int
  assume a: "go_len raw = 2 * coord \<and> coord < 2 ^ 28"
  then have len: "go_len raw = 2 * coord" by simp
  obtain r s where rs: "halves raw coord = (r, s)" by fastforce
  note h = halves_fixed [OF len rs]
  have "nat coord < 2 ^ 28" using a by auto
  then have "nat coord + 7 + (nat coord + 7) < 2 ^ 31" by simp
  then have "length (der_body r s []) < 2 ^ 31"
    using length_tlv_big [OF h(1), of 2] length_tlv_big [OF h(2), of 2] a
    by (simp add: der_body_def)
  then show "\<exists>y. p1363ToDER raw coord = Inr y \<and> derToP1363 y coord = Inr raw"
    using p1363ToDER_body [OF len] rs h by (simp add: derToP1363_body)
qed

text \<open>
  C26: the fixed-width form survives the detour over DER, for every signature and every curve
  order of up to \<open>2^28\<close> bytes, and no two fixed-width signatures share a DER form.
\<close>

theorem P1363_roundtrip:
  assumes "go_len raw = 2 * coord" "coord < 2 ^ 28"
  shows "(\<exists>der. p1363ToDER raw coord = Inr der \<and> derToP1363 der coord = Inr raw)
    \<and> (go_len raw' = 2 * coord \<and> p1363ToDER raw' coord = p1363ToDER raw coord \<longrightarrow> raw' = raw)"
  using p1363.roundtrip [of raw coord] p1363.enc_inj [of raw' coord raw] assms by simp

lemma P1363_roundtrip_witness:
  "\<exists>der. p1363ToDER [0, 200, 7, 1] 2 = Inr der \<and> derToP1363 der 2 = Inr [0, 200, 7, 1]"
  using P1363_roundtrip [of "[0, 200, 7, 1]" 2] by simp

end
