(* ===== verification/Sign.thy ===== *)
theory Sign
  imports Pkey Asn1 Evidence
begin

text \<open>
  sign.go: signature options, their check and their application, and the one-shot \<open>Sign\<close> and
  \<open>Verify\<close>. The \<open>EVP_PKEY_CTX\<close> that carries the options is borrowed from the
  \<open>EVP_MD_CTX\<close> or owned by the caller; either way it is given by the handle that keeps it alive.
\<close>

section \<open>Options\<close>

definition RSAPSS :: int where "RSAPSS = 0"
definition RSAPKCS1v15 :: int where "RSAPKCS1v15 = 1"
definition PSSSaltLengthHash :: int where "PSSSaltLengthHash = 0"
definition PSSSaltLengthMax :: int where "PSSSaltLengthMax = -1"
definition SignatureDER :: int where "SignatureDER = 0"
definition SignatureP1363 :: int where "SignatureP1363 = 1"

lemmas option_consts = RSAPSS_def RSAPKCS1v15_def PSSSaltLengthHash_def PSSSaltLengthMax_def
  SignatureDER_def SignatureP1363_def

definition SignatureFormat_String :: "int \<Rightarrow> string" where
  "SignatureFormat_String f = (if f = SignatureP1363 then ''IEEE P1363'' else ''DER'')"

text \<open>A nil \<open>Context\<close> is not an empty one.\<close>

record SignOptions =
  so_Digest :: string
  so_Context :: "byte list option"
  so_Prehash :: bool
  so_Padding :: int
  so_PSSSaltLen :: int
  so_MGF1Hash :: string
  so_Format :: int
  so_Deterministic :: bool

definition no_options :: SignOptions where
  "no_options = \<lparr>so_Digest = [], so_Context = None, so_Prehash = False, so_Padding = RSAPSS,
     so_PSSSaltLen = PSSSaltLengthHash, so_MGF1Hash = [], so_Format = SignatureDER, so_Deterministic = False\<rparr>"

definition signOpts :: "key option \<Rightarrow> SignOptions option \<Rightarrow> (world, SignOptions) state" where
  "signOpts k so = (let c = (case so of None \<Rightarrow> no_options | Some x \<Rightarrow> x) in
     if so_Digest c = [] then do { d \<leftarrow> defaultDigest k; ret (c\<lparr>so_Digest := d\<rparr>) } else ret c)"

text \<open>\<open>if f(ctx, ...) <= 0 { return newError(op) }\<close>.\<close>

definition ctx_call :: "handle \<Rightarrow> string \<Rightarrow> carg list \<Rightarrow> string \<Rightarrow> unit go" where
  "ctx_call h f as op = do { r \<leftarrow> call (Do f [h] as); if rc r \<le> 0 then failE op else ok () }"

definition set_params :: "handle \<Rightarrow> unit pstep list \<Rightarrow> string \<Rightarrow> unit go" where
  "set_params h ss op = with_params ss (\<lambda>ps. ctx_call h ''EVP_PKEY_CTX_set_params'' [AParams ps] op)"

text \<open>Constants of openssl/rsa.h.\<close>

definition RSA_PKCS1_PADDING :: int where "RSA_PKCS1_PADDING = 1"
definition RSA_PKCS1_PSS_PADDING :: int where "RSA_PKCS1_PSS_PADDING = 6"
definition RSA_PSS_SALTLEN_DIGEST :: int where "RSA_PSS_SALTLEN_DIGEST = -1"
definition RSA_PSS_SALTLEN_MAX :: int where "RSA_PSS_SALTLEN_MAX = -3"

definition pss_salt :: "SignOptions \<Rightarrow> int" where
  "pss_salt so = (if so_PSSSaltLen so > 0 then c_int (so_PSSSaltLen so)
     else if so_PSSSaltLen so = PSSSaltLengthMax then RSA_PSS_SALTLEN_MAX else RSA_PSS_SALTLEN_DIGEST)"

definition pss_mgf1 :: "SignOptions \<Rightarrow> string \<Rightarrow> string" where
  "pss_mgf1 so digest = (if so_MGF1Hash so \<noteq> [] then so_MGF1Hash so else digest)"

definition applyRSA :: "handle \<Rightarrow> SignOptions \<Rightarrow> string \<Rightarrow> unit go" where
  "applyRSA pctx so digest = (if so_Padding so = RSAPKCS1v15
     then ctx_call pctx ''EVP_PKEY_CTX_set_rsa_padding'' [AInt RSA_PKCS1_PADDING] ''EVP_PKEY_CTX_set_rsa_padding''
     else must (ctx_call pctx ''EVP_PKEY_CTX_set_rsa_padding'' [AInt RSA_PKCS1_PSS_PADDING] ''EVP_PKEY_CTX_set_rsa_padding(PSS)'') (\<lambda>_.
       must (ctx_call pctx ''EVP_PKEY_CTX_set_rsa_pss_saltlen'' [AInt (pss_salt so)] ''EVP_PKEY_CTX_set_rsa_pss_saltlen'') (\<lambda>_.
       with_cstr (pss_mgf1 so digest) (\<lambda>cd. ctx_call pctx ''EVP_PKEY_CTX_set_rsa_mgf1_md_name'' [cd, ANull]
         (''EVP_PKEY_CTX_set_rsa_mgf1_md_name('' @ pss_mgf1 so digest @ '')'')))))"

definition applyDeterministicPQC :: "handle \<Rightarrow> unit go" where
  "applyDeterministicPQC pctx = set_params pctx [IntP pKeyDeterministic 1] ''EVP_PKEY_CTX_set_params(deterministic)''"

definition applyContext :: "handle \<Rightarrow> byte list option \<Rightarrow> unit go" where
  "applyContext pctx ctxt = (case ctxt of None \<Rightarrow> ok ()
     | Some b \<Rightarrow> set_params pctx [Octets pKeyContext b] ''EVP_PKEY_CTX_set_params(context-string)'')"

definition context_step :: "byte list option \<Rightarrow> unit pstep list" where
  "context_step ctxt = (case ctxt of None \<Rightarrow> [] | Some b \<Rightarrow> [Octets pKeyContext b])"

definition applyEd25519 :: "handle \<Rightarrow> SignOptions \<Rightarrow> unit go" where
  "applyEd25519 pctx so =
     (if \<not> so_Prehash so \<and> so_Context so = None then ok ()
      else let inst = (if so_Prehash so then ''Ed25519ph'' else ''Ed25519ctx'') in
        set_params pctx (UTF8 pKeyInstance inst # context_step (so_Context so))
          (''EVP_PKEY_CTX_set_params('' @ inst @ '')''))"

definition applyEd448 :: "handle \<Rightarrow> SignOptions \<Rightarrow> unit go" where
  "applyEd448 pctx so =
     (if \<not> so_Prehash so then applyContext pctx (so_Context so)
      else set_params pctx (UTF8 pKeyInstance ''Ed448ph'' # context_step (so_Context so))
        ''EVP_PKEY_CTX_set_params(Ed448ph)'')"

definition applyDeterministicECDSA :: "handle \<Rightarrow> unit go" where
  "applyDeterministicECDSA pctx = set_params pctx [IntP pKeyNonceType 1] ''EVP_PKEY_CTX_set_params(nonce-type)''"

definition maxContextLength :: int where "maxContextLength = 255"

definition is_pqc :: "string \<Rightarrow> bool" where
  "is_pqc keyType \<longleftrightarrow> prefix ''ML-DSA'' keyType \<or> prefix ''SLH-DSA'' keyType"

definition checkSignOptions :: "string \<Rightarrow> SignOptions \<Rightarrow> err + unit" where
  "checkSignOptions keyType so = (let
       rsa = (keyType = ''RSA'' \<or> keyType = ''RSA-PSS''); ec = (keyType = ''EC'');
       ed25519 = (keyType = ''ED25519''); ed448 = (keyType = ''ED448''); pqc = is_pqc keyType;
       clen = (case so_Context so of None \<Rightarrow> 0 | Some b \<Rightarrow> go_len b) in
     if so_Context so \<noteq> None \<and> \<not> (ed25519 \<or> ed448 \<or> pqc)
     then Inl (Errorf ''ossl: %s signatures have no domain-separation context; SignOptions.Context is only valid for Ed25519, Ed448, ML-DSA and SLH-DSA'' [FStr keyType])
     else if clen > maxContextLength
     then Inl (Errorf ''ossl: signature context is %d bytes, the maximum is %d'' [FInt clen, FInt maxContextLength])
     else if so_Prehash so \<and> \<not> (ed25519 \<or> ed448)
     then Inl (Errorf ''ossl: %s has no prehash variant; SignOptions.Prehash is only valid for Ed25519 and Ed448'' [FStr keyType])
     else if so_Padding so \<noteq> RSAPSS \<and> \<not> rsa
     then Inl (Errorf ''ossl: SignOptions.Padding is only valid for RSA keys, got %s'' [FStr keyType])
     else if so_PSSSaltLen so \<noteq> PSSSaltLengthHash \<and> \<not> rsa
     then Inl (Errorf ''ossl: SignOptions.PSSSaltLen is only valid for RSA keys, got %s'' [FStr keyType])
     else if so_PSSSaltLen so < 0 \<and> so_PSSSaltLen so \<noteq> PSSSaltLengthMax
     then Inl (Errorf ''ossl: SignOptions.PSSSaltLen must be PSSSaltLengthHash, PSSSaltLengthMax, or a positive byte count, got %d'' [FInt (so_PSSSaltLen so)])
     else if so_Deterministic so \<and> \<not> (ec \<or> pqc)
     then Inl (Errorf ''ossl: SignOptions.Deterministic is only valid for EC, ML-DSA and SLH-DSA keys, got %s'' [FStr keyType])
     else if so_MGF1Hash so \<noteq> [] \<and> \<not> rsa
     then Inl (Errorf ''ossl: SignOptions.MGF1Hash is only valid for RSA keys, got %s'' [FStr keyType])
     else if so_Format so \<noteq> SignatureDER \<and> \<not> ec
     then Inl (Errorf ''ossl: SignOptions.Format is only valid for EC keys, got %s'' [FStr keyType])
     else if keyType = ''RSA-PSS'' \<and> so_Padding so = RSAPKCS1v15
     then Inl (Errorf ''ossl: an RSA-PSS key cannot produce PKCS#1 v1.5 signatures; generate a plain \"RSA\" key for that'' [])
     else Inr ())"

definition applySignOptions :: "handle \<Rightarrow> string \<Rightarrow> SignOptions \<Rightarrow> unit go" where
  "applySignOptions pctx keyType so =
     (if keyType = ''RSA'' \<or> keyType = ''RSA-PSS'' then applyRSA pctx so (so_Digest so)
      else if keyType = ''EC'' then (if so_Deterministic so then applyDeterministicECDSA pctx else ok ())
      else if keyType = ''ED25519'' then applyEd25519 pctx so
      else if keyType = ''ED448'' then applyEd448 pctx so
      else if is_pqc keyType then must (applyContext pctx (so_Context so)) (\<lambda>_.
        if so_Deterministic so then applyDeterministicPQC pctx else ok ())
      else ok ())"

section \<open>Sign and Verify\<close>

text \<open>A curve's coordinate in bytes, with Go's division towards zero.\<close>

definition ecdsaCoordinateLen :: "key option \<Rightarrow> (world, int) state" where
  "ecdsaCoordinateLen k = do { b \<leftarrow> Bits k; ret ((b + 7) sdiv 8) }"

definition bytes_arg :: "byte list \<Rightarrow> carg" where
  "bytes_arg b = (if b = [] then ANull else ABytes b)"

text \<open>
  Two-call size discovery, the shape of every operation with an output of variable size: ask for
  the size, refuse zero, fill a buffer of that size and cut it to the size reported last.
\<close>

definition two_call ::
  "string \<Rightarrow> handle \<Rightarrow> carg list \<Rightarrow> 'a go \<Rightarrow> 'a go \<Rightarrow> (byte list \<Rightarrow> 'a go) \<Rightarrow> (byte list \<Rightarrow> 'a go) \<Rightarrow> 'a go" where
  "two_call f h as bad zero bad2 k = do {
     q \<leftarrow> call (Do f [h] (ANull # as));
     if rc q \<le> 0 then bad
     else if rlen q = 0 then zero
     else make_bytes (rlen q) (\<lambda>buf. addr0 buf (do {
       r \<leftarrow> call (Do f [h] (AOut (rlen q) # as));
       if rc r \<le> 0 then bad2 (write_at buf 0 (rbuf r)) else slice_to (write_at buf 0 (rbuf r)) (rlen r) k
     }))
   }"

definition with_digest :: "string \<Rightarrow> (carg \<Rightarrow> 'a go) \<Rightarrow> 'a go" where
  "with_digest d k = (if d \<noteq> [] then with_cstr d k else k ANull)"

text \<open>The signature in the form asked for.\<close>

definition in_format :: "key option \<Rightarrow> SignOptions \<Rightarrow> byte list \<Rightarrow> (byte list) go" where
  "in_format k so out = (if so_Format so = SignatureP1363
     then do { coord \<leftarrow> ecdsaCoordinateLen k; lift (derToP1363 out coord) } else ok out)"

definition sign_in :: "ptr \<Rightarrow> key \<Rightarrow> SignOptions \<Rightarrow> byte list \<Rightarrow> (byte list) go" where
  "sign_in mdctx k so msg = with_digest (so_Digest so) (\<lambda>cd. do {
     i \<leftarrow> call (Do ''EVP_DigestSignInit_ex'' [(HMdCtx, mdctx), (HPkey, k_pkey k)] [cd, ANull, ANull, ANull]);
     if rc i \<le> 0 then failE ''EVP_DigestSignInit_ex''
     else do {
       ty \<leftarrow> Key_Type (Some k);
       must (applySignOptions (HMdCtx, mdctx) ty so) (\<lambda>_.
         two_call ''EVP_DigestSign'' (HMdCtx, mdctx) [bytes_arg msg, AInt (c_size_t (go_len msg))]
           (failE ''EVP_DigestSign(size)'') (failE ''EVP_DigestSign reported a zero-length signature'')
           (\<lambda>_. failE ''EVP_DigestSign'') (in_format (Some k) so))
     }
   })"

definition Key_Sign :: "key option \<Rightarrow> byte list \<Rightarrow> SignOptions option \<Rightarrow> (byte list) go" where
  "Key_Sign k msg opts = (case k of None \<Rightarrow> fail ErrClosed | Some x \<Rightarrow>
     if k_pkey x = NULL then fail ErrClosed
     else do {
       so \<leftarrow> signOpts k opts;
       ty \<leftarrow> Key_Type k;
       must (lift (checkSignOptions ty so)) (\<lambda>_. do {
         clearErrors;
         mdctx \<leftarrow> new HMdCtx ''EVP_MD_CTX_new'' [] [];
         if mdctx = NULL then failE ''EVP_MD_CTX_new''
         else deferring (free HMdCtx mdctx) (sign_in mdctx x so msg)
       })
     })"

text \<open>The three ways a verification ends.\<close>

definition verdict :: "string \<Rightarrow> cret \<Rightarrow> unit go" where
  "verdict op r =
     (if rc r = 1 then ok ()
      else if rc r = 0 then do { clearErrors; fail ErrVerification }
      else do {
        detail \<leftarrow> newError op;
        fail (if is_panic detail then detail else Wrapf ''%w: %s'' ErrVerification [FStr (err_text detail)])
      })"

text \<open>The signature handed to the library, which reads DER only; a malformed one is rejected.\<close>

definition with_der :: "key option \<Rightarrow> SignOptions \<Rightarrow> byte list \<Rightarrow> (byte list \<Rightarrow> unit go) \<Rightarrow> unit go" where
  "with_der k so sig m = (if so_Format so = SignatureP1363
     then do {
       coord \<leftarrow> ecdsaCoordinateLen k;
       case p1363ToDER sig coord of Inl _ \<Rightarrow> fail ErrVerification | Inr der \<Rightarrow> m der
     }
     else m sig)"

definition verify_in :: "ptr \<Rightarrow> key \<Rightarrow> SignOptions \<Rightarrow> byte list \<Rightarrow> byte list \<Rightarrow> unit go" where
  "verify_in mdctx k so msg sig = with_digest (so_Digest so) (\<lambda>cd. do {
     i \<leftarrow> call (Do ''EVP_DigestVerifyInit_ex'' [(HMdCtx, mdctx), (HPkey, k_pkey k)] [cd, ANull, ANull, ANull]);
     if rc i \<le> 0 then failE ''EVP_DigestVerifyInit_ex''
     else do {
       ty \<leftarrow> Key_Type (Some k);
       must (applySignOptions (HMdCtx, mdctx) ty so) (\<lambda>_. with_der (Some k) so sig (\<lambda>sig. addr0 sig (do {
         r \<leftarrow> call (Do ''EVP_DigestVerify'' [(HMdCtx, mdctx)]
           [ABytes sig, AInt (c_size_t (go_len sig)), bytes_arg msg, AInt (c_size_t (go_len msg))]);
         verdict ''EVP_DigestVerify'' r
       })))
     }
   })"

definition Key_Verify :: "key option \<Rightarrow> byte list \<Rightarrow> byte list \<Rightarrow> SignOptions option \<Rightarrow> unit go" where
  "Key_Verify k msg sig opts = (case k of None \<Rightarrow> fail ErrClosed | Some x \<Rightarrow>
     if k_pkey x = NULL then fail ErrClosed
     else if sig = [] then fail ErrVerification
     else do {
       so \<leftarrow> signOpts k opts;
       ty \<leftarrow> Key_Type k;
       must (lift (checkSignOptions ty so)) (\<lambda>_. do {
         clearErrors;
         mdctx \<leftarrow> new HMdCtx ''EVP_MD_CTX_new'' [] [];
         if mdctx = NULL then failE ''EVP_MD_CTX_new''
         else deferring (free HMdCtx mdctx) (verify_in mdctx x so msg sig)
       })
     })"

section \<open>Ownership\<close>

definition handle_ok :: "handle \<Rightarrow> world \<Rightarrow> bool" where
  "handle_ok h w \<longleftrightarrow> snd h = NULL \<or> h \<in># owned w"

lemma handle_ok_keeps: "handle_ok h w \<Longrightarrow> keeps w w' \<Longrightarrow> handle_ok h w'"
  by (simp add: handle_ok_def keeps_def)

lemma stable_handle: "stable (handle_ok h)"
  by (auto simp: stable_def handle_ok_def gains_def)

lemma handle_ok_pair [simp]: "handle_ok (k, p) w \<longleftrightarrow> p = NULL \<or> (k, p) \<in># owned w"
  by (simp add: handle_ok_def)

lemma opt_call_keeps:
  assumes "handle_ok h w" "\<Union> (arg_handles ` set as) \<subseteq> set_mset (owned w)"
  shows "wp (ctx_call h f as op) (\<lambda>_ w'. keeps w w') w"
  using assms by (auto simp: ctx_call_def handle_ok_def keeps_def uses_of_def live_handles_def intro!: vcg)

lemma set_params_keeps:
  assumes "handle_ok h w" "psteps_ok ss"
  shows "wp (set_params h ss op) (\<lambda>_ w'. keeps w w') w"
proof -
  obtain kvs where kvs: "list_all2 pstep_ok ss kvs" using psteps_ok_all2 [OF assms(2)] by blast
  show ?thesis
    unfolding set_params_def
    by (rule wp_with_params [OF kvs, where D = "\<lambda>_. {#}" and P = "\<lambda>_. True"])
      (use assms(1) in \<open>cases h; auto simp: reads_defs intro!: wp_mono [OF opt_call_keeps]\<close>)+
qed

lemma context_step_ok [simp]: "psteps_ok (context_step c)"
  by (cases c) (auto simp: context_step_def)

text \<open>The options are applied under an assertion that the context is alive.\<close>

lemma neutral_ctx_call:
  assumes "\<And>w. I w \<Longrightarrow> handle_ok h w \<and> \<Union> (arg_handles ` set as) \<subseteq> set_mset (owned w)"
  shows "neutral_op I (ctx_call h f as op)"
  by (rule neutral_op_keeps, rule opt_call_keeps) (simp_all add: assms)

lemma neutral_set_params:
  "(\<And>w. I w \<Longrightarrow> handle_ok h w) \<Longrightarrow> psteps_ok ss \<Longrightarrow> neutral_op I (set_params h ss op)"
  by (rule neutral_op_keeps, rule set_params_keeps) simp_all

lemma applyContext_neutral:
  "(\<And>w. I w \<Longrightarrow> handle_ok h w) \<Longrightarrow> neutral_op I (applyContext h c)"
  by (cases c) (auto simp: applyContext_def intro!: neutral_set_params)

lemma applyRSA_neutral:
  assumes "stable I" "\<And>w. I w \<Longrightarrow> handle_ok h w"
  shows "neutral_op I (applyRSA h so d)"
  unfolding applyRSA_def
  by (intro neutral_op_if neutral_op_must neutral_op_cstr assms(1) neutral_ctx_call)
    (use assms(2) in \<open>auto simp: live_handles_def\<close>)

lemma applySignOptions_neutral:
  assumes "stable I" "\<And>w. I w \<Longrightarrow> handle_ok h w"
  shows "neutral_op I (applySignOptions h ty so)"
  unfolding applySignOptions_def applyDeterministicECDSA_def applyEd25519_def applyEd448_def
    applyDeterministicPQC_def Let_def
  by (intro neutral_op_if neutral_op_must neutral_op_pure neutral_set_params applyRSA_neutral
      applyContext_neutral assms) simp_all

lemma bytes_arg_handles [simp]: "arg_handles (bytes_arg b) = {}"
  by (simp add: bytes_arg_def)

lemma two_call_neutral:
  assumes "stable I" "\<And>w. I w \<Longrightarrow> uses_of [h] as \<subseteq> set_mset (owned w)"
    and "neutral_op I bad" "neutral_op I zero" "\<And>b. neutral_op I (bad2 b)" "\<And>b. neutral_op I (k b)"
  shows "neutral_op I (two_call f h as bad zero bad2 k)"
proof -
  have ask: "wp (call (Do f [h] (a # as))) (\<lambda>_ w'. keeps w w') w" if "I w" "arg_handles a = {}" for a w
    using assms(2) [OF that(1)] that(2) by (intro do_keeps) (auto simp: uses_of_def)
  show ?thesis
    unfolding two_call_def
    by (intro neutral_op_bind [OF assms(1)] neutral_op_if neutral_op_guard assms(3-6) ask) simp_all
qed

lemma query_keeps: "key_opt_ok k w \<Longrightarrow> wp (Key_Type k) (\<lambda>_ w'. keeps w w') w"
  "key_opt_ok k w \<Longrightarrow> wp (ecdsaCoordinateLen k) (\<lambda>_ w'. keeps w w') w"
  by (auto simp: key_queries ecdsaCoordinateLen_def intro!: vcg)

lemma signOpts_keeps: "key_opt_ok k w \<Longrightarrow> wp (signOpts k so) (\<lambda>_ w'. keeps w w') w"
  by (auto simp: signOpts_def Let_def intro!: vcg)

lemma neutral_with_digest:
  assumes "stable I" "neutral_op I (k ANull)"
    and "\<And>p. neutral_op (\<lambda>w. I w \<and> (HMem, p) \<in># owned w) (k (AStr p (c_string d)))"
  shows "neutral_op I (with_digest d k)"
  unfolding with_digest_def using assms by (intro neutral_op_if neutral_op_cstr)

lemma in_format_neutral:
  assumes "stable I" "\<And>w. I w \<Longrightarrow> key_opt_ok k w"
  shows "neutral_op I (in_format k so out)"
  unfolding in_format_def
  by (intro neutral_op_if neutral_op_bind neutral_op_pure assms(1) query_keeps assms(2))

lemma verdict_neutral: "neutral_op I (verdict op r)"
  by (rule neutral_op_keeps) (auto simp: verdict_def intro!: vcg)

lemma with_der_neutral:
  assumes "stable I" "\<And>w. I w \<Longrightarrow> key_opt_ok k w" "\<And>b. neutral_op I (m b)"
  shows "neutral_op I (with_der k so sig m)"
  unfolding with_der_def
  by (intro neutral_op_if neutral_op_bind neutral_op_pure assms(1) query_keeps assms(2))
    (auto intro: assms(3) split: sum.split)

text \<open>The assertion under which an operation on a key runs: a context of its own is alive too.\<close>

definition with_key :: "key \<Rightarrow> handle \<Rightarrow> world \<Rightarrow> bool" where
  "with_key k h w \<longleftrightarrow> key_ok k w \<and> h \<in># owned w"

lemma stable_with_key: "stable (with_key k h)"
  unfolding with_key_def using stable_key by (auto simp: stable_def gains_def)

lemma stable_held_too: "stable I \<Longrightarrow> stable (\<lambda>w. I w \<and> h \<in># owned w)"
  by (auto simp: stable_def gains_def)

lemma with_keyD: "with_key k (hk, p) w \<Longrightarrow> key_opt_ok (Some k) w"
  "with_key k (hk, p) w \<Longrightarrow> handle_ok (hk, p) w"
  by (simp_all add: with_key_def)

lemma init_keeps:
  assumes "with_key k (HMdCtx, ctx) w" "arg_handles cd \<subseteq> set_mset (owned w)"
  shows "wp (call (Do f [(HMdCtx, ctx), (HPkey, k_pkey k)] [cd, ANull, ANull, ANull])) (\<lambda>_ w'. keeps w w') w"
  using assms by (intro do_keeps) (auto simp: with_key_def key_ok_def)

lemma sign_in_neutral: "neutral_op (with_key k (HMdCtx, ctx)) (sign_in ctx k so msg)"
proof -
  have body: "neutral_op I (do {
     i \<leftarrow> call (Do ''EVP_DigestSignInit_ex'' [(HMdCtx, ctx), (HPkey, k_pkey k)] [cd, ANull, ANull, ANull]);
     if rc i \<le> 0 then failE ''EVP_DigestSignInit_ex''
     else do {
       ty \<leftarrow> Key_Type (Some k);
       must (applySignOptions (HMdCtx, ctx) ty so) (\<lambda>_.
         two_call ''EVP_DigestSign'' (HMdCtx, ctx) [bytes_arg msg, AInt (c_size_t (go_len msg))]
           (failE ''EVP_DigestSign(size)'') (failE ''EVP_DigestSign reported a zero-length signature'')
           (\<lambda>_. failE ''EVP_DigestSign'') (in_format (Some k) so))
     }
   })" if st: "stable I" and I: "\<And>w. I w \<Longrightarrow> with_key k (HMdCtx, ctx) w \<and> arg_handles cd \<subseteq> set_mset (owned w)" for I cd
    by (intro neutral_op_bind neutral_op_if neutral_op_must neutral_op_pure st query_keeps init_keeps
        applySignOptions_neutral two_call_neutral in_format_neutral)
      (use I in \<open>auto dest: with_keyD simp: with_key_def\<close>)
  show ?thesis
    unfolding sign_in_def
    by (intro neutral_with_digest body stable_with_key stable_held_too)
      (auto simp: live_handles_def)
qed

text \<open>The part both operations share: a digest context for the time of the call.\<close>

lemma with_mdctx_neutral:
  assumes "\<And>p. neutral_op (with_key x (HMdCtx, p)) (m p)"
  shows "neutral_op (key_opt_ok (Some x)) (do {
     p \<leftarrow> new HMdCtx ''EVP_MD_CTX_new'' [] [];
     if p = NULL then failE ''EVP_MD_CTX_new'' else deferring (free HMdCtx p) (m p)
   })"
  by (rule neutral_op_temp [OF stable_key_opt])
    (auto simp: with_key_def uses_of_def live_handles_def intro: neutral_op_weaken [OF assms])

lemma checked_neutral:
  assumes "\<And>so p. neutral_op (with_key x (HMdCtx, p)) (m so p)"
  shows "neutral_op (key_opt_ok (Some x)) (do {
     so \<leftarrow> signOpts (Some x) opts;
     ty \<leftarrow> Key_Type (Some x);
     must (lift (checkSignOptions ty so)) (\<lambda>_. do {
       clearErrors;
       p \<leftarrow> new HMdCtx ''EVP_MD_CTX_new'' [] [];
       if p = NULL then failE ''EVP_MD_CTX_new'' else deferring (free HMdCtx p) (m so p)
     })
   })"
  by (rule neutral_op_bind neutral_op_must stable_key_opt signOpts_keeps query_keeps clear_keeps neutral_op_pure
      with_mdctx_neutral [OF assms] | assumption)+

lemma Key_Sign_neutral: "neutral_op (key_opt_ok k) (Key_Sign k msg opts)"
  by (cases k) (auto simp: Key_Sign_def intro: checked_neutral sign_in_neutral simp del: key_opt_ok_simps)

lemma verify_in_neutral: "neutral_op (with_key k (HMdCtx, ctx)) (verify_in ctx k so msg sig)"
proof -
  have last: "neutral_op I (do {
         r \<leftarrow> call (Do f [(HMdCtx, ctx)] [ABytes b, AInt n, bytes_arg msg, AInt m]);
         verdict op r
       })" if st: "stable I" and I: "\<And>w. I w \<Longrightarrow> with_key k (HMdCtx, ctx) w" for I f b n m op
    by (intro neutral_op_bind st verdict_neutral do_keeps) (use I in \<open>auto simp: with_key_def\<close>)
  have body: "neutral_op I (do {
     i \<leftarrow> call (Do ''EVP_DigestVerifyInit_ex'' [(HMdCtx, ctx), (HPkey, k_pkey k)] [cd, ANull, ANull, ANull]);
     if rc i \<le> 0 then failE ''EVP_DigestVerifyInit_ex''
     else do {
       ty \<leftarrow> Key_Type (Some k);
       must (applySignOptions (HMdCtx, ctx) ty so) (\<lambda>_. with_der (Some k) so sig (\<lambda>sig. addr0 sig (do {
         r \<leftarrow> call (Do ''EVP_DigestVerify'' [(HMdCtx, ctx)]
           [ABytes sig, AInt (c_size_t (go_len sig)), bytes_arg msg, AInt (c_size_t (go_len msg))]);
         verdict ''EVP_DigestVerify'' r
       })))
     }
   })" if st: "stable I" and I: "\<And>w. I w \<Longrightarrow> with_key k (HMdCtx, ctx) w \<and> arg_handles cd \<subseteq> set_mset (owned w)" for I cd
  proof -
    note parts = last [OF st] neutral_op_if neutral_op_must neutral_op_pure st query_keeps init_keeps
      applySignOptions_neutral with_der_neutral neutral_op_guard neutral_op_bind
    show ?thesis
      by (rule parts | use I in \<open>force dest: with_keyD simp: with_key_def\<close>)+
  qed
  show ?thesis
    unfolding verify_in_def
    by (intro neutral_with_digest body stable_with_key stable_held_too)
      (auto simp: live_handles_def)
qed

lemma Key_Verify_neutral: "neutral_op (key_opt_ok k) (Key_Verify k msg sig opts)"
  by (cases k) (auto simp: Key_Verify_def intro: checked_neutral verify_in_neutral simp del: key_opt_ok_simps)

section \<open>No option is dropped\<close>

text \<open>The options a caller set, and those an algorithm honours.\<close>

datatype opt_field = FContext | FPrehash | FPadding | FSalt | FMGF1 | FFormat | FDeterministic

definition fields_set :: "SignOptions \<Rightarrow> opt_field set" where
  "fields_set so = {f. case f of
     FContext \<Rightarrow> so_Context so \<noteq> None | FPrehash \<Rightarrow> so_Prehash so | FPadding \<Rightarrow> so_Padding so \<noteq> RSAPSS
   | FSalt \<Rightarrow> so_PSSSaltLen so \<noteq> PSSSaltLengthHash | FMGF1 \<Rightarrow> so_MGF1Hash so \<noteq> []
   | FFormat \<Rightarrow> so_Format so \<noteq> SignatureDER | FDeterministic \<Rightarrow> so_Deterministic so}"

definition honours :: "string \<Rightarrow> opt_field set" where
  "honours keyType =
     (if keyType = ''RSA'' \<or> keyType = ''RSA-PSS'' then {FPadding, FSalt, FMGF1}
      else if keyType = ''EC'' then {FFormat, FDeterministic}
      else if keyType = ''ED25519'' \<or> keyType = ''ED448'' then {FContext, FPrehash}
      else if is_pqc keyType then {FContext, FDeterministic} else {})"

lemma pqc_names [simp]:
  "is_pqc ''RSA'' = False" "is_pqc ''RSA-PSS'' = False" "is_pqc ''EC'' = False"
  "is_pqc ''ED25519'' = False" "is_pqc ''ED448'' = False"
  by (simp_all add: is_pqc_def)

lemma fields_set_sub:
  "fields_set so \<subseteq> S \<longleftrightarrow> (so_Context so \<noteq> None \<longrightarrow> FContext \<in> S) \<and> (so_Prehash so \<longrightarrow> FPrehash \<in> S)
     \<and> (so_Padding so \<noteq> RSAPSS \<longrightarrow> FPadding \<in> S) \<and> (so_PSSSaltLen so \<noteq> PSSSaltLengthHash \<longrightarrow> FSalt \<in> S)
     \<and> (so_MGF1Hash so \<noteq> [] \<longrightarrow> FMGF1 \<in> S) \<and> (so_Format so \<noteq> SignatureDER \<longrightarrow> FFormat \<in> S)
     \<and> (so_Deterministic so \<longrightarrow> FDeterministic \<in> S)"
proof -
  have all: "(\<forall>f. P f) \<longleftrightarrow> P FContext \<and> P FPrehash \<and> P FPadding \<and> P FSalt \<and> P FMGF1 \<and> P FFormat \<and> P FDeterministic" for P
    by (metis opt_field.exhaust)
  show ?thesis unfolding subset_iff all by (simp add: fields_set_def)
qed

lemma checkSignOptions_iff:
  "checkSignOptions keyType so = Inr () \<longleftrightarrow> fields_set so \<subseteq> honours keyType
     \<and> (case so_Context so of None \<Rightarrow> True | Some b \<Rightarrow> go_len b \<le> 255)
     \<and> so_PSSSaltLen so \<ge> -1 \<and> (keyType, so_Padding so) \<noteq> (''RSA-PSS'', RSAPKCS1v15)"
proof -
  consider "keyType = ''RSA''" | "keyType = ''RSA-PSS''" | "keyType = ''EC''" | "keyType = ''ED25519''" | "keyType = ''ED448''"
    | "keyType \<notin> {''RSA'', ''RSA-PSS'', ''EC'', ''ED25519'', ''ED448''}" "is_pqc keyType"
    | "keyType \<notin> {''RSA'', ''RSA-PSS'', ''EC'', ''ED25519'', ''ED448''}" "\<not> is_pqc keyType"
    by blast
  then show ?thesis
    unfolding fields_set_sub
    by cases (auto simp: checkSignOptions_def honours_def Let_def maxContextLength_def option_consts split: option.splits)
qed


text \<open>The library was given this call, or this parameter, and accepted it.\<close>

definition asked :: "world \<Rightarrow> handle \<Rightarrow> string \<Rightarrow> carg list \<Rightarrow> world \<Rightarrow> bool" where
  "asked w0 h f as = answered w0 (\<lambda>r. rc r > 0) (Do f [h] as)"

definition param_set :: "world \<Rightarrow> handle \<Rightarrow> string \<times> pval \<Rightarrow> world \<Rightarrow> bool" where
  "param_set w0 h kv w \<longleftrightarrow> (\<exists>ps. kv \<in> set (param_view ps) \<and> asked w0 h ''EVP_PKEY_CTX_set_params'' [AParams ps] w)"

definition rsa_applied :: "world \<Rightarrow> handle \<Rightarrow> SignOptions \<Rightarrow> world \<Rightarrow> bool" where
  "rsa_applied w0 h so w \<longleftrightarrow> (if so_Padding so = RSAPKCS1v15
     then asked w0 h ''EVP_PKEY_CTX_set_rsa_padding'' [AInt RSA_PKCS1_PADDING] w
     else asked w0 h ''EVP_PKEY_CTX_set_rsa_padding'' [AInt RSA_PKCS1_PSS_PADDING] w
       \<and> asked w0 h ''EVP_PKEY_CTX_set_rsa_pss_saltlen'' [AInt (pss_salt so)] w
       \<and> (\<exists>p. asked w0 h ''EVP_PKEY_CTX_set_rsa_mgf1_md_name'' [AStr p (c_string (pss_mgf1 so (so_Digest so))), ANull] w))"

definition context_set :: "world \<Rightarrow> handle \<Rightarrow> byte list option \<Rightarrow> world \<Rightarrow> bool" where
  "context_set w0 h c w \<longleftrightarrow> (\<forall>b. c = Some b \<longrightarrow> param_set w0 h (pKeyContext, POctets b) w)"

text \<open>Every option that is set reached the library; PKCS#1 v1.5 has neither salt nor mask digest.\<close>

definition applied :: "world \<Rightarrow> handle \<Rightarrow> string \<Rightarrow> SignOptions \<Rightarrow> world \<Rightarrow> bool" where
  "applied w0 h keyType so w \<longleftrightarrow> context_set w0 h (so_Context so) w
     \<and> (so_Prehash so \<longrightarrow> param_set w0 h (pKeyInstance, PUtf8 (if keyType = ''ED448'' then ''Ed448ph'' else ''Ed25519ph'')) w)
     \<and> (so_Deterministic so \<longrightarrow>
          param_set w0 h (if keyType = ''EC'' then pKeyNonceType else pKeyDeterministic, PInt 1) w)
     \<and> (keyType \<in> {''RSA'', ''RSA-PSS''} \<longrightarrow> rsa_applied w0 h so w)"

lemma lasting_asked [lasting]: "lasting (asked w0 h f as)" "lasting (\<lambda>w. asked w0 h f as w)"
  "lasting (param_set w0 h kv)" "lasting (\<lambda>w. param_set w0 h kv w)" "lasting (context_set w0 h c)"
  unfolding asked_def param_set_def context_set_def
  by (auto simp: lasting_def answered_def intro: saw_later) (meson saw_later)+

lemma ctx_call_secures:
  assumes "since w0 E"
  shows "secures E (ctx_call h f as op) (\<lambda>_ w. E w \<and> asked w0 h f as w)"
  unfolding ctx_call_def
  by (intro secures_call [OF assms] secures_if secures_stop secures_ok) (auto simp: asked_def intro: answeredI)

lemma set_params_secures:
  assumes kvs: "list_all2 pstep_ok ss kvs" and E: "since w0 E"
  shows "secures E (set_params h ss op) (\<lambda>_ w. E w \<and> (\<forall>kv\<in>set kvs. param_set w0 h kv w))"
  unfolding set_params_def
proof (rule secures_with_params [OF kvs])
  fix ps assume ps: "param_view ps = kvs"
  show "secures E (ctx_call h ''EVP_PKEY_CTX_set_params'' [AParams ps] op)
      (\<lambda>_ w. E w \<and> (\<forall>kv\<in>set kvs. param_set w0 h kv w))"
    by (rule secures_post [OF ctx_call_secures [OF E]]) (use ps in \<open>auto simp: param_set_def\<close>)
qed (intro lasting since_lasting [OF E])+

lemma set_params_secures1:
  "pstep_ok s kv \<Longrightarrow> since w0 E \<Longrightarrow> secures E (set_params h [s] op) (\<lambda>_ w. E w \<and> param_set w0 h kv w)"
  by (rule secures_post [OF set_params_secures [where kvs = "[kv]"]]) auto

lemma applyContext_secures:
  assumes "since w0 E"
  shows "secures E (applyContext h c) (\<lambda>_ w. E w \<and> context_set w0 h c w)"
  using set_params_secures1 [OF pstep_Octets assms, of h pKeyContext]
  unfolding applyContext_def context_set_def by (cases c) (simp_all add: secures_ok)

lemma instance_secures:
  assumes "since w0 E"
  shows "secures E (set_params h (UTF8 pKeyInstance n # context_step c) op)
    (\<lambda>_ w. E w \<and> param_set w0 h (pKeyInstance, PUtf8 (c_string n)) w \<and> context_set w0 h c w)"
proof -
  let ?kvs = "(pKeyInstance, PUtf8 (c_string n)) # (case c of None \<Rightarrow> [] | Some b \<Rightarrow> [(pKeyContext, POctets b)])"
  have "list_all2 pstep_ok (UTF8 pKeyInstance n # context_step c) ?kvs"
    using pstep_UTF8 [of pKeyInstance n] pstep_Octets [of pKeyContext]
    by (auto simp: context_step_def split: option.split)
  from set_params_secures [OF this assms] show ?thesis
    by (rule secures_post) (auto simp: context_set_def)
qed

lemma applyRSA_secures:
  assumes "since w0 E"
  shows "secures E (applyRSA h so (so_Digest so)) (\<lambda>_ w. E w \<and> rsa_applied w0 h so w)"
proof (cases "so_Padding so = RSAPKCS1v15")
  case True
  with ctx_call_secures [OF assms] show ?thesis by (simp add: applyRSA_def rsa_applied_def)
next
  case False
  have "secures E (applyRSA h so (so_Digest so)) (\<lambda>_ w. E w
      \<and> asked w0 h ''EVP_PKEY_CTX_set_rsa_padding'' [AInt RSA_PKCS1_PSS_PADDING] w
      \<and> asked w0 h ''EVP_PKEY_CTX_set_rsa_pss_saltlen'' [AInt (pss_salt so)] w
      \<and> (\<exists>p. asked w0 h ''EVP_PKEY_CTX_set_rsa_mgf1_md_name'' [AStr p (c_string (pss_mgf1 so (so_Digest so))), ANull] w))"
    unfolding applyRSA_def if_not_P [OF False]
    by (rule secures_must [OF ctx_call_secures [of w0]], intro lasting assms)+
      (rule secures_cstr, rule secures_post [OF ctx_call_secures [of w0]],
        auto intro!: lasting assms intro: since_lasting [OF assms])
  with False show ?thesis by (simp add: rsa_applied_def)
qed

lemma pqc_secures:
  assumes "since w0 E"
  shows "secures E (must (applyContext h (so_Context so)) (\<lambda>_. if so_Deterministic so then applyDeterministicPQC h else ok ()))
    (\<lambda>_ w. context_set w0 h (so_Context so) w \<and> (so_Deterministic so \<longrightarrow> param_set w0 h (pKeyDeterministic, PInt 1) w))"
proof (rule secures_must [OF applyContext_secures [OF assms]], rule secures_if)
  let ?E = "\<lambda>w. E w \<and> context_set w0 h (so_Context so) w"
  have "since w0 ?E" by (intro lasting assms)
  from set_params_secures1 [OF pstep_IntP this]
  show "secures ?E (applyDeterministicPQC h) (\<lambda>_ w. context_set w0 h (so_Context so) w
      \<and> (so_Deterministic so \<longrightarrow> param_set w0 h (pKeyDeterministic, PInt 1) w))"
    unfolding applyDeterministicPQC_def by (rule secures_post) (auto simp: c_int_id)
qed (auto intro: secures_ok)

lemma applied_secures:
  assumes "checkSignOptions keyType so = Inr ()" and E: "since w0 E"
  shows "secures E (applySignOptions h keyType so) (\<lambda>_. applied w0 h keyType so)"
proof -
  note f = assms(1) [unfolded checkSignOptions_iff fields_set_sub]
  have none: "secures E (ok ()) Q" if "\<And>w. E w \<Longrightarrow> Q () w" for Q
    by (rule secures_ok) (rule that)
  consider "keyType \<in> {''RSA'', ''RSA-PSS''}" | "keyType = ''EC''" | "keyType = ''ED25519''" | "keyType = ''ED448''"
    | "keyType \<notin> {''RSA'', ''RSA-PSS'', ''EC'', ''ED25519'', ''ED448''}" "is_pqc keyType"
    | "keyType \<notin> {''RSA'', ''RSA-PSS'', ''EC'', ''ED25519'', ''ED448''}" "\<not> is_pqc keyType"
    by blast
  then show ?thesis
  proof cases
    case 1
    then have "applySignOptions h keyType so = applyRSA h so (so_Digest so)" by (auto simp: applySignOptions_def)
    with 1 f show ?thesis
      by (auto simp: applied_def honours_def context_set_def intro!: secures_post [OF applyRSA_secures [OF E]])
  next
    case 2
    with f show ?thesis
      by (auto simp: applySignOptions_def applyDeterministicECDSA_def applied_def honours_def context_set_def c_int_id
          intro!: none secures_post [OF set_params_secures1 [OF pstep_IntP E]])
  next
    case 3
    with f show ?thesis
      by (auto simp: applySignOptions_def applyEd25519_def applied_def honours_def Let_def c_string_def context_set_def
          intro!: none secures_post [OF instance_secures [OF E]])
  next
    case 4
    with f show ?thesis
      by (auto simp: applySignOptions_def applyEd448_def applied_def honours_def c_string_def
          intro!: secures_post [OF instance_secures [OF E]] secures_post [OF applyContext_secures [OF E]])
  next
    case 5
    then have eq: "applySignOptions h keyType so
       = must (applyContext h (so_Context so)) (\<lambda>_. if so_Deterministic so then applyDeterministicPQC h else ok ())"
      by (simp add: applySignOptions_def)
    show ?thesis
      unfolding eq by (rule secures_post [OF pqc_secures [OF E]]) (use 5 f in \<open>auto simp: applied_def honours_def\<close>)
  next
    case 6
    with f show ?thesis
      by (auto simp: applySignOptions_def applied_def honours_def context_set_def intro: none)
  qed
qed



section \<open>What a verification rests on\<close>

lemma adds_set_params [adds]: "psteps_ok ss \<Longrightarrow> adds (set_params h ss op)"
  by (auto simp: adds_def dest!: psteps_ok_all2 intro!: wp_mono [OF securesD [OF set_params_secures [OF _ since_rules(1)] ext_refl]])

lemma adds_options [adds]: "adds (ctx_call h f as op)" "adds (applyContext h c)" "adds (applyRSA h so d)"
  "adds (applySignOptions h ty so)"
  unfolding applySignOptions_def applyEd25519_def applyEd448_def applyDeterministicECDSA_def
    applyDeterministicPQC_def applyContext_def applyRSA_def ctx_call_def Let_def
  by (rule adds | simp)+

lemma adds_query [adds]: "adds (key_query f z g k)" "adds (Key_Type k)" "adds (Bits k)" "adds (SecurityBits k)"
  "adds (ecdsaCoordinateLen k)" "adds (oneShotOnly k)" "adds (defaultDigest k)"
  unfolding ecdsaCoordinateLen_def oneShotOnly_def defaultDigest_def key_queries key_query_def Let_def
  by (rule adds)+

definition digest_arg :: "string \<Rightarrow> carg \<Rightarrow> bool" where
  "digest_arg d cd \<longleftrightarrow> (if d = [] then cd = ANull else \<exists>p. cd = AStr p (c_string d))"

lemma secures_digest:
  assumes "\<And>cd. digest_arg d cd \<Longrightarrow> secures E (m cd) P" "lasting E" "\<And>x. lasting (P x)"
  shows "secures E (with_digest d m) P"
  unfolding with_digest_def
  by (intro secures_if secures_cstr assms) (auto simp: digest_arg_def)

text \<open>The signature in the form the library reads.\<close>

definition in_der :: "SignOptions \<Rightarrow> byte list \<Rightarrow> byte list \<Rightarrow> bool" where
  "in_der so sig der \<longleftrightarrow> (if so_Format so = SignatureP1363 then \<exists>coord. p1363ToDER sig coord = Inr der else der = sig)"

lemma secures_der:
  assumes "\<And>der. in_der so sig der \<Longrightarrow> secures E (m der) P" "lasting E"
  shows "secures E (with_der k so sig m) P"
  unfolding with_der_def
  by (rule secures_if secures_then secures_sum secures_stop adds assms | force simp: in_der_def)+

lemma secures_verdict: "(\<And>w. E w \<Longrightarrow> rc r = 1 \<Longrightarrow> P () w) \<Longrightarrow> secures E (verdict op r) P"
  unfolding verdict_def by (auto simp: secures_def intro: addsD adds)

definition verify_call :: "ptr \<Rightarrow> byte list \<Rightarrow> byte list \<Rightarrow> ccall" where
  "verify_call ctx der msg = Do ''EVP_DigestVerify'' [(HMdCtx, ctx)]
     [ABytes der, AInt (c_size_t (go_len der)), bytes_arg msg, AInt (c_size_t (go_len msg))]"

definition init_call :: "ptr \<Rightarrow> key \<Rightarrow> carg \<Rightarrow> ccall" where
  "init_call ctx k cd = Do ''EVP_DigestVerifyInit_ex'' [(HMdCtx, ctx), (HPkey, k_pkey k)] [cd, ANull, ANull, ANull]"

text \<open>The library accepted the signature of the message on a context it had set up with the key.\<close>

definition verified :: "world \<Rightarrow> ptr \<Rightarrow> key \<Rightarrow> SignOptions \<Rightarrow> byte list \<Rightarrow> byte list \<Rightarrow> world \<Rightarrow> bool" where
  "verified w0 ctx k so msg sig w \<longleftrightarrow> (\<exists>cd der.
     digest_arg (so_Digest so) cd \<and> answered w0 (\<lambda>r. rc r > 0) (init_call ctx k cd) w
     \<and> in_der so sig der \<and> answered w0 (\<lambda>r. rc r = 1) (verify_call ctx der msg) w)"

lemma lasting_verified [lasting]: "lasting (verified w0 ctx k so msg sig)"
  unfolding verified_def by (intro lasting)

lemma verify_in_secures:
  assumes E: "since w0 E"
  shows "secures E (verify_in ctx k so msg sig) (\<lambda>_. verified w0 ctx k so msg sig)"
proof -
  note last = since_lasting [OF E]
  have body: "secures (\<lambda>w. E w \<and> answered w0 (\<lambda>r. rc r > 0) (init_call ctx k cd) w)
      (with_der (Some k) so sig (\<lambda>der. addr0 der (do { r \<leftarrow> call (verify_call ctx der msg); verdict ''EVP_DigestVerify'' r })))
      (\<lambda>_. verified w0 ctx k so msg sig)" if "digest_arg (so_Digest so) cd" for cd
    by (rule secures_der secures_guards(1) secures_call [of w0] secures_verdict lasting E last
        | use that in \<open>auto simp: verified_def intro: answeredI\<close>)+
  have "secures E (do {
     i \<leftarrow> call (init_call ctx k cd);
     if rc i \<le> 0 then failE ''EVP_DigestVerifyInit_ex''
     else do {
       ty \<leftarrow> Key_Type (Some k);
       must (applySignOptions (HMdCtx, ctx) ty so) (\<lambda>_. with_der (Some k) so sig (\<lambda>der. addr0 der (do {
         r \<leftarrow> call (verify_call ctx der msg); verdict ''EVP_DigestVerify'' r })))
     }
   }) (\<lambda>_. verified w0 ctx k so msg sig)" if "digest_arg (so_Digest so) cd" for cd
  proof (rule secures_call [OF E], rule secures_if, rule secures_stop)
    fix r :: cret assume r: "\<not> rc r \<le> 0"
    let ?F = "\<lambda>w. E w \<and> saw (init_call ctx k cd, r) w0 w"
    have F: "lasting ?F" by (intro lasting last)
    have w: "E w \<and> answered w0 (\<lambda>r. rc r > 0) (init_call ctx k cd) w" if "?F w" for w
      using that r by (auto intro: answeredI)
    show "secures ?F (Key_Type (Some k) \<bind> (\<lambda>ty. must (applySignOptions (HMdCtx, ctx) ty so)
        (\<lambda>_. with_der (Some k) so sig (\<lambda>der. addr0 der (do {
           r \<leftarrow> call (verify_call ctx der msg); verdict ''EVP_DigestVerify'' r })))))
        (\<lambda>_. verified w0 ctx k so msg sig)"
      by (rule secures_then adds F secures_step secures_weaken [OF body [OF that]] w | assumption)+
  qed
  then show ?thesis
    unfolding verify_in_def verify_call_def [symmetric] init_call_def [symmetric]
    by (intro secures_digest last lasting)
qed

text \<open>The options in force: those given, with the digest filled in when it was left empty.\<close>

definition in_force :: "SignOptions option \<Rightarrow> SignOptions \<Rightarrow> bool" where
  "in_force opts so \<longleftrightarrow> (let c = (case opts of None \<Rightarrow> no_options | Some x \<Rightarrow> x) in
     \<exists>d. so = c\<lparr>so_Digest := d\<rparr> \<and> (so_Digest c \<noteq> [] \<longrightarrow> d = so_Digest c))"

lemma secures_signOpts:
  assumes "\<And>so. in_force opts so \<Longrightarrow> secures E (f so) P" "lasting E"
  shows "secures E (signOpts k opts \<bind> f) P"
proof -
  have "in_force opts so" if "(case opts of None \<Rightarrow> no_options | Some x \<Rightarrow> x) = so" "so_Digest so \<noteq> []" for so
    using that by (auto simp: in_force_def Let_def intro!: exI [of _ "so_Digest so"])
  moreover have "in_force opts (so\<lparr>so_Digest := d\<rparr>)" if "(case opts of None \<Rightarrow> no_options | Some x \<Rightarrow> x) = so" "so_Digest so = []" for so d
    using that by (auto simp: in_force_def Let_def)
  ultimately show ?thesis
    using assms by (auto simp: signOpts_def Let_def bind_assoc intro!: secures_then adds)
qed

lemma Key_Verify_secures:
  assumes E: "since w0 E"
  shows "secures E (Key_Verify (Some k) msg sig opts) (\<lambda>_ w'. sig \<noteq> []
    \<and> (\<exists>so ty ctx. in_force opts so \<and> checkSignOptions ty so = Inr () \<and> ctx \<noteq> NULL \<and> verified w0 ctx k so msg sig w'))"
    (is "secures E _ ?P")
proof -
  have P: "lasting (?P x)" for x by (intro lasting)
  show ?thesis
    unfolding Key_Verify_def option.case
    by (rule secures_if secures_stop secures_signOpts since_lasting [OF E] secures_must_lift secures_temp P
        secures_then [OF adds_query(2)] secures_then [OF anything.passes_err(1)]
        secures_post [OF verify_in_secures] E | force)+
qed

text \<open>
  C3: \<open>Verify\<close> succeeds only when the options in force were accepted for the type of the key, and
  the library answered 1 to the verification of the signature -- turned into DER first when the
  options ask for the fixed-width form -- over this message, on a context it had set up with this key
  and digest.
\<close>

theorem Verify_sound:
  assumes "run_state (Key_Verify (Some k) msg sig opts) w = (Inr (), w')"
  shows "sig \<noteq> [] \<and> (\<exists>so ty ctx. in_force opts so \<and> checkSignOptions ty so = Inr () \<and> ctx \<noteq> NULL
    \<and> verified w ctx k so msg sig w')"
  using secures_result [OF Key_Verify_secures [OF since_rules(1)] assms] .

text \<open>A library with an EC key.\<close>

definition lib_ec :: "event list \<Rightarrow> ccall \<Rightarrow> cret" where
  "lib_ec h c = (case c of
     Do f hs as \<Rightarrow> if f = ''EVP_PKEY_get0_type_name'' then (yes h)\<lparr>rstr := ''EC''\<rparr>
       else if f = ''EVP_PKEY_get_bits'' then (yes h)\<lparr>rc := 16\<rparr> else yes h
   | _ \<Rightarrow> yes h)"

lemma Verify_sound_witness:
  "\<exists>so ty ctx. in_force (Some (no_options\<lparr>so_Format := SignatureP1363\<rparr>)) so \<and> checkSignOptions ty so = Inr () \<and> ctx \<noteq> NULL
     \<and> verified (world_of lib_ec [(HPkey, 5)]) ctx demo_key so [1, 2] [0, 7, 0, 9]
         (snd (run_state (Key_Verify (Some demo_key) [1, 2] [0, 7, 0, 9] (Some (no_options\<lparr>so_Format := SignatureP1363\<rparr>)))
           (world_of lib_ec [(HPkey, 5)])))"
proof -
  have "fst (run_state (Key_Verify (Some demo_key) [1, 2] [0, 7, 0, 9] (Some (no_options\<lparr>so_Format := SignatureP1363\<rparr>)))
      (world_of lib_ec [(HPkey, 5)])) = Inr ()"
    by code_simp
  from Verify_sound [OF run_fst [OF this]] show ?thesis by (rule conjunct2)
qed

end
