(* ===== verification/Signer.thy ===== *)
theory Signer
  imports Sign Lifecycle
begin

text \<open>
  signer.go: a message streamed into a signature or a verification. Both objects hold a context
  and a reference on the key of their own; each is finalised once.
\<close>

section \<open>Operations\<close>

record signer =
  s_mdctx :: ptr
  s_pkey :: ptr
  s_name :: string
  s_done :: bool

text \<open>\<open>Verifier\<close> is a struct of its own with the same fields.\<close>

record verifier =
  v_mdctx :: ptr
  v_pkey :: ptr
  v_name :: string
  v_done :: bool

text \<open>The releases before an early return.\<close>

definition drop_stream :: "ptr \<Rightarrow> ptr \<Rightarrow> (world, unit) state" where
  "drop_stream pkey mdctx = do { free HPkey pkey; free HMdCtx mdctx }"

definition stream_op :: "bool \<Rightarrow> string" where
  "stream_op verify = (if verify then ''EVP_DigestVerifyInit_ex'' else ''EVP_DigestSignInit_ex'')"

definition stream_setup :: "key \<Rightarrow> SignOptions \<Rightarrow> bool \<Rightarrow> ptr \<Rightarrow> (ptr \<times> ptr) go" where
  "stream_setup k so verify mdctx = with_digest (so_Digest so) (\<lambda>cd. do {
     i \<leftarrow> call (Do (stream_op verify) [(HMdCtx, mdctx), (HPkey, k_pkey k)] [cd, ANull, ANull, ANull]);
     if rc i \<le> 0 then do { drop_stream (k_pkey k) mdctx; failE (stream_op verify) }
     else do {
       ty \<leftarrow> Key_Type (Some k);
       onerr (applySignOptions (HMdCtx, mdctx) ty so)
         (\<lambda>e. do { drop_stream (k_pkey k) mdctx; fail e })
         (\<lambda>_. ok (mdctx, k_pkey k))
     }
   })"

definition stream_open :: "key \<Rightarrow> SignOptions \<Rightarrow> bool \<Rightarrow> (ptr \<times> ptr) go" where
  "stream_open k so verify = do {
     mdctx \<leftarrow> new HMdCtx ''EVP_MD_CTX_new'' [] [];
     if mdctx = NULL then failE ''EVP_MD_CTX_new''
     else do {
       u \<leftarrow> call (UpRef HPkey (k_pkey k));
       if rc u \<noteq> 1 then do { free HMdCtx mdctx; failE ''EVP_PKEY_up_ref'' }
       else stream_setup k so verify mdctx
     }
   }"

definition streamInit :: "key option \<Rightarrow> SignOptions option \<Rightarrow> bool \<Rightarrow> (ptr \<times> ptr) go" where
  "streamInit k opts verify = (case k of None \<Rightarrow> fail ErrClosed | Some x \<Rightarrow>
     if k_pkey x = NULL then fail ErrClosed
     else do {
       one \<leftarrow> oneShotOnly k;
       if one then do {
         ty \<leftarrow> Key_Type k;
         fail (Errorf ''ossl: %s hashes the message internally and cannot be streamed; use Key.Sign or Key.Verify'' [FStr ty])
       }
       else do {
         so \<leftarrow> signOpts k opts;
         ty \<leftarrow> Key_Type k;
         must (lift (checkSignOptions ty so)) (\<lambda>_. do { clearErrors; stream_open x so verify })
       }
     })"

definition NewSigner :: "key option \<Rightarrow> SignOptions option \<Rightarrow> signer go" where
  "NewSigner k opts = must (streamInit k opts False) (\<lambda>(mdctx, pkey). do {
     ty \<leftarrow> Key_Type k;
     ok \<lparr>s_mdctx = mdctx, s_pkey = pkey, s_name = ty, s_done = False\<rparr>
   })"

definition NewVerifier :: "key option \<Rightarrow> SignOptions option \<Rightarrow> verifier go" where
  "NewVerifier k opts = must (streamInit k opts True) (\<lambda>(mdctx, pkey). do {
     ty \<leftarrow> Key_Type k;
     ok \<lparr>v_mdctx = mdctx, v_pkey = pkey, v_name = ty, v_done = False\<rparr>
   })"

definition Signer_Name :: "signer option \<Rightarrow> string" where
  "Signer_Name s = (case s of None \<Rightarrow> [] | Some x \<Rightarrow> s_name x)"

definition Verifier_Name :: "verifier option \<Rightarrow> string" where
  "Verifier_Name v = (case v of None \<Rightarrow> [] | Some x \<Rightarrow> v_name x)"

definition Signer_Write :: "signer option \<Rightarrow> byte list \<Rightarrow> int go" where
  "Signer_Write s p = (case s of None \<Rightarrow> fail ErrClosed | Some x \<Rightarrow>
     if s_mdctx x = NULL then fail ErrClosed
     else if s_done x then fail (Errorf ''ossl: Signer already finalised by Sign'' [])
     else if p = [] then ok 0
     else do {
       r \<leftarrow> call (Do ''EVP_DigestSignUpdate'' [(HMdCtx, s_mdctx x)] [ABytes p, AInt (c_size_t (go_len p))]);
       if rc r \<le> 0 then failE ''EVP_DigestSignUpdate'' else ok (go_len p)
     })"

definition Verifier_Write :: "verifier option \<Rightarrow> byte list \<Rightarrow> int go" where
  "Verifier_Write v p = (case v of None \<Rightarrow> fail ErrClosed | Some x \<Rightarrow>
     if v_mdctx x = NULL then fail ErrClosed
     else if v_done x then fail (Errorf ''ossl: Verifier already finalised by Verify'' [])
     else if p = [] then ok 0
     else do {
       r \<leftarrow> call (Do ''EVP_DigestVerifyUpdate'' [(HMdCtx, v_mdctx x)] [ABytes p, AInt (c_size_t (go_len p))]);
       if rc r \<le> 0 then failE ''EVP_DigestVerifyUpdate'' else ok (go_len p)
     })"

text \<open>A method that changes its receiver returns it beside the result; a failed one leaves it.\<close>

definition kept :: "'s \<Rightarrow> 'a go \<Rightarrow> (world, 's \<times> (err + 'a)) state" where
  "kept s m = do { r \<leftarrow> m; ret (s, r) }"

definition Signer_Sign :: "signer option \<Rightarrow> (world, signer option \<times> (err + byte list)) state" where
  "Signer_Sign s = (case s of None \<Rightarrow> ret (s, Inl ErrClosed) | Some x \<Rightarrow>
     if s_mdctx x = NULL then ret (s, Inl ErrClosed)
     else if s_done x then ret (s, Inl (Errorf ''ossl: Signer already finalised by Sign'' []))
     else do {
       q \<leftarrow> call (Do ''EVP_DigestSignFinal'' [(HMdCtx, s_mdctx x)] [ANull]);
       if rc q \<le> 0 then kept s (failE ''EVP_DigestSignFinal(size)'')
       else if rlen q = 0 then kept s (failE ''EVP_DigestSignFinal reported a zero-length signature'')
       else if rlen q < 0 then ret (s, Inl (Panic ''makeslice: len out of range''))
       else do {
         r \<leftarrow> call (Do ''EVP_DigestSignFinal'' [(HMdCtx, s_mdctx x)] [AOut (rlen q)]);
         if rc r \<le> 0 then kept s (failE ''EVP_DigestSignFinal'')
         else kept (Some (x\<lparr>s_done := True\<rparr>))
           (slice_to (write_at (replicate (nat (rlen q)) 0) 0 (rbuf r)) (rlen r) ok)
       }
     })"

definition Verifier_Verify :: "verifier option \<Rightarrow> byte list \<Rightarrow> (world, verifier option \<times> (err + unit)) state" where
  "Verifier_Verify v sig = (case v of None \<Rightarrow> ret (v, Inl ErrClosed) | Some x \<Rightarrow>
     if v_mdctx x = NULL then ret (v, Inl ErrClosed)
     else if v_done x then ret (v, Inl (Errorf ''ossl: Verifier already finalised by Verify'' []))
     else if sig = [] then ret (Some (x\<lparr>v_done := True\<rparr>), Inl ErrVerification)
     else do {
       r \<leftarrow> call (Do ''EVP_DigestVerifyFinal'' [(HMdCtx, v_mdctx x)] [ABytes sig, AInt (c_size_t (go_len sig))]);
       kept (Some (x\<lparr>v_done := True\<rparr>)) (verdict ''EVP_DigestVerifyFinal'' r)
     })"

definition Signer_Close :: "signer option \<Rightarrow> (signer option) go" where
  "Signer_Close s = (case s of None \<Rightarrow> ok None | Some x \<Rightarrow> do {
     (if s_mdctx x \<noteq> NULL then free HMdCtx (s_mdctx x) else ret ());
     (if s_pkey x \<noteq> NULL then free HPkey (s_pkey x) else ret ());
     ok (Some (x\<lparr>s_mdctx := NULL, s_pkey := NULL\<rparr>))
   })"

definition Verifier_Close :: "verifier option \<Rightarrow> (verifier option) go" where
  "Verifier_Close v = (case v of None \<Rightarrow> ok None | Some x \<Rightarrow> do {
     (if v_mdctx x \<noteq> NULL then free HMdCtx (v_mdctx x) else ret ());
     (if v_pkey x \<noteq> NULL then free HPkey (v_pkey x) else ret ());
     ok (Some (x\<lparr>v_mdctx := NULL, v_pkey := NULL\<rparr>))
   })"

section \<open>Used in any order\<close>

text \<open>What a caller does with a stream object: the finish carries what it needs.\<close>

datatype 'a stream_use = Feed "byte list" | Finish 'a | Shut

fun uses :: "('op \<Rightarrow> 's \<Rightarrow> (world, 's) state) \<Rightarrow> 'op list \<Rightarrow> 's \<Rightarrow> (world, 's) state" where
  "uses step [] s = ret s"
| "uses step (x # xs) s = do { t \<leftarrow> step x s; uses step xs t }"

text \<open>In a stretch of history, newest first: after a final event no event touches the context.\<close>

fun once :: "(event \<Rightarrow> bool) \<Rightarrow> (event \<Rightarrow> bool) \<Rightarrow> event list \<Rightarrow> bool" where
  "once T F [] = True"
| "once T F (e # es) \<longleftrightarrow> (T e \<longrightarrow> \<not> list_ex F es) \<and> once T F es"

lemma once_append:
  "once T F (xs @ ys) \<longleftrightarrow> once T F xs \<and> once T F ys \<and> (list_ex F ys \<longrightarrow> \<not> list_ex T xs)"
  by (induction xs) auto

lemma once_quiet: "\<not> list_ex T es \<Longrightarrow> once T F es"
  by (induction es) auto

definition opt_refs :: "('r \<Rightarrow> handle multiset) \<Rightarrow> 'r option \<Rightarrow> handle multiset" where
  "opt_refs refs s = (case s of None \<Rightarrow> {#} | Some x \<Rightarrow> refs x)"

text \<open>
  The contract of an object finalised once, on top of that of a closable one: a step accounts for
  the references, a finished object stays finished and is not touched, and a final event finishes it.
\<close>

locale one_shot = closable close closed refs
  for close :: "'r option \<Rightarrow> ('r option) go" and closed :: "'r \<Rightarrow> bool" and refs :: "'r \<Rightarrow> handle multiset" +
  fixes step :: "'op \<Rightarrow> 'r option \<Rightarrow> (world, 'r option) state"
    and finished :: "'r option \<Rightarrow> bool"
    and touches :: "event \<Rightarrow> bool"
    and final :: "event \<Rightarrow> bool"
  assumes step_owns: "owned w = M + opt_refs refs s \<Longrightarrow>
      wp (step x s) (\<lambda>t w'. now_owns (M + opt_refs refs t) w w') w"
    and step_once: "wp (step x s) (\<lambda>t w'. \<exists>es. hist w' = es @ hist w \<and> once touches final es
      \<and> (finished s \<longrightarrow> finished t \<and> \<not> list_ex touches es) \<and> (list_ex final es \<longrightarrow> finished t)) w"
    and final_touches: "final e \<Longrightarrow> touches e"
begin

lemma uses_owns:
  "owned w = M + opt_refs refs s \<Longrightarrow> wp (uses step xs s) (\<lambda>t w'. now_owns (M + opt_refs refs t) w w') w"
proof (induction xs arbitrary: s w)
  case (Cons x xs)
  have next_use: "wp (uses step xs t) (\<lambda>t w'. now_owns (M + opt_refs refs t) w w') w1"
    if "now_owns (M + opt_refs refs t) w w1" for t w1
    by (rule wp_mono [OF Cons.IH]) (use that in \<open>auto simp: now_owns_def\<close>)
  show ?case
    unfolding uses.simps wp_bind by (rule wp_mono [OF step_owns [OF Cons.prems]]) (rule next_use)
qed (simp add: now_owns_def)

lemma uses_once:
  "wp (uses step xs s) (\<lambda>_ w'. \<exists>es. hist w' = es @ hist w \<and> once touches final es
     \<and> (finished s \<longrightarrow> \<not> list_ex touches es)) w"
proof (induction xs arbitrary: s w)
  case (Cons x xs)
  show ?case
    unfolding uses.simps wp_bind
  proof (rule wp_mono [OF step_once], elim exE conjE)
    fix t es and w1 :: world
    assume e: "hist w1 = es @ hist w" "once touches final es"
      "finished s \<longrightarrow> finished t \<and> \<not> list_ex touches es" "list_ex final es \<longrightarrow> finished t"
    show "wp (uses step xs t) (\<lambda>_ w'. \<exists>es. hist w' = es @ hist w \<and> once touches final es
        \<and> (finished s \<longrightarrow> \<not> list_ex touches es)) w1"
    proof (rule wp_mono [OF Cons.IH], elim exE conjE)
      fix ds and w2 :: world
      assume "hist w2 = ds @ hist w1" "once touches final ds" "finished t \<longrightarrow> \<not> list_ex touches ds"
      with e show "\<exists>es. hist w2 = es @ hist w \<and> once touches final es \<and> (finished s \<longrightarrow> \<not> list_ex touches es)"
        by (intro exI [of _ "ds @ es"]) (auto simp: once_append)
    qed
  qed
qed simp

text \<open>Whatever was done with the object, closing it twice at the end gives back what it holds.\<close>

lemma uses_closed:
  assumes "owned w = M + refs x" "\<And>y. closed y \<Longrightarrow> refs y = {#}"
  shows "wp (do { s \<leftarrow> uses step xs (Some x); must (close s) close }) (\<lambda>r w'. (\<exists>s. r = Inr s) \<and> now_owns M w w') w"
  unfolding wp_bind
proof (rule wp_mono [OF uses_owns], simp add: opt_refs_def assms(1))
  fix s w1 assume w1: "now_owns (M + opt_refs refs s) w w1"
  then have own: "owned w1 = M + opt_refs refs s" by (simp add: now_owns_def)
  show "wp (must (close s) close) (\<lambda>r w'. (\<exists>s. r = Inr s) \<and> now_owns M w w') w1"
  proof (cases s)
    case None
    with w1 show ?thesis by (simp add: close_nil opt_refs_def)
  next
    case (Some y)
    show ?thesis
    proof (cases "closed y")
      case True
      then have "now_owns M w w1" using w1 Some assms(2) by (simp add: opt_refs_def)
      then show ?thesis
        unfolding Some wp_must
        by (auto intro!: wp_mono [OF close_closed [OF True]] simp: keeps_now_owns dest: now_owns_trans)
          (auto simp: now_owns_def)
    next
      case False
      have "owned w1 = M + refs y" using own Some by (simp add: opt_refs_def)
      from close_twice [OF False this] show ?thesis
        unfolding Some by (rule wp_mono) (auto intro: now_owns_trans [OF w1])
    qed
  qed
qed

end

section \<open>Ownership\<close>

definition signer_refs :: "signer \<Rightarrow> handle multiset" where
  "signer_refs s = held HMdCtx (s_mdctx s) + held HPkey (s_pkey s)"

definition verifier_refs :: "verifier \<Rightarrow> handle multiset" where
  "verifier_refs v = held HMdCtx (v_mdctx v) + held HPkey (v_pkey v)"

interpretation signer: closable Signer_Close "\<lambda>s. s_mdctx s = NULL \<and> s_pkey s = NULL" signer_refs
  by unfold_locales (auto simp: Signer_Close_def signer_refs_def now_owns_def keeps_def held_def intro!: vcg)

interpretation verifier: closable Verifier_Close "\<lambda>v. v_mdctx v = NULL \<and> v_pkey v = NULL" verifier_refs
  by unfold_locales (auto simp: Verifier_Close_def verifier_refs_def now_owns_def keeps_def held_def intro!: vcg)


fun signer_step :: "unit stream_use \<Rightarrow> signer option \<Rightarrow> (world, signer option) state" where
  "signer_step (Feed p) s = do { Signer_Write s p; ret s }"
| "signer_step (Finish u) s = do { (t, r) \<leftarrow> Signer_Sign s; ret t }"
| "signer_step Shut s = do { r \<leftarrow> Signer_Close s; ret (case r of Inl e \<Rightarrow> s | Inr t \<Rightarrow> t) }"

fun verifier_step :: "byte list stream_use \<Rightarrow> verifier option \<Rightarrow> (world, verifier option) state" where
  "verifier_step (Feed p) v = do { Verifier_Write v p; ret v }"
| "verifier_step (Finish sig) v = do { (t, r) \<leftarrow> Verifier_Verify v sig; ret t }"
| "verifier_step Shut v = do { r \<leftarrow> Verifier_Close v; ret (case r of Inl e \<Rightarrow> v | Inr t \<Rightarrow> t) }"

text \<open>A signer is finished by the final call that succeeds, a verifier by its only final call.\<close>

fun sign_touches :: "event \<Rightarrow> bool" where
  "sign_touches (Do f hs as, r) \<longleftrightarrow> f \<in> {''EVP_DigestSignUpdate'', ''EVP_DigestSignFinal''}"
| "sign_touches _ = False"

fun sign_final :: "event \<Rightarrow> bool" where
  "sign_final (Do f hs as, r) \<longleftrightarrow> f = ''EVP_DigestSignFinal'' \<and> as \<noteq> [ANull] \<and> rc r > 0"
| "sign_final _ = False"

fun verify_touches :: "event \<Rightarrow> bool" where
  "verify_touches (Do f hs as, r) \<longleftrightarrow> f \<in> {''EVP_DigestVerifyUpdate'', ''EVP_DigestVerifyFinal''}"
| "verify_touches _ = False"

fun verify_final :: "event \<Rightarrow> bool" where
  "verify_final (Do f hs as, r) \<longleftrightarrow> f = ''EVP_DigestVerifyFinal''"
| "verify_final _ = False"

definition signer_finished :: "signer option \<Rightarrow> bool" where
  "signer_finished s \<longleftrightarrow> (case s of None \<Rightarrow> True | Some x \<Rightarrow> s_mdctx x = NULL \<or> s_done x)"

definition verifier_finished :: "verifier option \<Rightarrow> bool" where
  "verifier_finished v \<longleftrightarrow> (case v of None \<Rightarrow> True | Some x \<Rightarrow> v_mdctx x = NULL \<or> v_done x)"

lemma err_quiet:
  assumes "list_all (err_call \<circ> fst) es" "\<And>c r. T (c, r) \<Longrightarrow> \<not> err_call c"
  shows "\<not> list_ex T es"
  using assms by (induction es) auto

lemma err_untouched:
  "sign_touches (c, r) \<Longrightarrow> \<not> err_call c" "verify_touches (c, r) \<Longrightarrow> \<not> err_call c"
  by (cases c; auto)+

text \<open>The error queue, as a stretch of history that neither touches nor ends a stream.\<close>

lemma err_stretch:
  assumes "err_only w w'"
  obtains es where "hist w' = es @ hist w" "\<not> list_ex sign_touches es" "\<not> list_ex verify_touches es"
    "\<not> list_ex sign_final es" "\<not> list_ex verify_final es"
proof -
  obtain es where es: "hist w' = es @ hist w" "list_all (err_call \<circ> fst) es"
    using assms by (auto simp: err_only_def)
  have "\<not> list_ex T es" if "\<And>c r. T (c, r) \<Longrightarrow> \<not> err_call c" for T by (rule err_quiet [OF es(2) that])
  moreover have "sign_final (c, r) \<Longrightarrow> \<not> err_call c" "verify_final (c, r) \<Longrightarrow> \<not> err_call c" for c r
    by (cases c; auto)+
  ultimately show thesis using es(1) err_untouched that by metis
qed

lemma failE_stretch:
  "(\<And>e w' es. hist w' = es @ hist w \<Longrightarrow> \<not> list_ex sign_touches es \<Longrightarrow> \<not> list_ex verify_touches es \<Longrightarrow>
      \<not> list_ex sign_final es \<Longrightarrow> \<not> list_ex verify_final es \<Longrightarrow> Q (Inl e) w') \<Longrightarrow> wp (failE op) Q w"
  unfolding failE_def wp_bind
  by (rule wp_mono [OF newError_err_only]) (auto elim!: err_stretch)

lemma verdict_stretch:
  "(\<And>x w' es. hist w' = es @ hist w \<Longrightarrow> \<not> list_ex sign_touches es \<Longrightarrow> \<not> list_ex verify_touches es \<Longrightarrow>
      \<not> list_ex sign_final es \<Longrightarrow> \<not> list_ex verify_final es \<Longrightarrow> Q x w') \<Longrightarrow> wp (verdict op r) Q w"
  unfolding verdict_def
  by (auto intro!: wp_mono [OF newError_err_only] wp_mono [OF clearErrors_err_only] elim!: err_stretch)

lemmas stretch_intros = failE_stretch verdict_stretch wp_call

interpretation signer: one_shot Signer_Close "\<lambda>s. s_mdctx s = NULL \<and> s_pkey s = NULL" signer_refs
  signer_step signer_finished sign_touches sign_final
proof (unfold_locales, goal_cases)
  case (1 w M s x)
  then show ?case
    by (cases x; cases s)
      (auto simp: Signer_Write_def Signer_Sign_def Signer_Close_def kept_def wp_defs opt_refs_def signer_refs_def held_def
        now_owns_def keeps_def intro!: vcg split: if_splits)
next
  case (2 x s w)
  show ?case
    by (cases x; cases s)
      (auto simp: Signer_Write_def Signer_Sign_def Signer_Close_def signer_finished_def kept_def wp_defs once_append once_quiet
        intro!: stretch_intros ext_intros)
next
  case (3 e)
  then show ?case by (cases e rule: sign_final.cases) auto
qed


interpretation verifier: one_shot Verifier_Close "\<lambda>v. v_mdctx v = NULL \<and> v_pkey v = NULL" verifier_refs
  verifier_step verifier_finished verify_touches verify_final
proof (unfold_locales, goal_cases)
  case (1 w M s x)
  then show ?case
    by (cases x; cases s)
      (auto simp: Verifier_Write_def Verifier_Verify_def Verifier_Close_def kept_def wp_defs opt_refs_def verifier_refs_def
        held_def now_owns_def keeps_def verdict_def intro!: vcg split: if_splits)
next
  case (2 x s w)
  show ?case
    by (cases x; cases s)
      (auto simp: Verifier_Write_def Verifier_Verify_def Verifier_Close_def verifier_finished_def kept_def wp_defs once_append
        once_quiet intro!: stretch_intros ext_intros)
next
  case (3 e)
  then show ?case by (cases e rule: verify_final.cases) auto
qed

text \<open>
  C10: however a \<open>Signer\<close> or a \<open>Verifier\<close> is written to, finished and closed, once the library has
  produced the signature, or was asked for the verdict, it never sees that stream again: no
  update and no second final call follows.
\<close>

theorem Stream_finalised_once:
  "(\<exists>es. hist (snd (run_state (uses signer_step xs s) w)) = es @ hist w \<and> once sign_touches sign_final es)
   \<and> (\<exists>es. hist (snd (run_state (uses verifier_step ys v) w)) = es @ hist w \<and> once verify_touches verify_final es)"
proof -
  obtain t w' u w2 where runs: "run_state (uses signer_step xs s) w = (t, w')" "run_state (uses verifier_step ys v) w = (u, w2)"
    by force
  show ?thesis
    using wp_runD [OF signer.uses_once runs(1)] wp_runD [OF verifier.uses_once runs(2)] runs by auto
qed

section \<open>A stream outlives its key\<close>

definition stream_made :: "world \<Rightarrow> ptr \<Rightarrow> err + ptr \<times> ptr \<Rightarrow> world \<Rightarrow> bool" where
  "stream_made w p r w' \<longleftrightarrow> (case r of Inl e \<Rightarrow> is_panic e \<or> keeps w w'
     | Inr (m, q) \<Rightarrow> m \<noteq> NULL \<and> q = p \<and> gains {#(HMdCtx, m), (HPkey, p)#} w w')"

lemma applySignOptions_held:
  assumes "(HMdCtx, m) \<in># owned w"
  shows "wp (applySignOptions (HMdCtx, m) ty so) (\<lambda>r w'. neutral r w w') w"
  by (rule neutral_opD [OF applySignOptions_neutral [where I = "\<lambda>w. (HMdCtx, m) \<in># owned w"]])
    (use assms in \<open>auto simp: stable_def gains_def\<close>)

lemma drop_stream_spec:
  "owned w = N + {#(HMdCtx, m), (HPkey, p)#} \<Longrightarrow> m \<noteq> NULL \<Longrightarrow> p \<noteq> NULL \<Longrightarrow>
   wp (drop_stream p m) (\<lambda>_ w'. now_owns N w w') w"
  by (auto simp: drop_stream_def now_owns_def intro!: vcg)

lemma stream_body_spec:
  assumes "owned w = N + {#(HMdCtx, m), (HPkey, k_pkey k)#}" "m \<noteq> NULL" "k_pkey k \<noteq> NULL" "key_ok k w"
    and "arg_handles cd \<subseteq> set_mset N"
  shows "wp (do {
      i \<leftarrow> call (Do f [(HMdCtx, m), (HPkey, k_pkey k)] [cd, ANull, ANull, ANull]);
      if rc i \<le> 0 then do { drop_stream (k_pkey k) m; failE f }
      else do {
        ty \<leftarrow> Key_Type (Some k);
        onerr (applySignOptions (HMdCtx, m) ty so) (\<lambda>e. do { drop_stream (k_pkey k) m; fail e }) (\<lambda>_. ok (m, k_pkey k))
      } }) (\<lambda>r w'. case r of Inl e \<Rightarrow> is_panic e \<or> now_owns N w w'
        | Inr (n, q) \<Rightarrow> n = m \<and> q = k_pkey k \<and> keeps w w') w"
proof -
  let ?Q = "\<lambda>r w'. case r of Inl e \<Rightarrow> is_panic e \<or> now_owns N w w' | Inr (n, q) \<Rightarrow> n = m \<and> q = k_pkey k \<and> keeps w w'"
  have drop: "wp (drop_stream (k_pkey k) m) (\<lambda>_ w'. now_owns N w w') w1" if "keeps w w1" for w1
    by (rule wp_mono [OF drop_stream_spec]) (use that assms in \<open>auto simp: keeps_def now_owns_def\<close>)
  have init: "keeps w (push (Do f [(HMdCtx, m), (HPkey, k_pkey k)] [cd, ANull, ANull, ANull]) i w)" for i
    using assms by (auto simp: keeps_def uses_of_def live_handles_def)
  have last: "wp (onerr (applySignOptions (HMdCtx, m) ty so) (\<lambda>e. do { drop_stream (k_pkey k) m; fail e }) (\<lambda>_. ok (m, k_pkey k))) ?Q w1"
    if "keeps w w1" for ty w1
  proof -
    have "(HMdCtx, m) \<in># owned w1" using that assms(1) by (simp add: keeps_def)
    from applySignOptions_held [OF this] show ?thesis
      unfolding wp_onerr
      by (rule wp_mono) (use that in \<open>auto split: sum.splits dest: neutral_error keeps_trans intro!: wp_mono [OF drop]\<close>)
  qed
  have fails: "wp (failE f) ?Q w1" if "now_owns N w w1" for w1
    using that by (auto intro!: vcg simp: keeps_now_owns dest: now_owns_trans) (auto simp: now_owns_def)
  have ty: "wp (Key_Type (Some k)) (\<lambda>_ w'. keeps w w') w1" if "keeps w w1" for w1
    using stable_keeps [OF stable_key assms(4) that] that
    by (auto simp: key_queries intro!: vcg intro: keeps_trans)
  show ?thesis
    unfolding wp_bind wp_if
    by (rule wp_call) (auto simp del: wp_onerr intro!: wp_mono [OF drop] wp_mono [OF ty] fails last init)
qed

lemma stream_setup_spec:
  assumes k: "key_ok k w" "k_pkey k \<noteq> NULL" and m: "m \<noteq> NULL" "gains {#(HMdCtx, m), (HPkey, k_pkey k)#} w w1"
  shows "wp (stream_setup k so verify m) (stream_made w (k_pkey k)) w1"
proof -
  have key: "key_ok k w1" by (rule stableD [OF stable_key k(1) m(2)])
  have w1: "owned w1 = owned w + {#(HMdCtx, m), (HPkey, k_pkey k)#}" "now_owns (owned w1) w w1"
    using m(2) by (auto simp: gains_def now_owns_def)
  show ?thesis
  proof (cases "so_Digest so = []")
    case True
    then show ?thesis
      unfolding stream_setup_def with_digest_def
      by (simp del: wp_bind) (rule wp_mono [OF stream_body_spec [OF w1(1) m(1) k(2) key]],
        use w1 m in \<open>auto simp: stream_made_def eff_defs now_owns_def split: sum.splits\<close>)
  next
    case False
    have body: "wp (do {
        i \<leftarrow> call (Do f [(HMdCtx, m), (HPkey, k_pkey k)] [AStr (rptr a) c, ANull, ANull, ANull]);
        if rc i \<le> 0 then do { drop_stream (k_pkey k) m; failE f }
        else do {
          ty \<leftarrow> Key_Type (Some k);
          onerr (applySignOptions (HMdCtx, m) ty so) (\<lambda>e. do { drop_stream (k_pkey k) m; fail e }) (\<lambda>_. ok (m, k_pkey k))
        } }) (\<lambda>r w'. \<forall>s. stream_made w (k_pkey k) r (push (Free HMem (rptr a)) s w')) (push (New HMem g [] []) a w1)"
      if "rptr a \<noteq> NULL" for f g a c
    proof (rule wp_mono [OF stream_body_spec [where N = "owned w + {#(HMem, rptr a)#}"]])
      show "key_ok k (push (New HMem g [] []) a w1)"
        by (rule stableD [OF stable_key key, where D = "{#(HMem, rptr a)#}"]) (use that in \<open>simp add: gains_def\<close>)
    qed (use that w1 m k in \<open>auto simp: stream_made_def eff_defs now_owns_def split: sum.splits\<close>)
    show ?thesis
      using False unfolding stream_setup_def with_digest_def with_cstr_def if_P [OF False] wp_bind [of "new _ _ _ _"] wp_new
      by (intro wp_call) (auto simp: stream_made_def simp del: wp_bind intro!: wp_call wp_mono [OF body])
  qed
qed


lemma streamInit_spec:
  assumes "key_ok k w" "k_pkey k \<noteq> NULL"
  shows "wp (streamInit (Some k) opts verify) (stream_made w (k_pkey k)) w"
proof -
  have key: "key_ok k w1" if "keeps w w1" for w1
    by (rule stable_keeps [OF stable_key assms(1) that])
  have held: "(HPkey, k_pkey k) \<in># owned w1" if "keeps w w1" for w1
    using key [OF that] assms(2) by (simp add: key_ok_def)
  have set_up: "wp (stream_setup k so verify m) (stream_made w (k_pkey k)) (push (UpRef HPkey (k_pkey k)) u (push (New HMdCtx f [] []) r w1))"
    if "keeps w w1" "rptr r = m" "m \<noteq> NULL" "rc u = 1" for w1 r u m so f
    by (rule stream_setup_spec [OF assms that(3)]) (use that held [OF that(1)] in \<open>auto simp: eff_defs\<close>)
  have asks: "wp (oneShotOnly (Some k)) (\<lambda>_ w'. keeps w w') w1" "wp (Key_Type (Some k)) (\<lambda>_ w'. keeps w w') w1"
    "wp (signOpts (Some k) opts) (\<lambda>_ w'. keeps w w') w1" "wp clearErrors (\<lambda>_ w'. keeps w w') w1" if "keeps w w1" for w1
    using key [OF that] that
    by (auto intro!: wp_mono [OF policy_keeps(1)] wp_mono [OF query_keeps(1)] wp_mono [OF signOpts_keeps] wp_mono [OF clear_keeps]
        intro: keeps_trans)
  have made: "wp (stream_open k so verify) (stream_made w (k_pkey k)) w1" if "keeps w w1" for so w1
    using that held [OF that] unfolding stream_open_def
    by (auto intro!: wp_call set_up wp_failE) (auto simp: stream_made_def eff_defs)
  have no: "stream_made w (k_pkey k) (Inl e) w1" if "keeps w w1" for e w1
    using that by (simp add: stream_made_def)
  show ?thesis
    using assms(2) unfolding streamInit_def
    by (auto intro!: wp_mono [OF asks(1)] wp_mono [OF asks(2)] wp_mono [OF asks(3)] wp_mono [OF asks(4)] made no
        split: sum.split)
qed

text \<open>The stream is made, its key closed under it, the stream used and closed twice.\<close>

definition use_and_close :: "unit stream_use list \<Rightarrow> signer \<Rightarrow> (signer option) go" where
  "use_and_close xs s = do { t \<leftarrow> uses signer_step xs (Some s); must (Signer_Close t) Signer_Close }"

definition signer_session :: "key \<Rightarrow> SignOptions option \<Rightarrow> unit stream_use list \<Rightarrow> (signer option) go" where
  "signer_session k opts xs = must (NewSigner (Some k) opts) (\<lambda>s.
     must (Key_Close (Some k)) (\<lambda>_. use_and_close xs s))"

lemma NewSigner_spec:
  assumes "key_ok k w" "k_pkey k \<noteq> NULL"
  shows "wp (NewSigner (Some k) opts) (\<lambda>r w'. case r of Inl e \<Rightarrow> is_panic e \<or> keeps w w'
    | Inr s \<Rightarrow> s_pkey s = k_pkey k \<and> gains (signer_refs s) w w') w"
proof -
  have ty: "wp (Key_Type (Some k)) (\<lambda>_ w'. gains D w w') w1" if "gains D w w1" for D w1
    using query_keeps(1) [of "Some k" w1] stableD [OF stable_key assms(1) that] that
    by (auto elim!: wp_mono simp: eff_defs)
  show ?thesis
    unfolding NewSigner_def
    by (auto intro!: wp_mono [OF streamInit_spec [OF assms]] wp_mono [OF ty]
        simp: stream_made_def signer_refs_def assms(2) add_mset_commute split: sum.splits)
qed

text \<open>
  C9: a \<open>Signer\<close> holds a reference on the key of its own: it may be written to, finished and
  closed in any order after its key has been closed, no call ever uses or releases a reference that is
  not held, and at the end exactly the reference of the key is gone. When no signer is made, the
  references are as they were; only a panic, which ends the process, may leave something behind.
\<close>

theorem Signer_outlives_key:
  assumes "key_ok k w" "k_pkey k \<noteq> NULL"
  shows "wp (signer_session k opts xs) (\<lambda>r w'. case r of Inl e \<Rightarrow> is_panic e \<or> keeps w w'
    | Inr _ \<Rightarrow> now_owns (owned w - {#(HPkey, k_pkey k)#}) w w') w"
proof -
  have key: "(HPkey, k_pkey k) \<in># owned w" using assms by (simp add: key_ok_def)
  let ?M = "owned w - {#(HPkey, k_pkey k)#}"
  have used: "wp (use_and_close xs s)
      (\<lambda>r w'. case r of Inl e \<Rightarrow> is_panic e \<or> keeps w w' | Inr _ \<Rightarrow> now_owns ?M w w') w2"
    if "now_owns (?M + signer_refs s) w w2" for s w2
    unfolding use_and_close_def
    by (rule wp_mono [OF signer.uses_closed [where M = ?M and x = s]])
      (use that in \<open>auto simp: signer_refs_def now_owns_def\<close>)
  have "wp (must (Key_Close (Some k)) (\<lambda>_. use_and_close xs s))
      (\<lambda>r w'. case r of Inl e \<Rightarrow> is_panic e \<or> keeps w w' | Inr _ \<Rightarrow> now_owns ?M w w') w1"
    if g: "gains (signer_refs s) w w1" for s w1
  proof -
    have "owned w1 = (?M + signer_refs s) + key_refs k" "now_owns (owned w1) w w1"
      using g key assms(2) by (auto simp: gains_def now_owns_def key_refs_def)
    note own = this(1) and later = now_owns_trans [OF this(2)]
    from key.close_open [OF _ own] assms(2) show ?thesis
      unfolding wp_must by (auto elim!: wp_mono intro!: used later)
  qed
  then show ?thesis
    unfolding signer_session_def wp_must [of "NewSigner _ _"]
    by (intro wp_mono [OF NewSigner_spec [OF assms]]) (simp del: wp_must split: sum.split_asm)
qed

lemma Signer_outlives_key_witness:
  "wp (signer_session demo_key None [Feed [1], Finish (), Feed [2], Finish (), Shut])
    (\<lambda>r w'. case r of Inl e \<Rightarrow> is_panic e \<or> keeps (world_of lib_ec [(HPkey, 5)]) w'
      | Inr _ \<Rightarrow> now_owns (owned (world_of lib_ec [(HPkey, 5)]) - {#(HPkey, k_pkey demo_key)#}) (world_of lib_ec [(HPkey, 5)]) w')
    (world_of lib_ec [(HPkey, 5)])"
  by (rule Signer_outlives_key) (simp_all add: demo_key_def key_ok_def ctx_live_def key_context_def)

end
