(* ===== verification/Enumerate.thy ===== *)
theory Enumerate
  imports Libctx Names "HOL-Library.List_Lexorder" "HOL-Library.Char_ord"
begin

text \<open>
  enumerate.go: listing the algorithms a context provides, and checking names against it. The
  C callback collects names into an array of fixed capacity; Go sorts what it collected and,
  for digests and ciphers, keeps the names that a fetch confirms. Strings are ordered
  lexicographically by byte, as Go orders them.
\<close>

section \<open>The C side\<close>

definition OSSL_MAX_NAMES :: nat where "OSSL_MAX_NAMES = 512"

record ossl_name_list =
  nl_items :: "string list"
  nl_overflow :: bool

definition empty_names :: ossl_name_list where
  "empty_names = \<lparr>nl_items = [], nl_overflow = False\<rparr>"

text \<open>The capacity is tested before the duplicate.\<close>

definition ossl_name_append :: "string \<Rightarrow> ossl_name_list \<Rightarrow> ossl_name_list" where
  "ossl_name_append name l =
     (if length (nl_items l) \<ge> OSSL_MAX_NAMES then l\<lparr>nl_overflow := True\<rparr>
      else if name \<in> set (nl_items l) then l
      else l\<lparr>nl_items := nl_items l @ [name]\<rparr>)"

text \<open>Resolving a curve name, and the name to report for a curve: the NIST one where it has one.\<close>

definition NID_undef :: int where "NID_undef = 0"

definition ossl_curve_nid :: "carg \<Rightarrow> (world, int) state" where
  "ossl_curve_nid name = do {
     a \<leftarrow> call (Do ''EC_curve_nist2nid'' [] [name]);
     if rlen a \<noteq> NID_undef then ret (rlen a) else do {
       b \<leftarrow> call (Do ''OBJ_sn2nid'' [] [name]);
       if rlen b \<noteq> NID_undef then ret (rlen b) else do {
         c \<leftarrow> call (Do ''OBJ_txt2nid'' [] [name]);
         ret (rlen c)
       }
     }
   }"

definition ossl_curve_display_name :: "int \<Rightarrow> (world, string option) state" where
  "ossl_curve_display_name nid = do {
     a \<leftarrow> call (Do ''EC_curve_nid2nist'' [] [AInt nid]);
     if rptr a \<noteq> NULL then ret (Some (rstr a)) else do {
       b \<leftarrow> call (Do ''OBJ_nid2sn'' [] [AInt nid]);
       ret (if rptr b \<noteq> NULL then Some (rstr b) else None)
     }
   }"

section \<open>Collecting names\<close>

text \<open>
  \<open>run\<close> is one of the \<open>do_all_provided\<close> calls; its answer lists the names it hands to the
  callback. The duplicates of the names live in C and are freed before \<open>collect\<close> returns.
\<close>

definition collect :: "string \<Rightarrow> cref \<Rightarrow> (string list) go" where
  "collect run a = do {
     cp \<leftarrow> Context_ptr a;
     r \<leftarrow> call (Do run [(HLibCtx, cp)] []);
     (let l = fold ossl_name_append (rstrs r) empty_names in
      if nl_overflow l
      then fail (Errorf ''ossl: more than %d algorithms provided; the enumeration would be truncated''
        [FInt (int OSSL_MAX_NAMES)])
      else ok (sort (nl_items l)))
   }"

fun confirmed :: "(string \<Rightarrow> bool go) \<Rightarrow> string list \<Rightarrow> (string list) go" where
  "confirmed avail [] = ok []"
| "confirmed avail (n # ns) = must (avail n) (\<lambda>y.
     must (confirmed avail ns) (\<lambda>rest. ok (if y then n # rest else rest)))"

definition ListDigests :: "cref option \<Rightarrow> (string list) go" where
  "ListDigests c = (case c of None \<Rightarrow> fail ErrClosed | Some a \<Rightarrow>
     must (collect ''EVP_MD_do_all_provided'' a) (confirmed (\<lambda>n. DigestAvailable c n [])))"

definition ListCiphers :: "cref option \<Rightarrow> (string list) go" where
  "ListCiphers c = (case c of None \<Rightarrow> fail ErrClosed | Some a \<Rightarrow>
     must (collect ''EVP_CIPHER_do_all_provided'' a) (confirmed (\<lambda>n. CipherAvailable c n [])))"

definition ListMACs :: "cref option \<Rightarrow> (string list) go" where
  "ListMACs c = (case c of None \<Rightarrow> fail ErrClosed | Some a \<Rightarrow> collect ''EVP_MAC_do_all_provided'' a)"

definition ListKDFs :: "cref option \<Rightarrow> (string list) go" where
  "ListKDFs c = (case c of None \<Rightarrow> fail ErrClosed | Some a \<Rightarrow> collect ''EVP_KDF_do_all_provided'' a)"

section \<open>Curves\<close>

text \<open>The built-in table: read its size, then its entries; more entries than room is a panic.\<close>

definition builtin_curves :: "(int list) go" where
  "builtin_curves = do {
     n \<leftarrow> call (Do ''EC_get_builtin_curves'' [] [ANull, AInt 0]);
     if rlen n = 0 then ok [] else do {
       g \<leftarrow> call (Do ''EC_get_builtin_curves'' [] [AOut (rlen n), AInt (rlen n)]);
       if rlen g > rlen n then fail index_panic
       else ok (take (nat (rlen g)) (rints g @ replicate (nat (rlen n)) 0))
     }
   }"

fun display_names :: "int list \<Rightarrow> (string list) go" where
  "display_names [] = ok []"
| "display_names (nid # nids) = do {
     s \<leftarrow> ossl_curve_display_name nid;
     must (display_names nids) (\<lambda>rest. ok (case s of Some x \<Rightarrow> x # rest | None \<Rightarrow> rest))
   }"

definition ListCurves :: "(string list) go" where
  "ListCurves = must builtin_curves (\<lambda>nids. must (display_names nids) (\<lambda>out. ok (sort out)))"

section \<open>Checking names\<close>

definition ParseDigestName :: "cref option \<Rightarrow> string \<Rightarrow> string go" where
  "ParseDigestName c s = (case c of None \<Rightarrow> fail ErrClosed | Some a \<Rightarrow>
     if s = [] then fail (Errorf ''ossl: %q is not a digest available in this context'' [FStr s])
     else must (DigestAvailable c s []) (\<lambda>y.
       if \<not> y then fail (Errorf ''ossl: %q is not a digest available in this context'' [FStr s]) else ok s))"

definition ParseCipherName :: "cref option \<Rightarrow> string \<Rightarrow> string go" where
  "ParseCipherName c s = (case c of None \<Rightarrow> fail ErrClosed | Some a \<Rightarrow>
     if s = [] then fail (Errorf ''ossl: %q is not a cipher available in this context'' [FStr s])
     else must (CipherAvailable c s []) (\<lambda>y.
       if \<not> y then fail (Errorf ''ossl: %q is not a cipher available in this context'' [FStr s]) else ok s))"

definition ParseKeyAlgorithm :: "cref option \<Rightarrow> string \<Rightarrow> string go" where
  "ParseKeyAlgorithm c s = (case c of None \<Rightarrow> fail ErrClosed | Some a \<Rightarrow>
     if s = [] then fail (Errorf ''ossl: %q is not a key algorithm available in this context'' [FStr s])
     else must (KeyAlgorithmAvailable c s) (\<lambda>y.
       if \<not> y then fail (Errorf ''ossl: %q is not a key algorithm available in this context'' [FStr s]) else ok s))"

definition ParseMACName :: "cref option \<Rightarrow> string \<Rightarrow> string go" where
  "ParseMACName c s = (case c of None \<Rightarrow> fail ErrClosed | Some a \<Rightarrow>
     if s = [] then fail (Errorf ''ossl: empty MAC name'' [])
     else must (ListMACs c) (\<lambda>ns. case find (\<lambda>n. n = s) ns of
       Some n \<Rightarrow> ok n
     | None \<Rightarrow> fail (Errorf ''ossl: %q is not a MAC available in this context'' [FStr s])))"

definition ParseKDFName :: "cref option \<Rightarrow> string \<Rightarrow> string go" where
  "ParseKDFName c s = (case c of None \<Rightarrow> fail ErrClosed | Some a \<Rightarrow>
     if s = [] then fail (Errorf ''ossl: empty KDF name'' [])
     else must (ListKDFs c) (\<lambda>ns. case find (\<lambda>n. n = s) ns of
       Some n \<Rightarrow> ok n
     | None \<Rightarrow> fail (Errorf ''ossl: %q is not a KDF available in this context'' [FStr s])))"

section \<open>Properties of one algorithm\<close>

definition digestIsXOF :: "cref \<Rightarrow> string \<Rightarrow> bool go" where
  "digestIsXOF a name = with_cstr name (\<lambda>cname. do {
     cp \<leftarrow> Context_ptr a;
     md \<leftarrow> new HMd ''EVP_MD_fetch'' [(HLibCtx, cp)] [cname, ANull];
     if md = NULL then do {
       clearErrors;
       fail (Errorf ''ossl: digest %q is not available in this context'' [FStr name])
     } else deferring (free HMd md) (do { r \<leftarrow> call (Do ''EVP_MD_xof'' [(HMd, md)] []); ok (rlen r \<noteq> 0) })
   })"

definition digestSize :: "cref \<Rightarrow> string \<Rightarrow> int go" where
  "digestSize a name = with_cstr name (\<lambda>cname. do {
     cp \<leftarrow> Context_ptr a;
     md \<leftarrow> new HMd ''EVP_MD_fetch'' [(HLibCtx, cp)] [cname, ANull];
     if md = NULL then do {
       clearErrors;
       fail (Errorf ''ossl: digest %q is not available in this context'' [FStr name])
     } else deferring (free HMd md) (do { r \<leftarrow> call (Do ''EVP_MD_get_size'' [(HMd, md)] []); ok (rlen r) })
   })"

definition cipherKeyLength :: "cref \<Rightarrow> string \<Rightarrow> int go" where
  "cipherKeyLength a name = with_cstr name (\<lambda>cname. do {
     cp \<leftarrow> Context_ptr a;
     ci \<leftarrow> new HCipher ''EVP_CIPHER_fetch'' [(HLibCtx, cp)] [cname, ANull];
     if ci = NULL then do {
       clearErrors;
       fail (Errorf ''ossl: cipher %q is not available in this context'' [FStr name])
     } else deferring (free HCipher ci) (do {
       r \<leftarrow> call (Do ''EVP_CIPHER_get_key_length'' [(HCipher, ci)] []);
       ok (rlen r)
     })
   })"

definition curveNID :: "string \<Rightarrow> int go" where
  "curveNID name = with_cstr name (\<lambda>cname. do { n \<leftarrow> ossl_curve_nid cname; ok n })"

section \<open>Neutrality\<close>

lemma collect_keeps:
  "ctx_live a w \<Longrightarrow> wp (collect run a) (\<lambda>r w'. keeps w w') w"
  by (auto simp: collect_def Let_def ctx_live_def keeps_def intro!: vcg)

lemma probe_keeps:
  assumes "\<And>a. c = Some a \<Longrightarrow> ctx_live a w"
  shows "wp (DigestAvailable c n q) (\<lambda>r w'. keeps w w') w" "wp (CipherAvailable c n q) (\<lambda>r w'. keeps w w') w"
    "wp (KeyAlgorithmAvailable c n) (\<lambda>r w'. keeps w w') w"
  using assms
  by (auto simp: DigestAvailable_def CipherAvailable_def KeyAlgorithmAvailable_def probe_fetch_def
      with_optcstr_def wp_defs ctx_live_def keeps_def intro!: vcg split: option.splits)

lemma algorithm_keeps:
  assumes "ctx_live a w"
  shows "wp (digestIsXOF a n) (\<lambda>r w'. keeps w w') w" "wp (digestSize a n) (\<lambda>r w'. keeps w w') w"
    "wp (cipherKeyLength a n) (\<lambda>r w'. keeps w w') w"
  using assms
  by (auto simp: digestIsXOF_def digestSize_def cipherKeyLength_def wp_defs ctx_live_def keeps_def intro!: vcg)

lemma curveNID_keeps: "wp (curveNID n) (\<lambda>r w'. keeps w w') w"
  by (auto simp: curveNID_def ossl_curve_nid_def wp_defs keeps_def intro!: vcg)

section \<open>The collected list\<close>

definition collected :: "string list \<Rightarrow> ossl_name_list" where
  "collected ns = fold ossl_name_append ns empty_names"

lemma collected_snoc: "collected (ns @ [n]) = ossl_name_append n (collected ns)"
  by (simp add: collected_def)

lemma collected_inv:
  "distinct (nl_items (collected ns)) \<and> length (nl_items (collected ns)) \<le> OSSL_MAX_NAMES
   \<and> set (nl_items (collected ns)) \<subseteq> set ns
   \<and> (\<not> nl_overflow (collected ns) \<longrightarrow> set (nl_items (collected ns)) = set ns)
   \<and> (nl_overflow (collected ns) \<longrightarrow> OSSL_MAX_NAMES < length ns)
   \<and> length (nl_items (collected ns)) \<le> length ns"
proof (induction ns rule: rev_induct)
  case Nil
  then show ?case by (simp add: collected_def empty_names_def)
next
  case (snoc n ns)
  then show ?case by (auto simp: collected_snoc ossl_name_append_def)
qed

lemma collected_full:
  "distinct ns \<Longrightarrow> length ns \<le> OSSL_MAX_NAMES \<Longrightarrow> collected ns = \<lparr>nl_items = ns, nl_overflow = False\<rparr>"
  by (induction ns rule: rev_induct) (auto simp: collected_snoc ossl_name_append_def, simp add: collected_def empty_names_def)

text \<open>
  The enumeration reports an overflow whenever names would be lost, and never for at most
  512 names; but since the capacity is tested before the duplicate, a repeated name after 512
  different ones is reported as an overflow although nothing is lost.
\<close>

theorem name_list_overflow:
  "(OSSL_MAX_NAMES < card (set ns) \<longrightarrow> nl_overflow (collected ns))
   \<and> (nl_overflow (collected ns) \<longrightarrow> OSSL_MAX_NAMES < length ns)
   \<and> (distinct ns \<and> length ns = OSSL_MAX_NAMES \<and> n \<in> set ns \<longrightarrow>
        nl_overflow (collected (ns @ [n])) \<and> nl_items (collected (ns @ [n])) = ns)"
proof (intro conjI impI)
  assume "OSSL_MAX_NAMES < card (set ns)"
  then show "nl_overflow (collected ns)"
    using collected_inv [of ns] by (metis card_length leD order_trans)
next
  assume "nl_overflow (collected ns)"
  then show "OSSL_MAX_NAMES < length ns" using collected_inv by blast
next
  assume "distinct ns \<and> length ns = OSSL_MAX_NAMES \<and> n \<in> set ns"
  then show "nl_overflow (collected (ns @ [n]))" "nl_items (collected (ns @ [n])) = ns"
    using collected_full [of ns] by (auto simp: collected_snoc ossl_name_append_def)
qed

definition many_names :: "string list" where
  "many_names = map (\<lambda>i. replicate i CHR ''x'') [0..<512]"

lemma name_list_overflow_witness:
  "nl_overflow (collected (many_names @ [''x''])) \<and> nl_items (collected (many_names @ [''x''])) = many_names"
proof -
  have "distinct many_names"
    unfolding many_names_def by (auto simp: distinct_map inj_on_def dest: arg_cong [where f = length])
  moreover have "length many_names = OSSL_MAX_NAMES" by (simp add: many_names_def OSSL_MAX_NAMES_def)
  moreover have "''x'' \<in> set many_names"
    unfolding many_names_def by (auto intro!: image_eqI [where x = 1])
  ultimately show ?thesis using name_list_overflow [of many_names "''x''"] by blast
qed

lemma sort_strict: "distinct xs \<Longrightarrow> sorted_wrt (<) (sort xs)" for xs :: "string list"
  by (simp add: strict_sorted_iff)

lemma collect_exact:
  "wp (collect run a) (\<lambda>r w'. \<forall>out. r = Inr out \<longrightarrow> (\<exists>q. saw (Do run [(HLibCtx, c_ctx (ctxs w a))] [], q) w w'
     \<and> set out = set (rstrs q)) \<and> sorted_wrt (<) out \<and> length out \<le> OSSL_MAX_NAMES) w"
  using collected_inv
  by (auto simp: collect_def Let_def saw_push_eq sort_strict simp flip: collected_def intro!: wp_call)


section \<open>Confirmed names\<close>

text \<open>A fetch of this name succeeded.\<close>

definition fetched :: "hkind \<Rightarrow> string \<Rightarrow> cref \<Rightarrow> string \<Rightarrow> world \<Rightarrow> world \<Rightarrow> bool" where
  "fetched k f a n w w' \<longleftrightarrow> (\<exists>p r. rptr r \<noteq> NULL
     \<and> saw (New k f [(HLibCtx, c_ctx (ctxs w a))] [AStr p (c_string n), ANull], r) w w')"

lemma fetched_widen:
  "ext w w1 \<Longrightarrow> ctxs w1 = ctxs w \<Longrightarrow> fetched k f a n w1 w2 \<Longrightarrow> ext w2 w' \<Longrightarrow> fetched k f a n w w'"
  unfolding fetched_def
  by (elim exE conjE, intro exI conjI) (assumption, drule saw_later, assumption, drule saw_earlier, assumption, simp)

text \<open>A probe says yes only after a fetch that succeeded.\<close>

lemma available_fetched:
  "wp (DigestAvailable (Some a) n []) (\<lambda>r w'. ext w w' \<and> ctxs w' = ctxs w
     \<and> (r = Inr True \<longrightarrow> fetched HMd ''EVP_MD_fetch'' a n w w')) w"
  "wp (CipherAvailable (Some a) n []) (\<lambda>r w'. ext w w' \<and> ctxs w' = ctxs w
     \<and> (r = Inr True \<longrightarrow> fetched HCipher ''EVP_CIPHER_fetch'' a n w w')) w"
  unfolding DigestAvailable_def CipherAvailable_def probe_fetch_def with_optcstr_def with_cstr_def
  by (auto simp: clearErrors_def saw_push_eq fetched_def intro!: wp_call)

lemma confirmed_fetched:
  assumes "\<And>n w. wp (avail n) (\<lambda>r w'. ext w w' \<and> ctxs w' = ctxs w \<and> (r = Inr True \<longrightarrow> fetched k f a n w w')) w"
  shows "wp (confirmed avail ns) (\<lambda>r w'. ext w w' \<and> ctxs w' = ctxs w
     \<and> (\<forall>out. r = Inr out \<longrightarrow> subseq out ns \<and> (\<forall>n \<in> set out. fetched k f a n w w'))) w"
proof (induction ns arbitrary: w)
  case (Cons n ns)
  show ?case
    unfolding confirmed.simps wp_must
  proof (rule wp_mono [OF assms], goal_cases)
    case (1 r w1)
    have rest: "wp (confirmed avail ns) (\<lambda>r2 w'. case r2 of
          Inl e \<Rightarrow> ext w w' \<and> ctxs w' = ctxs w
        | Inr out \<Rightarrow> ext w w' \<and> ctxs w' = ctxs w \<and> ext w1 w' \<and> subseq out ns \<and> (\<forall>m \<in> set out. fetched k f a m w w')) w1"
      by (rule wp_mono [OF Cons.IH]) (use 1 in \<open>auto split: sum.splits intro: ext_trans fetched_widen [OF _ _ _ ext_refl]\<close>)
    show ?case
      by (cases r) (use 1 in \<open>auto intro!: wp_mono [OF rest] split: sum.splits intro: ext_trans
          fetched_widen [OF ext_refl]\<close>)
  qed
qed simp

lemma collect_sub:
  "wp (collect run a) (\<lambda>r w'. ext w w' \<and> ctxs w' = ctxs w \<and> (\<forall>out. r = Inr out \<longrightarrow> sorted_wrt (<) out)) w"
  using collected_inv
  by (auto simp: collect_def Let_def sort_strict simp flip: collected_def intro!: wp_call)

lemma subseq_set: "subseq xs ys \<Longrightarrow> set xs \<subseteq> set ys"
  by (induction rule: list_emb.induct) auto

lemma subseq_sorted: "subseq xs ys \<Longrightarrow> sorted_wrt (<) ys \<Longrightarrow> sorted_wrt (<) (xs :: string list)"
  by (induction rule: list_emb.induct) (auto dest: subseq_set)

text \<open>
  C23: what \<open>ListDigests\<close> and \<open>ListCiphers\<close> report is usable here: each name in the list was
  confirmed by a fetch through this very context that succeeded, and the list is strictly
  increasing.
\<close>

theorem Lists_confirmed:
  "wp (ListDigests (Some a)) (\<lambda>r w'. case r of Inl e \<Rightarrow> True
     | Inr out \<Rightarrow> sorted_wrt (<) out \<and> list_all (\<lambda>n. fetched HMd ''EVP_MD_fetch'' a n w w') out) w
   \<and> wp (ListCiphers (Some a)) (\<lambda>r w'. case r of Inl e \<Rightarrow> True
     | Inr out \<Rightarrow> sorted_wrt (<) out \<and> list_all (\<lambda>n. fetched HCipher ''EVP_CIPHER_fetch'' a n w w') out) w"
  unfolding ListDigests_def ListCiphers_def option.case wp_must
  by (intro conjI wp_mono [OF collect_sub])
    (auto split: sum.splits simp: list_all_iff intro: subseq_sorted fetched_widen [OF _ _ _ ext_refl]
      intro!: wp_mono [OF confirmed_fetched [OF available_fetched(1)]] wp_mono [OF confirmed_fetched [OF available_fetched(2)]])

text \<open>A library that provides two MACs, one of them twice.\<close>

definition lib_names :: "event list \<Rightarrow> ccall \<Rightarrow> cret" where
  "lib_names h c = (yes h)\<lparr>rstrs := [''HMAC'', ''CMAC'', ''HMAC'']\<rparr>"


end
