(* ===== verification/Sign_Digest.thy ===== *)
theory Sign_Digest
  imports Sign Enumerate
begin

text \<open>
  sign_digest.go: signing and verifying a digest computed elsewhere. The check adds to that of the
  options the length of the digest; the operations run on an \<open>EVP_PKEY_CTX\<close> of their own.
\<close>

section \<open>Operations\<close>

definition eddsaPrehashLen :: int where "eddsaPrehashLen = 64"

definition applyDigestParam :: "handle \<Rightarrow> string \<Rightarrow> unit go" where
  "applyDigestParam pctx digest = set_params pctx [UTF8 pKeyDigest digest] ''EVP_PKEY_CTX_set_params(digest)''"

definition hashes_first :: "string \<Rightarrow> bool" where
  "hashes_first keyType \<longleftrightarrow> keyType = ''RSA'' \<or> keyType = ''RSA-PSS'' \<or> keyType = ''EC''"

definition checkDigestOptions :: "cref \<Rightarrow> string \<Rightarrow> SignOptions \<Rightarrow> int \<Rightarrow> unit go" where
  "checkDigestOptions c keyType so digestLen = must (lift (checkSignOptions keyType so)) (\<lambda>_.
     if hashes_first keyType then must (digestSize c (so_Digest so)) (\<lambda>want.
       if digestLen \<noteq> want
       then fail (Errorf ''ossl: %s produces a %d-byte digest, got %d bytes'' [FStr (so_Digest so), FInt want, FInt digestLen])
       else ok ())
     else if keyType = ''ED25519'' \<or> keyType = ''ED448'' then
       (if \<not> so_Prehash so
        then fail (Errorf ''ossl: %s has no raw-digest form; set SignOptions.Prehash to select the ph variant, which does'' [FStr keyType])
        else if digestLen \<noteq> eddsaPrehashLen
        then fail (Errorf ''ossl: %s expects a %d-byte prehash, got %d bytes'' [FStr keyType, FInt eddsaPrehashLen, FInt digestLen])
        else ok ())
     else fail (Errorf ''ossl: %s has no raw-digest signing form; use Sign'' [FStr keyType]))"

text \<open>\<open>EVP_PKEY_CTX_new_from_pkey(c.ptr(), k.pkey, nil)\<close>, released at the end.\<close>

definition with_pctx :: "cref \<Rightarrow> key \<Rightarrow> (ptr \<Rightarrow> 'a go) \<Rightarrow> 'a go" where
  "with_pctx c k m = do {
     cp \<leftarrow> Context_ptr c;
     p \<leftarrow> new HPkeyCtx ''EVP_PKEY_CTX_new_from_pkey'' [(HLibCtx, cp), (HPkey, k_pkey k)] [ANull];
     if p = NULL then failE ''EVP_PKEY_CTX_new_from_pkey'' else deferring (free HPkeyCtx p) (m p)
   }"

text \<open>The initialisation both operations share: the digest is named for RSA and EC.\<close>

definition digest_setup :: "ptr \<Rightarrow> string \<Rightarrow> string \<Rightarrow> SignOptions \<Rightarrow> (unit \<Rightarrow> 'a go) \<Rightarrow> 'a go" where
  "digest_setup p f keyType so m =
     must (ctx_call (HPkeyCtx, p) f [] f) (\<lambda>_.
     must (if hashes_first keyType then applyDigestParam (HPkeyCtx, p) (so_Digest so) else ok ()) (\<lambda>_.
     must (applySignOptions (HPkeyCtx, p) keyType so) m))"

definition SignDigest :: "key option \<Rightarrow> byte list \<Rightarrow> SignOptions option \<Rightarrow> (byte list) go" where
  "SignDigest k digest opts = (case k of None \<Rightarrow> fail ErrClosed | Some x \<Rightarrow>
     if k_pkey x = NULL then fail ErrClosed
     else do {
       keyType \<leftarrow> Key_Type k;
       so \<leftarrow> signOpts k opts;
       must (checkDigestOptions (key_context x) keyType so (go_len digest)) (\<lambda>_. do {
         clearErrors;
         with_pctx (key_context x) x (\<lambda>p. digest_setup p ''EVP_PKEY_sign_init'' keyType so (\<lambda>_.
           two_call ''EVP_PKEY_sign'' (HPkeyCtx, p) [bytes_arg digest, AInt (c_size_t (go_len digest))]
             (failE ''EVP_PKEY_sign(size)'') (failE ''EVP_PKEY_sign reported a zero-length signature'')
             (\<lambda>_. failE ''EVP_PKEY_sign'') (in_format k so)))
       })
     })"

definition VerifyDigest :: "key option \<Rightarrow> byte list \<Rightarrow> byte list \<Rightarrow> SignOptions option \<Rightarrow> unit go" where
  "VerifyDigest k digest sig opts = (case k of None \<Rightarrow> fail ErrClosed | Some x \<Rightarrow>
     if k_pkey x = NULL then fail ErrClosed
     else if sig = [] then fail ErrVerification
     else do {
       keyType \<leftarrow> Key_Type k;
       so \<leftarrow> signOpts k opts;
       must (checkDigestOptions (key_context x) keyType so (go_len digest)) (\<lambda>_. do {
         clearErrors;
         with_pctx (key_context x) x (\<lambda>p. digest_setup p ''EVP_PKEY_verify_init'' keyType so (\<lambda>_.
           with_der k so sig (\<lambda>sig. addr0 sig (do {
             r \<leftarrow> call (Do ''EVP_PKEY_verify'' [(HPkeyCtx, p)]
               [ABytes sig, AInt (c_size_t (go_len sig)), bytes_arg digest, AInt (c_size_t (go_len digest))]);
             verdict ''EVP_PKEY_verify'' r
           }))))
       })
     })"

section \<open>Ownership\<close>

lemma checkDigestOptions_keeps:
  "ctx_live c w \<Longrightarrow> wp (checkDigestOptions c ty so n) (\<lambda>_ w'. keeps w w') w"
  by (auto simp: checkDigestOptions_def intro!: wp_mono [OF algorithm_keeps(2)] vcg split: sum.split)

lemma key_opt_live: "key_opt_ok (Some x) w \<Longrightarrow> ctx_live (key_context x) w"
  by (simp add: key_ok_def)

text \<open>The key and a context of its own for the operation.\<close>

lemma with_pctx_beside:
  assumes "stable J" "\<And>p. neutral_op (\<lambda>w. with_key x (HPkeyCtx, p) w \<and> J w) (m p)"
  shows "neutral_op (\<lambda>w. key_opt_ok (Some x) w \<and> J w) (with_pctx (key_context x) x m)"
proof -
  have "neutral_op (\<lambda>w. (key_opt_ok (Some x) w \<and> J w) \<and> c_ctx (ctxs w (key_context x)) = cp) (do {
     p \<leftarrow> new HPkeyCtx ''EVP_PKEY_CTX_new_from_pkey'' [(HLibCtx, cp), (HPkey, k_pkey x)] [ANull];
     if p = NULL then failE ''EVP_PKEY_CTX_new_from_pkey'' else deferring (free HPkeyCtx p) (m p) })" for cp
  proof (rule neutral_op_temp)
    show "stable (\<lambda>w. (key_opt_ok (Some x) w \<and> J w) \<and> c_ctx (ctxs w (key_context x)) = cp)"
      by (intro stable_conj stable_key_opt assms(1)) (simp add: stable_def gains_def)
  qed (auto simp: with_key_def key_ok_def ctx_live_def uses_of_def live_handles_def intro: neutral_op_weaken [OF assms(2)])
  then show ?thesis
    unfolding with_pctx_def by (auto simp: neutral_op_def Context_ptr_def)
qed

lemma with_pctx_neutral:
  assumes "\<And>p. neutral_op (with_key x (HPkeyCtx, p)) (m p)"
  shows "neutral_op (key_opt_ok (Some x)) (with_pctx (key_context x) x m)"
  by (rule neutral_op_weaken [OF with_pctx_beside [where J = "\<lambda>_. True"]]) (use assms in \<open>auto simp: stable_def\<close>)

lemma digest_setup_neutral:
  assumes "stable I" "\<And>w. I w \<Longrightarrow> (HPkeyCtx, p) \<in># owned w" "\<And>u. neutral_op I (m u)"
  shows "neutral_op I (digest_setup p f ty so m)"
  unfolding digest_setup_def applyDigestParam_def
  by (intro neutral_op_must neutral_op_if neutral_ctx_call neutral_set_params applySignOptions_neutral
      neutral_op_pure assms(1,3)) (auto dest: assms(2))

lemma SignDigest_neutral: "neutral_op (key_opt_ok k) (SignDigest k digest opts)"
proof (cases k)
  case (Some x)
  have body: "neutral_op (with_key x (HPkeyCtx, p)) (digest_setup p f ty so (\<lambda>_.
      two_call g (HPkeyCtx, p) [bytes_arg digest, AInt n] (failE a) (failE b) (\<lambda>_. failE d) (in_format (Some x) so)))"
    for p f ty so g n a b d
    by (intro digest_setup_neutral two_call_neutral in_format_neutral neutral_op_pure stable_with_key)
      (auto simp: with_key_def)
  show ?thesis
    unfolding Some SignDigest_def option.case
    by (rule neutral_op_if neutral_op_bind neutral_op_must neutral_op_pure stable_key_opt signOpts_keeps query_keeps clear_keeps
        with_pctx_neutral body neutral_op_keeps [OF checkDigestOptions_keeps] key_opt_live | assumption)+
qed (simp add: SignDigest_def)

lemma VerifyDigest_neutral: "neutral_op (key_opt_ok k) (VerifyDigest k digest sig opts)"
proof (cases k)
  case (Some x)
  have body: "neutral_op (with_key x (HPkeyCtx, p)) (digest_setup p f ty so (\<lambda>_.
      with_der (Some x) so sig (\<lambda>sig. addr0 sig (do {
        r \<leftarrow> call (Do g [(HPkeyCtx, p)] [ABytes sig, AInt (c_size_t (go_len sig)), bytes_arg digest, AInt n]);
        verdict op r }))))" for p f ty so g n op
    by (intro digest_setup_neutral with_der_neutral neutral_op_guard neutral_op_bind verdict_neutral do_keeps stable_with_key)
      (auto simp: with_key_def)
  show ?thesis
    unfolding Some VerifyDigest_def option.case
    by (rule neutral_op_if neutral_op_bind neutral_op_must neutral_op_pure stable_key_opt signOpts_keeps query_keeps clear_keeps
        with_pctx_neutral body neutral_op_keeps [OF checkDigestOptions_keeps] key_opt_live | assumption)+
qed (simp add: VerifyDigest_def)

section \<open>What a verification of a digest rests on\<close>

text \<open>The digest is one the algorithm of the key can have produced.\<close>

definition digest_fits :: "world \<Rightarrow> string \<Rightarrow> SignOptions \<Rightarrow> int \<Rightarrow> world \<Rightarrow> bool" where
  "digest_fits w0 keyType so n w \<longleftrightarrow> checkSignOptions keyType so = Inr () \<and>
     (if hashes_first keyType then \<exists>md. answered w0 (\<lambda>r. rlen r = n) (Do ''EVP_MD_get_size'' [(HMd, md)] []) w
      else keyType \<in> {''ED25519'', ''ED448''} \<and> so_Prehash so \<and> n = 64)"

lemma lasting_fits [lasting]: "lasting (digest_fits w0 ty so n)" "lasting (\<lambda>w. digest_fits w0 ty so n w)"
  unfolding digest_fits_def by (cases "hashes_first ty"; simp; intro lasting)+

lemma adds_Context_ptr [adds]: "adds (Context_ptr c)"
  by (simp add: adds_def Context_ptr_def)

lemma digestSize_secures:
  assumes E: "since w0 E"
  shows "secures E (digestSize c d) (\<lambda>n w. E w \<and> (\<exists>md. answered w0 (\<lambda>r. rlen r = n) (Do ''EVP_MD_get_size'' [(HMd, md)] []) w))"
proof -
  note last = since_lasting [OF E]
  have size: "secures E (do { r \<leftarrow> call (Do ''EVP_MD_get_size'' [(HMd, md)] []); ok (rlen r) })
      (\<lambda>n w. E w \<and> (\<exists>md. answered w0 (\<lambda>r. rlen r = n) (Do ''EVP_MD_get_size'' [(HMd, md)] []) w))" for md
    by (rule secures_call [OF E], rule secures_ok) (auto intro: answeredI)
  show ?thesis
    unfolding digestSize_def new_def
    by (rule secures_cstr secures_if secures_deferring size secures_stop secures_then adds lasting last)+
qed

lemma checkDigest_secures:
  assumes E: "since w0 E"
  shows "secures E (checkDigestOptions c ty so n) (\<lambda>_ w. E w \<and> digest_fits w0 ty so n w)"
  unfolding checkDigestOptions_def
  by (rule secures_must_lift secures_if secures_stop secures_must [OF digestSize_secures [OF E]] secures_ok
      | (auto simp: digest_fits_def eddsaPrehashLen_def)[1])+

lemma secures_pctx:
  assumes "\<And>p. p \<noteq> NULL \<Longrightarrow> secures E (m p) P" "lasting E" "\<And>x. lasting (P x)"
  shows "secures E (with_pctx c k m) P"
  unfolding with_pctx_def
  by (rule secures_then secures_if secures_stop secures_deferring adds assms | assumption)+

lemma adds_setup [adds]: "(\<And>u. adds (m u)) \<Longrightarrow> adds (digest_setup p f ty so m)"
  unfolding digest_setup_def applyDigestParam_def by (rule adds | simp)+

lemma lasting_applied [lasting]: "lasting (applied w0 h ty so)" "lasting (\<lambda>w. applied w0 h ty so w)"
  unfolding applied_def rsa_applied_def by (intro lasting)+


lemma secures_setup:
  assumes E: "since w0 E" and so: "checkSignOptions ty so = Inr ()"
    and m: "\<And>F. since w0 F \<Longrightarrow> (\<And>w. F w \<Longrightarrow> E w \<and> applied w0 (HPkeyCtx, p) ty so w) \<Longrightarrow> secures F (m ()) P"
  shows "secures E (digest_setup p f ty so m) P"
proof -
  note last = since_lasting [OF E]
  let ?F = "\<lambda>w. E w \<and> applied w0 (HPkeyCtx, p) ty so w"
  have F: "since w0 ?F" by (intro lasting E)
  have opts: "secures E (must (applySignOptions (HPkeyCtx, p) ty so) m) P"
    by (rule secures_must [OF secures_keep [OF applied_secures [OF so E] last]]) (simp add: m [OF F])
  show ?thesis
    unfolding digest_setup_def applyDigestParam_def
    by (rule secures_step adds last opts | simp)+
qed

definition digest_verify_call :: "ptr \<Rightarrow> byte list \<Rightarrow> byte list \<Rightarrow> ccall" where
  "digest_verify_call p der digest = Do ''EVP_PKEY_verify'' [(HPkeyCtx, p)]
     [ABytes der, AInt (c_size_t (go_len der)), bytes_arg digest, AInt (c_size_t (go_len digest))]"

text \<open>
  The library accepted the signature of a digest that fits the algorithm, on a context to which
  every option had been applied.
\<close>

definition digest_verified :: "world \<Rightarrow> ptr \<Rightarrow> string \<Rightarrow> SignOptions \<Rightarrow> byte list \<Rightarrow> byte list \<Rightarrow> world \<Rightarrow> bool" where
  "digest_verified w0 p ty so digest sig w \<longleftrightarrow> digest_fits w0 ty so (go_len digest) w \<and> applied w0 (HPkeyCtx, p) ty so w
     \<and> (\<exists>der. in_der so sig der \<and> answered w0 (\<lambda>r. rc r = 1) (digest_verify_call p der digest) w)"

lemma lasting_digest_verified [lasting]: "lasting (digest_verified w0 p ty so digest sig)"
  "lasting (\<lambda>w. digest_verified w0 p ty so digest sig w)"
  unfolding digest_verified_def by (intro lasting)+

lemma verify_digest_secures:
  assumes E: "since w0 E" "\<And>w. E w \<Longrightarrow> digest_fits w0 ty so (go_len digest) w" and so: "checkSignOptions ty so = Inr ()"
  shows "secures E (digest_setup p f ty so (\<lambda>_. with_der k so sig (\<lambda>der. addr0 der (do {
      r \<leftarrow> call (digest_verify_call p der digest); verdict ''EVP_PKEY_verify'' r }))))
    (\<lambda>_. digest_verified w0 p ty so digest sig)"
proof (rule secures_setup [OF E(1) so])
  fix F assume F: "since w0 F" "\<And>w. F w \<Longrightarrow> E w \<and> applied w0 (HPkeyCtx, p) ty so w"
  show "secures F (with_der k so sig (\<lambda>der. addr0 der (do {
      r \<leftarrow> call (digest_verify_call p der digest); verdict ''EVP_PKEY_verify'' r })))
    (\<lambda>_. digest_verified w0 p ty so digest sig)"
    by (rule secures_der secures_guards(1) secures_call [OF F(1)] secures_verdict since_lasting [OF F(1)]
      | (use F(2) E(2) in \<open>auto simp: digest_verified_def intro: answeredI\<close>)[1])+
qed


text \<open>A library with an Ed448 key.\<close>

definition lib_ed448 :: "event list \<Rightarrow> ccall \<Rightarrow> cret" where
  "lib_ed448 h c = (case c of
     Do f hs as \<Rightarrow> if f = ''EVP_PKEY_get0_type_name'' then (yes h)\<lparr>rstr := ''ED448''\<rparr> else yes h
   | _ \<Rightarrow> yes h)"


end
