(* ===== verification/Kdf.thy ===== *)
theory Kdf
  imports Lifecycle Names
begin

text \<open>
  kdf.go: key derivation. One generic path runs any KDF; the named helpers bound their cost
  parameters first, because the C call can be neither cancelled nor interrupted. Argon2 with
  more than one lane raises the thread budget of the library context under a lock.
\<close>

section \<open>The generic path\<close>

definition derive_in :: "ptr \<Rightarrow> string \<Rightarrow> params \<Rightarrow> int \<Rightarrow> (byte list) go" where
  "derive_in ctx name p n = make_bytes n (\<lambda>out. addr0 out (use_c p (\<lambda>ps. do {
     r \<leftarrow> call (Do ''EVP_KDF_derive'' [(HKdfCtx, ctx)] [AOut (c_size_t n), AParams ps]);
     if rc r \<noteq> 1 then failE (''EVP_KDF_derive('' @ name @ '')'') else ok (write_at out 0 (rbuf r))
   })))"

definition derive_kdf :: "ptr \<Rightarrow> string \<Rightarrow> params \<Rightarrow> int \<Rightarrow> (byte list) go" where
  "derive_kdf kdf name p n = do {
     ctx \<leftarrow> new HKdfCtx ''EVP_KDF_CTX_new'' [(HKdf, kdf)] [];
     if ctx = NULL then failE ''EVP_KDF_CTX_new''
     else deferring (free HKdfCtx ctx) (derive_in ctx name p n)
   }"

definition deriveKDF :: "cref option \<Rightarrow> string \<Rightarrow> params \<Rightarrow> int \<Rightarrow> (byte list) go" where
  "deriveKDF c name p n = (case c of None \<Rightarrow> fail ErrClosed | Some a \<Rightarrow>
     if n \<le> 0 then fail (Errorf ''ossl: output length must be positive'' [])
     else if n > maxOutputLength
     then fail (Errorf ''ossl: output length %d exceeds the maximum of %d bytes'' [FInt n, FInt maxOutputLength])
     else do {
       clearErrors;
       with_cstr name (\<lambda>cname. do {
         cp \<leftarrow> Context_ptr a;
         kdf \<leftarrow> new HKdf ''EVP_KDF_fetch'' [(HLibCtx, cp)] [cname, ANull];
         if kdf = NULL then failE (''EVP_KDF_fetch('' @ name @ '')'')
         else deferring (free HKdf kdf) (derive_kdf kdf name p n)
       })
     })"

text \<open>The map is listed in the order Go ranges over it.\<close>

type_synonym KDFParams = "(string \<times> any) list"

fun any_step :: "string \<times> any \<Rightarrow> unit pstep" where
  "any_step (k, AnyString s) = UTF8 k s"
| "any_step (k, AnyBytes b) = Octets k b"
| "any_step (k, AnyInt i) = IntP k i"
| "any_step (k, AnyUint u) = UInt k (uint u)"
| "any_step (k, AnyOther t) =
     (\<lambda>p. ret (p, Inl (Errorf ''ossl: unsupported parameter type %T for %q'' [FStr t, FStr k])))"

text \<open>\<open>p := newParams(); defer p.free(); steps; k(p)\<close>.\<close>

definition with_builder :: "unit pstep list \<Rightarrow> (params \<Rightarrow> 'a go) \<Rightarrow> 'a go" where
  "with_builder ss k = do {
     (p, r) \<leftarrow> p_steps ss newParams;
     deferring (drop_params p) (case r of Inl e \<Rightarrow> fail e | Inr _ \<Rightarrow> k p)
   }"

definition DeriveKDF :: "cref option \<Rightarrow> string \<Rightarrow> KDFParams \<Rightarrow> int \<Rightarrow> (byte list) go" where
  "DeriveKDF c name kp n = with_builder (map any_step kp) (\<lambda>p. deriveKDF c name p n)"

section \<open>HKDF and PBKDF2\<close>

definition EVP_KDF_HKDF_MODE_EXTRACT_AND_EXPAND :: int where "EVP_KDF_HKDF_MODE_EXTRACT_AND_EXPAND = 0"
definition EVP_KDF_HKDF_MODE_EXPAND_ONLY :: int where "EVP_KDF_HKDF_MODE_EXPAND_ONLY = 2"

definition HKDF :: "cref option \<Rightarrow> string \<Rightarrow> byte list \<Rightarrow> byte list \<Rightarrow> byte list \<Rightarrow> int \<Rightarrow> (byte list) go" where
  "HKDF c digest secret salt info n = with_chain
     [UTF8 pKeyDigest digest, Octets pKeyKey secret, Octets pKeySalt salt, Octets pKeyInfo info,
      IntP pKeyMode EVP_KDF_HKDF_MODE_EXTRACT_AND_EXPAND]
     (\<lambda>p. deriveKDF c KDFHKDF p n)"

definition HKDFExpand :: "cref option \<Rightarrow> string \<Rightarrow> byte list \<Rightarrow> byte list \<Rightarrow> int \<Rightarrow> (byte list) go" where
  "HKDFExpand c digest prk info n = with_chain
     [UTF8 pKeyDigest digest, Octets pKeyKey prk, Octets pKeyInfo info, IntP pKeyMode EVP_KDF_HKDF_MODE_EXPAND_ONLY]
     (\<lambda>p. deriveKDF c ''HKDF'' p n)"

definition maxPBKDF2Iterations :: int where "maxPBKDF2Iterations = 10000000"

definition PBKDF2 :: "cref option \<Rightarrow> string \<Rightarrow> byte list \<Rightarrow> byte list \<Rightarrow> int \<Rightarrow> int \<Rightarrow> (byte list) go" where
  "PBKDF2 c digest password salt iterations n =
     (if iterations \<le> 0 then fail (Errorf ''ossl: PBKDF2 iterations must be positive, got %d'' [FInt iterations])
      else if iterations > maxPBKDF2Iterations
      then fail (Errorf ''ossl: PBKDF2 iterations %d exceeds the maximum of %d'' [FInt iterations, FInt maxPBKDF2Iterations])
      else with_chain
        [UTF8 pKeyDigest digest, Octets pKeyPassword password, Octets pKeySalt salt, UInt pKeyIter iterations]
        (\<lambda>p. deriveKDF c KDFPBKDF2 p n))"

section \<open>Argon2\<close>

definition maxArgon2Iterations :: "64 word" where "maxArgon2Iterations = 10000"
definition maxArgon2MemoryKiB :: "64 word" where "maxArgon2MemoryKiB = 4 * 1024 * 1024"
definition maxArgon2Lanes :: "64 word" where "maxArgon2Lanes = 1024"

lemmas argon2_maxima = maxArgon2Iterations_def maxArgon2MemoryKiB_def maxArgon2Lanes_def

definition Argon2ID :: int where "Argon2ID = 0"
definition Argon2I :: int where "Argon2I = 1"
definition Argon2D :: int where "Argon2D = 2"

definition Argon2Variant_name :: "int \<Rightarrow> err + string" where
  "Argon2Variant_name v =
     (if v = Argon2ID then Inr KDFArgon2id
      else if v = Argon2I then Inr KDFArgon2i
      else if v = Argon2D then Inr KDFArgon2d
      else Inl (Errorf ''ossl: unknown Argon2 variant %d'' [FInt v]))"

record Argon2idParams =
  ar_Iterations :: "64 word"
  ar_MemoryKiB :: "64 word"
  ar_Lanes :: "64 word"
  ar_AssociatedData :: "byte list"
  ar_Secret :: "byte list"

text \<open>The rejection of over-large costs, then the defaults for those left zero.\<close>

definition argon2_costs :: "Argon2idParams \<Rightarrow> err + Argon2idParams" where
  "argon2_costs ap =
     (if ar_Iterations ap > maxArgon2Iterations
      then Inl (Errorf ''ossl: Argon2id iterations %d exceeds the maximum of %d''
        [FInt (uint (ar_Iterations ap)), FInt (uint maxArgon2Iterations)])
      else if ar_MemoryKiB ap > maxArgon2MemoryKiB
      then Inl (Errorf ''ossl: Argon2id memory %d KiB exceeds the maximum of %d KiB''
        [FInt (uint (ar_MemoryKiB ap)), FInt (uint maxArgon2MemoryKiB)])
      else if ar_Lanes ap > maxArgon2Lanes
      then Inl (Errorf ''ossl: Argon2id lanes %d exceeds the maximum of %d''
        [FInt (uint (ar_Lanes ap)), FInt (uint maxArgon2Lanes)])
      else Inr (ap\<lparr>
        ar_Iterations := (if ar_Iterations ap = 0 then 3 else ar_Iterations ap),
        ar_MemoryKiB := (if ar_MemoryKiB ap = 0 then 64 * 1024 else ar_MemoryKiB ap),
        ar_Lanes := (if ar_Lanes ap = 0 then 1 else ar_Lanes ap)\<rparr>))"

text \<open>The budget is read and raised under one lock, and only ever raised.\<close>

definition raise_threads :: "cref \<Rightarrow> 64 word \<Rightarrow> unit go" where
  "raise_threads a lanes = (if lanes > 1 then with_lock MuThreadBudget (do {
       cp \<leftarrow> Context_ptr a;
       g \<leftarrow> call (Do ''OSSL_get_max_threads'' [(HLibCtx, cp)] []);
       if rcode g < lanes then do {
         s \<leftarrow> call (Do ''OSSL_set_max_threads'' [(HLibCtx, cp)] [AInt (uint lanes)]);
         if rc s \<noteq> 1 then failE ''OSSL_set_max_threads'' else ok ()
       } else ok ()
     }) else ok ())"

definition Argon2 :: "cref option \<Rightarrow> int \<Rightarrow> byte list \<Rightarrow> byte list \<Rightarrow> Argon2idParams \<Rightarrow> int \<Rightarrow> (byte list) go" where
  "Argon2 c variant password salt ap n = (case c of None \<Rightarrow> fail ErrClosed | Some a \<Rightarrow>
     must (lift (Argon2Variant_name variant)) (\<lambda>alg.
     must (lift (argon2_costs ap)) (\<lambda>ap.
     must (raise_threads a (ar_Lanes ap)) (\<lambda>_.
     with_chain
       ([Octets pKeyPassword password, Octets pKeySalt salt, UInt pKeyIter (uint (ar_Iterations ap)),
         UInt pKeyArgonMem (uint (ar_MemoryKiB ap)), UInt pKeyArgonLane (uint (ar_Lanes ap)),
         UInt pKeyThreads (uint (ar_Lanes ap)), SizeT pKeySize n]
        @ (if ar_AssociatedData ap \<noteq> [] then [Octets pKeyArgonAD (ar_AssociatedData ap)] else [])
        @ (if ar_Secret ap \<noteq> [] then [Octets pKeySecret (ar_Secret ap)] else []))
       (\<lambda>p. deriveKDF c alg p n)))))"

definition Argon2id :: "cref option \<Rightarrow> byte list \<Rightarrow> byte list \<Rightarrow> Argon2idParams \<Rightarrow> int \<Rightarrow> (byte list) go" where
  "Argon2id c password salt ap n = Argon2 c Argon2ID password salt ap n"

section \<open>Derivation leaves the references alone\<close>

text \<open>A builder whose memory is held.\<close>

definition builder_held :: "params \<Rightarrow> world \<Rightarrow> bool" where
  "builder_held p w \<longleftrightarrow> wf_params p \<and> (\<forall>h. h \<in># blocks (p_arena p) \<longrightarrow> h \<in># owned w)"

lemma grows_builder_held: "wf_params p \<Longrightarrow> grows newParams w p w1 \<Longrightarrow> builder_held p w1"
  by (auto simp: builder_held_def grows_def)

lemma use_c_ended:
  assumes "wf_params p"
  shows "use_c p k = k (p_list p @ [ParamEnd])"
  using p_c_wf [OF assms] by (auto simp: use_c_def)

lemma builder_held_handles:
  "builder_held p w \<Longrightarrow> \<Union> (param_handles ` set (p_list p @ [ParamEnd])) \<subseteq> set_mset (owned w)"
  unfolding builder_held_def wf_params_def by auto

lemma derive_in_spec:
  assumes "ctx = NULL \<or> (HKdfCtx, ctx) \<in># owned w" "builder_held p w"
  shows "wp (derive_in ctx name p n) (\<lambda>r w'. keeps w w' \<and> (\<forall>out. r = Inr out \<longrightarrow> go_len out = n)) w"
proof -
  have "wf_params p" using assms(2) by (simp add: builder_held_def)
  with assms(1) builder_held_handles [OF assms(2)] show ?thesis
    by (auto simp: derive_in_def guard_defs use_c_ended keeps_def intro!: vcg)
qed

lemmas wp_derive_in = wp_mono [OF derive_in_spec]

lemma deriveKDF_spec:
  assumes "builder_held p w" "\<And>a. c = Some a \<Longrightarrow> ctx_live a w"
  shows "wp (deriveKDF c name p n) (\<lambda>r w'. keeps w w'
    \<and> (\<forall>out. r = Inr out \<longrightarrow> go_len out = n \<and> 0 < n \<and> n \<le> maxOutputLength)) w"
  using assms
  by (auto simp: deriveKDF_def derive_kdf_def wp_defs ctx_live_def keeps_def builder_held_def
      intro!: vcg wp_derive_in split: option.splits)

text \<open>What every derivation promises: the references are kept and the output has the length asked for.\<close>

definition kdf_result :: "int \<Rightarrow> world \<Rightarrow> err + byte list \<Rightarrow> world \<Rightarrow> bool" where
  "kdf_result n w r w' \<longleftrightarrow> neutral r w w'
     \<and> (\<forall>out. r = Inr out \<longrightarrow> go_len out = n \<and> 0 < n \<and> n \<le> maxOutputLength)"

lemma kdf_result_error [simp]: "kdf_result n w (Inl e) w' = neutral (Inl e :: err + byte list) w w'"
  by (auto simp: kdf_result_def)

lemma wp_chain_kdf:
  assumes "psteps_ok ss" "\<And>a. c = Some a \<Longrightarrow> ctx_live a w"
  shows "wp (with_chain ss (\<lambda>p. deriveKDF c name p n)) (kdf_result n w) w"
proof -
  obtain kvs where ss: "list_all2 pstep_ok ss kvs" using psteps_ok_all2 [OF assms(1)] by blast
  show ?thesis
  proof (rule wp_with_chain [OF ss, where D = "\<lambda>_. {#}"
        and P = "\<lambda>r. \<forall>out. r = Inr out \<longrightarrow> go_len out = n \<and> 0 < n \<and> n \<le> maxOutputLength"])
    fix p w1 assume p: "wf_params p" "grows newParams w p w1"
    have "\<And>a. c = Some a \<Longrightarrow> ctx_live a w1" using assms(2) p(2) by (auto simp: ctx_live_def grows_def)
    from deriveKDF_spec [OF grows_builder_held [OF p] this]
    show "wp (deriveKDF c name p n) (\<lambda>r w2. gains {#} w1 w2
        \<and> (\<forall>out. r = Inr out \<longrightarrow> go_len out = n \<and> 0 < n \<and> n \<le> maxOutputLength)) w1"
      by simp
  qed (auto simp: kdf_result_def neutral_def)
qed

lemma any_step_safe: "wf_params p \<Longrightarrow> wp (any_step kv p) (\<lambda>(p', r) w'. wf_params p' \<and> grows p w p' w') w"
proof (cases kv rule: any_step.cases)
  case (5 k t)
  then show "wf_params p \<Longrightarrow> ?thesis" by simp
qed (simp_all, insert pstep_oks, (fastforce simp: pstep_ok_def elim: wp_mono)+)

lemma any_steps_safe:
  "wf_params p \<Longrightarrow> wp (p_steps (map any_step kp) p) (\<lambda>(p', r) w'. wf_params p' \<and> grows p w p' w') w"
proof (induction kp arbitrary: p w)
  case (Cons kv kp)
  show ?case
    unfolding list.map p_steps.simps wp_p_then
    by (rule wp_mono [OF any_step_safe [OF Cons.prems]])
      (auto split: sum.splits intro: grows_trans wp_mono [OF Cons.IH])
qed simp

lemma DeriveKDF_spec:
  assumes "\<And>a. c = Some a \<Longrightarrow> ctx_live a w"
  shows "wp (DeriveKDF c name kp n) (kdf_result n w) w"
  unfolding DeriveKDF_def with_builder_def wp_bind
proof (rule wp_mono [OF any_steps_safe [OF wf_newParams]], clarify)
  fix p r w1 assume p: "wf_params p" "grows newParams w p w1"
  have live: "\<And>a. c = Some a \<Longrightarrow> ctx_live a w1" using assms p(2) by (auto simp: ctx_live_def grows_def)
  have drop: "wp (drop_params p) (\<lambda>_. kdf_result n w r') w2"
    if "keeps w1 w2" "\<forall>out. r' = Inr out \<longrightarrow> go_len out = n \<and> 0 < n \<and> n \<le> maxOutputLength" for r' w2
    by (rule wp_drop_after [OF p, where D = "{#}"]) (use that in \<open>auto simp: kdf_result_def neutral_def\<close>)
  show "wp (deferring (drop_params p) (case r of Inl e \<Rightarrow> fail e | Inr u \<Rightarrow> deriveKDF c name p n)) (kdf_result n w) w1"
    by (cases r) (auto intro!: drop wp_mono [OF deriveKDF_spec [OF grows_builder_held [OF p] live]])
qed

lemma raise_threads_spec:
  "ctx_live a w \<Longrightarrow> wp (raise_threads a lanes) (\<lambda>r w'. keeps w w') w"
  by (auto simp: raise_threads_def with_lock_def ctx_live_def keeps_def intro!: vcg)

lemma kdf_result_after: "keeps w w1 \<Longrightarrow> kdf_result n w1 r w' \<Longrightarrow> kdf_result n w r w'"
  by (auto simp: kdf_result_def neutral_def intro: keeps_trans)

lemma kdf_specs:
  assumes "\<And>a. c = Some a \<Longrightarrow> ctx_live a w"
  shows "wp (DeriveKDF c name kp n) (kdf_result n w) w"
    and "wp (HKDF c digest secret salt info n) (kdf_result n w) w"
    and "wp (HKDFExpand c digest prk info n) (kdf_result n w) w"
    and "wp (PBKDF2 c digest password salt iterations n) (kdf_result n w) w"
    and "wp (Argon2 c variant password salt ap n) (kdf_result n w) w"
proof -
  show "wp (DeriveKDF c name kp n) (kdf_result n w) w" by (rule DeriveKDF_spec [OF assms])
  show "wp (HKDF c digest secret salt info n) (kdf_result n w) w"
    unfolding HKDF_def by (rule wp_chain_kdf [OF _ assms]) simp
  show "wp (HKDFExpand c digest prk info n) (kdf_result n w) w"
    unfolding HKDFExpand_def by (rule wp_chain_kdf [OF _ assms]) simp
  show "wp (PBKDF2 c digest password salt iterations n) (kdf_result n w) w"
    by (auto simp: PBKDF2_def intro!: wp_chain_kdf assms)
  show "wp (Argon2 c variant password salt ap n) (kdf_result n w) w"
  proof (cases c)
    case (Some a)
    have chain: "wp (with_chain ss (\<lambda>p. deriveKDF c alg p n)) (kdf_result n w) w1"
      if "psteps_ok ss" "keeps w w1" for ss alg w1
    proof (rule wp_mono [OF wp_chain_kdf [OF that(1)]])
      show "\<And>a. c = Some a \<Longrightarrow> ctx_live a w1" using assms that(2) by (auto intro: keeps_live)
    qed (auto intro: kdf_result_after that(2))
    show ?thesis
      unfolding Argon2_def Some option.case wp_must wp_lift
      by (auto split: sum.splits simp flip: Some intro!: wp_mono [OF raise_threads_spec [OF assms [OF Some]]] chain)
  qed (simp add: Argon2_def)
qed

text \<open>
  Every derivation that succeeds returns exactly the number of bytes asked for, which is
  positive and within the package's bound; and whatever the library answers, the references
  of the process stay as they were.
\<close>

theorem KDF_output:
  assumes "ctx_live a w"
  shows "wp (DeriveKDF (Some a) name kp n) (kdf_result n w) w
    \<and> wp (HKDF (Some a) digest secret salt info n) (kdf_result n w) w
    \<and> wp (HKDFExpand (Some a) digest secret info n) (kdf_result n w) w
    \<and> wp (PBKDF2 (Some a) digest secret salt iterations n) (kdf_result n w) w
    \<and> wp (Argon2 (Some a) variant secret salt ap n) (kdf_result n w) w"
  using assms by (intro conjI kdf_specs) auto

lemma KDF_output_witness:
  "wp (PBKDF2 (Some Default) ''SHA2-256'' [1] [2] 600000 32) (kdf_result 32 (world_of lib_yes [])) (world_of lib_yes [])"
  using KDF_output [of Default "world_of lib_yes []"] by (simp add: ctx_live_def)

section \<open>What the library is asked\<close>

text \<open>Every derivation call carries the parameters \<open>K\<close>.\<close>

fun derive_with :: "((string \<times> pval) list \<Rightarrow> bool) \<Rightarrow> ccall \<Rightarrow> bool" where
  "derive_with K (Do f hs [n, AParams ps]) = (if f = ''EVP_KDF_derive'' then K (param_view ps) else True)"
| "derive_with K (Do f hs as) \<longleftrightarrow> f \<noteq> ''EVP_KDF_derive''"
| "derive_with K c = True"

interpretation derive: call_policy "derive_with K" for K
proof
  fix c
  show "err_call c \<Longrightarrow> derive_with K c" by (cases "(K, c)" rule: derive_with.cases) auto
  show "mem_call c \<Longrightarrow> derive_with K c" by (cases "(K, c)" rule: derive_with.cases) auto
qed

lemma view_ended: "wf_params p \<Longrightarrow> param_view (p_list p @ [ParamEnd]) = param_view (p_list p)"
  by (simp add: wf_params_def param_view_append)

lemma deriveKDF_only:
  assumes "wf_params p" "K (param_view (p_list p))"
  shows "wp (deriveKDF c name p n) (\<lambda>r w'. only (derive_with K) w w') w"
  using assms
  by (auto simp: deriveKDF_def derive_kdf_def derive_in_def wp_defs use_c_ended view_ended
      intro!: trace_rules only_push elim!: derive.after_err [rotated] split: option.splits)

lemma chain_only:
  assumes "list_all2 pstep_ok ss kvs" "K kvs"
  shows "wp (with_chain ss (\<lambda>p. deriveKDF c name p n)) (\<lambda>r w'. only (derive_with K) w w') w"
  by (rule wp_with_chain_trace [OF assms(1), where P = "\<lambda>r w1 w2. only (derive_with K) w1 w2"])
    (use assms(2) in \<open>auto intro: deriveKDF_only only_trans dest!: derive.from_mem [where K = K]\<close>)

text \<open>
  C20: the iteration count that reaches the library is the one the caller gave, between 1 and ten
  million: no count wraps around in the conversion to the C type, and none outside the bounds
  is ever handed over.
\<close>

theorem PBKDF2_iterations:
  "wp (PBKDF2 c digest password salt iterations n) (\<lambda>r w'. only (derive_with (\<lambda>kvs.
     map_of kvs pKeyIter = Some (PUInt iterations) \<and> 0 < iterations \<and> iterations \<le> 10000000)) w w') w"
proof -
  have it: "c_uint iterations = iterations" if "0 < iterations" "iterations \<le> maxPBKDF2Iterations"
    using that by (intro c_uint_id) (auto simp: maxPBKDF2Iterations_def)
  show ?thesis
    by (auto simp: PBKDF2_def maxPBKDF2Iterations_def [symmetric]
        intro!: chain_only [where kvs = "[(c_string pKeyDigest, PUtf8 (c_string digest)),
            (c_string pKeyPassword, POctets password), (c_string pKeySalt, POctets salt),
            (c_string pKeyIter, PUInt (c_uint iterations))]"] pstep_oks)
      (auto simp: it, auto simp: pKey_defs c_string_def)
qed

text \<open>Costs within the package's limits, as the library reads them.\<close>

definition costs_ok :: "(string \<times> pval) list \<Rightarrow> bool" where
  "costs_ok kvs \<longleftrightarrow> (case (map_of kvs pKeyIter, map_of kvs pKeyArgonMem, map_of kvs pKeyArgonLane, map_of kvs pKeyThreads) of
     (Some (PUInt i), Some (PUInt m), Some (PUInt l), Some (PUInt t)) \<Rightarrow>
       i \<in> {1..10000} \<and> m \<in> {1..4194304} \<and> l \<in> {1..1024} \<and> t = l
   | _ \<Rightarrow> False)"

lemma argon2_costs_ok:
  assumes "argon2_costs ap = Inr bp"
  shows "uint (ar_Iterations bp) \<in> {1..10000}" "uint (ar_MemoryKiB bp) \<in> {1..4194304}"
    "uint (ar_Lanes bp) \<in> {1..1024}"
proof -
  have pos: "1 \<le> uint x" if "x \<noteq> 0" for x :: "64 word"
    using that uint_ge_0 [of x] by (metis int_one_le_iff_zero_less le_less uint_0_iff)
  show "uint (ar_Iterations bp) \<in> {1..10000}" "uint (ar_MemoryKiB bp) \<in> {1..4194304}" "uint (ar_Lanes bp) \<in> {1..1024}"
    using assms pos by (auto simp: argon2_costs_def argon2_maxima word_less_def word_le_def split: if_splits)
qed

lemma argon2_chain:
  assumes "argon2_costs ap = Inr bp" "only (derive_with costs_ok) w w1" "psteps_ok (xs @ ys)"
  shows "wp (with_chain
       ([Octets pKeyPassword password, Octets pKeySalt salt, UInt pKeyIter (uint (ar_Iterations bp)),
         UInt pKeyArgonMem (uint (ar_MemoryKiB bp)), UInt pKeyArgonLane (uint (ar_Lanes bp)),
         UInt pKeyThreads (uint (ar_Lanes bp)), SizeT pKeySize n] @ xs @ ys)
       (\<lambda>p. deriveKDF d alg p n)) (\<lambda>r w'. only (derive_with costs_ok) w w') w1"
proof -
  obtain kvs where kvs: "list_all2 pstep_ok (xs @ ys) kvs" using psteps_ok_all2 [OF assms(3)] by blast
  note c = argon2_costs_ok [OF assms(1)]
  have u: "c_uint (uint (ar_Iterations bp)) = uint (ar_Iterations bp)"
    "c_uint (uint (ar_MemoryKiB bp)) = uint (ar_MemoryKiB bp)" "c_uint (uint (ar_Lanes bp)) = uint (ar_Lanes bp)"
    using c by (auto intro!: c_uint_id)
  let ?kvs = "[(c_string pKeyPassword, POctets password), (c_string pKeySalt, POctets salt),
    (c_string pKeyIter, PUInt (c_uint (uint (ar_Iterations bp)))),
    (c_string pKeyArgonMem, PUInt (c_uint (uint (ar_MemoryKiB bp)))),
    (c_string pKeyArgonLane, PUInt (c_uint (uint (ar_Lanes bp)))),
    (c_string pKeyThreads, PUInt (c_uint (uint (ar_Lanes bp)))), (c_string pKeySize, PSizeT (c_size_t n))] @ kvs"
  have A: "list_all2 pstep_ok ([Octets pKeyPassword password, Octets pKeySalt salt, UInt pKeyIter (uint (ar_Iterations bp)),
       UInt pKeyArgonMem (uint (ar_MemoryKiB bp)), UInt pKeyArgonLane (uint (ar_Lanes bp)),
       UInt pKeyThreads (uint (ar_Lanes bp)), SizeT pKeySize n] @ xs @ ys) ?kvs"
    using kvs by (simp add: pstep_oks del: pKey_cstring)
  have "map_of ?kvs pKeyIter = Some (PUInt (uint (ar_Iterations bp)))"
    "map_of ?kvs pKeyArgonMem = Some (PUInt (uint (ar_MemoryKiB bp)))"
    "map_of ?kvs pKeyArgonLane = Some (PUInt (uint (ar_Lanes bp)))"
    "map_of ?kvs pKeyThreads = Some (PUInt (uint (ar_Lanes bp)))"
    by (simp_all add: u) (simp_all add: pKey_defs)
  with c have B: "costs_ok ?kvs" by (simp add: costs_ok_def)
  show ?thesis by (rule wp_mono [OF chain_only [where K = costs_ok, OF A B]]) (rule only_trans [OF assms(2)])
qed

lemma raise_threads_only: "wp (raise_threads a lanes) (\<lambda>r w'. only (derive_with costs_ok) w w') w"
  by (auto simp: raise_threads_def with_lock_def intro!: trace_rules only_push elim!: derive.after_err [rotated])

text \<open>
  C21: whatever costs a caller asks of Argon2, the library is only ever asked for costs within
  the package's limits, with as many threads as lanes; no value wraps in the conversion.
\<close>

theorem Argon2_costs_bounded:
  "wp (Argon2 c variant password salt ap n) (\<lambda>r w'. only (derive_with costs_ok) w w') w"
proof (cases c)
  case (Some a)
  show ?thesis
  proof (cases "Argon2Variant_name variant"; cases "argon2_costs ap")
    fix alg bp
    assume r: "Argon2Variant_name variant = Inr alg" "argon2_costs ap = Inr bp"
    note chain = argon2_chain [OF r(2)]
    show ?thesis
      unfolding Argon2_def Some option.case wp_must wp_lift r sum.case
      by (rule wp_mono [OF raise_threads_only]) (auto split: sum.splits simp del: append.simps
          intro!: chain chain [where ys = "[]", unfolded append_Nil2]
            chain [where xs = "[]" and ys = "[]", unfolded append_Nil2])
  qed (simp_all add: Argon2_def Some)
qed (simp add: Argon2_def)

definition budget_seen :: "cref \<Rightarrow> 64 word \<Rightarrow> world \<Rightarrow> world \<Rightarrow> bool" where
  "budget_seen a lanes w w' \<longleftrightarrow> (\<exists>r. lanes \<le> rcode r
       \<and> saw (Do ''OSSL_get_max_threads'' [(HLibCtx, c_ctx (ctxs w a))] [], r) w w')
     \<or> (\<exists>r. rc r = 1 \<and> saw (Do ''OSSL_set_max_threads'' [(HLibCtx, c_ctx (ctxs w a))] [AInt (uint lanes)], r) w w')"

text \<open>
  C22: an Argon2 derivation with more than one lane succeeds only after the library reported a
  thread budget of at least that many for this context, or accepted that many as its budget.
\<close>

theorem Argon2_thread_budget:
  "wp (Argon2 (Some a) variant password salt ap n) (\<lambda>r w'.
     isl r \<or> ar_Lanes ap \<le> 1 \<or> budget_seen a (ar_Lanes ap) w w') w"
proof -
  have raise: "wp (raise_threads a lanes) (\<lambda>r w'. isl r \<or> lanes \<le> 1 \<or> budget_seen a lanes w w') w" for lanes
    by (auto simp: raise_threads_def with_lock_def budget_seen_def saw_push_eq not_less intro!: trace_rules)
  have later: "budget_seen a l w w'" if "budget_seen a l w w1" "ext w1 w'" for l w1 w'
    using that unfolding budget_seen_def by (meson saw_later)
  have chain: "wp (with_chain ss (\<lambda>p. deriveKDF c alg p n)) (\<lambda>r w'. ext w1 w') w1" if ss: "psteps_ok ss" for ss c alg w1
  proof -
    obtain kvs where kvs: "list_all2 pstep_ok ss kvs" using psteps_ok_all2 [OF ss] by blast
    show ?thesis
      by (rule wp_mono [OF chain_only [where K = "\<lambda>_. True", OF kvs]]) (auto dest: only_ext)
  qed
  show ?thesis
  proof (cases "Argon2Variant_name variant"; cases "argon2_costs ap")
    fix alg bp
    assume r: "Argon2Variant_name variant = Inr alg" "argon2_costs ap = Inr bp"
    have lanes: "ar_Lanes bp = (if ar_Lanes ap = 0 then 1 else ar_Lanes ap)"
      using r(2) by (auto simp: argon2_costs_def split: if_splits)
    show ?thesis
      unfolding Argon2_def option.case wp_must wp_lift r sum.case
      by (rule wp_mono [OF raise])
        (auto split: sum.splits if_splits simp: lanes intro!: wp_mono [OF chain] intro: later)
  qed (simp_all add: Argon2_def)
qed

end
