(* ===== verification/Streaming.thy ===== *)
theory Streaming
  imports Lifecycle
begin

text \<open>
  The contract of Go's \<open>hash.Hash\<close>, which digest.go and mac.go implement: \<open>Write\<close> appends to
  the message, \<open>Sum\<close> appends the digest of the message so far to its argument and leaves the
  message alone, \<open>Reset\<close> empties it.
\<close>

datatype stream_op = SWrite "byte list" | SSum "byte list" | SReset

text \<open>The abstract machine: the state is the message; the outputs are those of the \<open>Sum\<close>s.\<close>

fun stream_spec :: "(byte list \<Rightarrow> byte list) \<Rightarrow> byte list \<Rightarrow> stream_op list \<Rightarrow> byte list list" where
  "stream_spec F m [] = []"
| "stream_spec F m (SWrite p # ops) = stream_spec F (m @ p) ops"
| "stream_spec F m (SSum b # ops) = (b @ F m) # stream_spec F m ops"
| "stream_spec F m (SReset # ops) = stream_spec F [] ops"

text \<open>The code: the three methods run on an object, outputs collected with their errors.\<close>

fun stream_run :: "('s \<Rightarrow> byte list \<Rightarrow> (world, 's \<times> (err + int)) state)
    \<Rightarrow> ('s \<Rightarrow> byte list \<Rightarrow> (world, 's \<times> (err + byte list)) state)
    \<Rightarrow> ('s \<Rightarrow> (world, 's \<times> (err + unit)) state)
    \<Rightarrow> stream_op list \<Rightarrow> 's \<Rightarrow> (world, (err + byte list) list) state" where
  "stream_run wr sm rs [] s = ret []"
| "stream_run wr sm rs (SWrite p # ops) s = do {
     (s, r) \<leftarrow> wr s p;
     stream_run wr sm rs ops s
   }"
| "stream_run wr sm rs (SSum b # ops) s = do {
     (s, r) \<leftarrow> sm s b;
     rest \<leftarrow> stream_run wr sm rs ops s;
     ret (r # rest)
   }"
| "stream_run wr sm rs (SReset # ops) s = do {
     (s, r) \<leftarrow> rs s;
     stream_run wr sm rs ops s
   }"

text \<open>Methods that keep the references, in any order, keep them.\<close>

lemma stream_run_keeps:
  assumes "\<And>s w b. J s w \<Longrightarrow> wp (wr s b) (\<lambda>(t, r) w'. keeps w w' \<and> J t w') w"
    and "\<And>s w b. J s w \<Longrightarrow> wp (sm s b) (\<lambda>(t, r) w'. keeps w w' \<and> J t w') w"
    and "\<And>s w. J s w \<Longrightarrow> wp (rs s) (\<lambda>(t, r) w'. keeps w w' \<and> J t w') w"
  shows "J s w \<Longrightarrow> wp (stream_run wr sm rs ops s) (\<lambda>_ w'. keeps w w') w"
proof (induction ops arbitrary: s w)
  case (Cons x ops)
  have rest: "wp (stream_run wr sm rs ops t) (\<lambda>_ w'. keeps w w') w1" if "keeps w w1" "J t w1" for t w1
    by (rule wp_mono [OF Cons.IH [OF that(2)]]) (rule keeps_trans [OF that(1)])
  show ?case
    by (cases x) (auto intro!: wp_mono [OF assms(1)] wp_mono [OF assms(2)] wp_mono [OF assms(3)] rest Cons.prems)
qed simp

locale streaming =
  fixes wr :: "'s \<Rightarrow> byte list \<Rightarrow> (world, 's \<times> (err + int)) state"
    and sm :: "'s \<Rightarrow> byte list \<Rightarrow> (world, 's \<times> (err + byte list)) state"
    and rs :: "'s \<Rightarrow> (world, 's \<times> (err + unit)) state"
    and ready :: "'s \<Rightarrow> world \<Rightarrow> bool"
    and msg :: "'s \<Rightarrow> world \<Rightarrow> byte list"
    and F :: "byte list \<Rightarrow> byte list"
  assumes write_law: "ready s w \<Longrightarrow>
      wp (wr s p) (\<lambda>(t, r) w'. r = Inr (go_len p) \<and> ready t w' \<and> msg t w' = msg s w @ p) w"
    and sum_law: "ready s w \<Longrightarrow>
      wp (sm s b) (\<lambda>(t, r) w'. r = Inr (b @ F (msg s w)) \<and> ready t w' \<and> msg t w' = msg s w) w"
    and reset_law: "ready s w \<Longrightarrow>
      wp (rs s) (\<lambda>(t, r) w'. r = Inr () \<and> ready t w' \<and> msg t w' = []) w"
begin

lemma run_refines:
  "ready s w \<Longrightarrow> wp (stream_run wr sm rs ops s)
     (\<lambda>outs _. outs = map Inr (stream_spec F (msg s w) ops)) w"
proof (induction ops arbitrary: s w)
  case (Cons x ops)
  show ?case
  proof (cases x)
    case (SWrite p)
    show ?thesis
      unfolding SWrite stream_run.simps wp_bind
      by (rule wp_mono [OF write_law [OF Cons.prems]]) (auto elim!: wp_mono [OF Cons.IH])
  next
    case (SSum b)
    show ?thesis
      unfolding SSum stream_run.simps wp_bind
      by (rule wp_mono [OF sum_law [OF Cons.prems]]) (auto elim!: wp_mono [OF Cons.IH])
  next
    case SReset
    show ?thesis
      unfolding SReset stream_run.simps wp_bind
      by (rule wp_mono [OF reset_law [OF Cons.prems]]) (auto elim!: wp_mono [OF Cons.IH])
  qed
qed simp

end

end
