(* ===== verification/Digest.thy ===== *)
theory Digest
  imports Streaming
begin

text \<open>
  digest.go: message digests. \<open>hash.Hash\<close> gives \<open>Sum\<close> no error return, so a failure is latched
  in the object and read with \<open>Err\<close>; the one-shot functions check it. A method that changes
  its receiver returns the receiver beside its result.
\<close>

record hash =
  h_ctx :: ptr
  h_md :: ptr
  h_name :: string
  h_size :: int
  h_bs :: int
  h_xof :: bool
  h_err :: "err option"

definition EVP_MAX_MD_SIZE :: int where "EVP_MAX_MD_SIZE = 64"

definition hash_init :: "ptr \<Rightarrow> ptr \<Rightarrow> string \<Rightarrow> hash go" where
  "hash_init md ctx name = do {
     r \<leftarrow> call (Do ''EVP_DigestInit_ex2'' [(HMdCtx, ctx), (HMd, md)] [ANull]);
     if rc r \<noteq> 1 then do { free HMdCtx ctx; free HMd md; failE ''EVP_DigestInit_ex2'' }
     else do {
       s \<leftarrow> call (Do ''EVP_MD_get_size'' [(HMd, md)] []);
       b \<leftarrow> call (Do ''EVP_MD_get_block_size'' [(HMd, md)] []);
       f \<leftarrow> call (Do ''EVP_MD_xof'' [(HMd, md)] []);
       ok \<lparr>h_ctx = ctx, h_md = md, h_name = name, h_size = rlen s, h_bs = rlen b, h_xof = (rlen f \<noteq> 0), h_err = None\<rparr>
     }
   }"

definition NewHash :: "cref option \<Rightarrow> string \<Rightarrow> hash go" where
  "NewHash c name = (case c of None \<Rightarrow> fail ErrClosed | Some a \<Rightarrow> do {
     clearErrors;
     with_cstr name (\<lambda>cname. do {
       cp \<leftarrow> Context_ptr a;
       md \<leftarrow> new HMd ''EVP_MD_fetch'' [(HLibCtx, cp)] [cname, ANull];
       if md = NULL then failE (''EVP_MD_fetch('' @ name @ '')'')
       else do {
         ctx \<leftarrow> new HMdCtx ''EVP_MD_CTX_new'' [] [];
         if ctx = NULL then do { free HMd md; failE ''EVP_MD_CTX_new'' }
         else hash_init md ctx name
       }
     })
   })"

definition IsXOF :: "hash option \<Rightarrow> bool" where
  "IsXOF h = (case h of None \<Rightarrow> False | Some x \<Rightarrow> h_xof x)"

definition Hash_Write :: "hash option \<Rightarrow> byte list \<Rightarrow> (world, hash option \<times> (err + int)) state" where
  "Hash_Write h p = (case h of None \<Rightarrow> ret (None, Inl ErrClosed) | Some x \<Rightarrow>
     if h_ctx x = NULL then ret (h, Inl ErrClosed)
     else if p = [] then ret (h, Inr 0)
     else do {
       r \<leftarrow> call (Do ''EVP_DigestUpdate'' [(HMdCtx, h_ctx x)] [ABytes p, AInt (c_size_t (go_len p))]);
       if rc r \<noteq> 1 then do { e \<leftarrow> newError ''EVP_DigestUpdate''; ret (Some (x\<lparr>h_err := Some e\<rparr>), Inl e) }
       else ret (h, Inr (go_len p))
     })"

text \<open>\<open>h.err = newError(op); return b\<close>; a drain that does not end does not return.\<close>

definition hash_latch :: "hash \<Rightarrow> string \<Rightarrow> 'a \<Rightarrow> (world, hash option \<times> (err + 'a)) state" where
  "hash_latch x op b = do {
     e \<leftarrow> newError op;
     ret (Some (x\<lparr>h_err := Some e\<rparr>), if is_panic e then Inl e else Inr b)
   }"

definition hash_final :: "hash \<Rightarrow> ptr \<Rightarrow> byte list \<Rightarrow> (world, hash option \<times> (err + byte list)) state" where
  "hash_final x tmp b = do {
     y \<leftarrow> call (Do ''EVP_MD_CTX_copy_ex'' [(HMdCtx, tmp), (HMdCtx, h_ctx x)] []);
     if rc y \<noteq> 1 then hash_latch x ''EVP_MD_CTX_copy_ex'' b
     else do {
       r \<leftarrow> call (Do ''EVP_DigestFinal_ex'' [(HMdCtx, tmp)] [AOut EVP_MAX_MD_SIZE]);
       if rc r \<noteq> 1 then hash_latch x ''EVP_DigestFinal_ex'' b
       else do {
         s \<leftarrow> slice_to (write_at (replicate (nat EVP_MAX_MD_SIZE) 0) 0 (rbuf r)) (rlen r) (\<lambda>d. ok (b @ d));
         ret (Some x, s)
       }
     }
   }"

definition Hash_Sum :: "hash option \<Rightarrow> byte list \<Rightarrow> (world, hash option \<times> (err + byte list)) state" where
  "Hash_Sum h b = (case h of None \<Rightarrow> ret (None, Inr b) | Some x \<Rightarrow>
     if h_ctx x = NULL then ret (Some (x\<lparr>h_err := Some ErrClosed\<rparr>), Inr b)
     else if h_xof x
     then ret (Some (x\<lparr>h_err := Some (Errorf ''ossl: %s is an extendable-output function; use SumXOF(n), not Sum'' [FStr (h_name x)])\<rparr>), Inr b)
     else do {
       tmp \<leftarrow> new HMdCtx ''EVP_MD_CTX_new'' [] [];
       if tmp = NULL then hash_latch x ''EVP_MD_CTX_new'' b
       else deferring (free HMdCtx tmp) (hash_final x tmp b)
     })"

definition SumXOF :: "hash option \<Rightarrow> int \<Rightarrow> (byte list) go" where
  "SumXOF h n = (case h of None \<Rightarrow> fail ErrClosed | Some x \<Rightarrow>
     if h_ctx x = NULL then fail ErrClosed
     else if n \<le> 0 then ok []
     else if n > maxOutputLength
     then fail (Errorf ''ossl: XOF output length %d exceeds the maximum of %d bytes'' [FInt n, FInt maxOutputLength])
     else make_bytes n (\<lambda>out. addr0 out (do {
       r \<leftarrow> call (Do ''EVP_DigestFinalXOF'' [(HMdCtx, h_ctx x)] [AOut (c_size_t n)]);
       if rc r \<noteq> 1 then failE ''EVP_DigestFinalXOF'' else ok (write_at out 0 (rbuf r))
     })))"

definition Hash_Reset :: "hash option \<Rightarrow> (world, hash option \<times> (err + unit)) state" where
  "Hash_Reset h = (case h of None \<Rightarrow> ret (None, Inr ()) | Some x \<Rightarrow>
     if h_ctx x = NULL then ret (h, Inr ())
     else do {
       r \<leftarrow> call (Do ''EVP_DigestInit_ex2'' [(HMdCtx, h_ctx x), (HMd, h_md x)] [ANull]);
       if rc r \<noteq> 1 then hash_latch x ''EVP_DigestInit_ex2'' () else ret (h, Inr ())
     })"

definition Hash_Size :: "hash option \<Rightarrow> int" where
  "Hash_Size h = (case h of None \<Rightarrow> 0 | Some x \<Rightarrow> h_size x)"

definition Hash_BlockSize :: "hash option \<Rightarrow> int" where
  "Hash_BlockSize h = (case h of None \<Rightarrow> 0 | Some x \<Rightarrow> h_bs x)"

definition Hash_Name :: "hash option \<Rightarrow> string" where
  "Hash_Name h = (case h of None \<Rightarrow> [] | Some x \<Rightarrow> h_name x)"

definition Hash_Err :: "hash option \<Rightarrow> err option" where
  "Hash_Err h = (case h of None \<Rightarrow> Some ErrClosed | Some x \<Rightarrow> h_err x)"

definition Hash_Close :: "hash option \<Rightarrow> (hash option) go" where
  "Hash_Close h = (case h of None \<Rightarrow> ok None | Some x \<Rightarrow> do {
     (if h_ctx x \<noteq> NULL then free HMdCtx (h_ctx x) else ret ());
     (if h_md x \<noteq> NULL then free HMd (h_md x) else ret ());
     ok (Some (x\<lparr>h_ctx := NULL, h_md := NULL\<rparr>))
   })"

section \<open>One-shot functions\<close>

text \<open>\<open>defer h.Close()\<close>. The methods never change the two pointers, so the object it was registered on will do.\<close>

definition close_hash :: "hash \<Rightarrow> (world, unit) state" where
  "close_hash x = do { Hash_Close (Some x); ret () }"

definition Digest :: "string \<Rightarrow> byte list \<Rightarrow> (byte list) go" where
  "Digest name data = must (NewHash (Some Default) name) (\<lambda>x. deferring (close_hash x) (do {
     (h, r) \<leftarrow> Hash_Write (Some x) data;
     case r of Inl e \<Rightarrow> fail e | Inr _ \<Rightarrow> do {
       (h, s) \<leftarrow> Hash_Sum h [];
       case s of Inl e \<Rightarrow> fail e | Inr d \<Rightarrow>
         (case Hash_Err h of Some e \<Rightarrow> fail e | None \<Rightarrow> ok d)
     }
   }))"

definition DigestXOF :: "string \<Rightarrow> byte list \<Rightarrow> int \<Rightarrow> (byte list) go" where
  "DigestXOF name data n = must (NewHash (Some Default) name) (\<lambda>x. deferring (close_hash x) (do {
     (h, r) \<leftarrow> Hash_Write (Some x) data;
     case r of Inl e \<Rightarrow> fail e | Inr _ \<Rightarrow> SumXOF h n
   }))"

section \<open>Ownership\<close>

definition hash_refs :: "hash \<Rightarrow> handle multiset" where
  "hash_refs x = held HMdCtx (h_ctx x) + held HMd (h_md x)"

definition hash_closed :: "hash \<Rightarrow> bool" where
  "hash_closed x \<longleftrightarrow> h_ctx x = NULL \<and> h_md x = NULL"

definition hash_ok :: "hash \<Rightarrow> world \<Rightarrow> bool" where
  "hash_ok x w \<longleftrightarrow> (h_ctx x \<noteq> NULL \<longrightarrow> (HMdCtx, h_ctx x) \<in># owned w) \<and> (h_md x \<noteq> NULL \<longrightarrow> (HMd, h_md x) \<in># owned w)"

lemma NewHash_spec:
  assumes "\<And>a. c = Some a \<Longrightarrow> ctx_live a w"
  shows "wp (NewHash c name) (\<lambda>r w'. case r of
      Inl e \<Rightarrow> keeps w w'
    | Inr x \<Rightarrow> gains (hash_refs x) w w' \<and> h_ctx x \<noteq> NULL \<and> h_md x \<noteq> NULL \<and> h_err x = None) w"
  using assms
  by (auto simp: NewHash_def hash_init_def wp_defs eff_defs ctx_live_def hash_refs_def intro!: vcg split: option.splits)

text \<open>A method keeps the references and the pointers of its object.\<close>

definition same_hash :: "hash \<Rightarrow> hash option \<Rightarrow> bool" where
  "same_hash x h \<longleftrightarrow> (\<exists>e. h = Some (x\<lparr>h_err := e\<rparr>))"

lemma same_hash_self [simp]: "same_hash x (Some x)" "same_hash x (Some (x\<lparr>h_err := e\<rparr>))"
  unfolding same_hash_def by (auto intro: exI [of _ "h_err x"])

lemma hash_latch_spec:
  "wp (hash_latch x op b) (\<lambda>(h, r) w'. keeps w w' \<and> same_hash x h) w"
  by (auto simp: hash_latch_def intro!: vcg)

lemmas wp_hash_latch [vcg] = wp_mono [OF hash_latch_spec]

lemma hash_methods:
  assumes "hash_ok x w"
  shows "wp (Hash_Write (Some x) p) (\<lambda>(h, r) w'. keeps w w' \<and> same_hash x h) w"
    "wp (Hash_Sum (Some x) b) (\<lambda>(h, r) w'. keeps w w' \<and> same_hash x h) w"
    "wp (SumXOF (Some x) n) (\<lambda>r w'. keeps w w') w"
    "wp (Hash_Reset (Some x)) (\<lambda>(h, r) w'. keeps w w' \<and> same_hash x h) w"
  using assms
  by (auto simp: Hash_Write_def Hash_Sum_def hash_final_def SumXOF_def Hash_Reset_def wp_defs keeps_def hash_ok_def
      intro!: vcg)

lemma hash_methods_later:
  assumes "hash_ok x w" "same_hash x h"
  shows "wp (Hash_Write h p) (\<lambda>(h, r) w'. keeps w w' \<and> same_hash x h) w"
    "wp (Hash_Sum h b) (\<lambda>(h, r) w'. keeps w w' \<and> same_hash x h) w"
    "wp (SumXOF h n) (\<lambda>r w'. keeps w w') w"
proof -
  obtain e where h: "h = Some (x\<lparr>h_err := e\<rparr>)" using assms(2) by (auto simp: same_hash_def)
  have "hash_ok (x\<lparr>h_err := e\<rparr>) w" using assms(1) by (simp add: hash_ok_def)
  moreover have "same_hash (x\<lparr>h_err := e\<rparr>) g \<Longrightarrow> same_hash x g" for g by (auto simp: same_hash_def)
  ultimately show "wp (Hash_Write h p) (\<lambda>(h, r) w'. keeps w w' \<and> same_hash x h) w"
    "wp (Hash_Sum h b) (\<lambda>(h, r) w'. keeps w w' \<and> same_hash x h) w"
    "wp (SumXOF h n) (\<lambda>r w'. keeps w w') w"
    unfolding h by (auto intro: wp_mono [OF hash_methods(1)] wp_mono [OF hash_methods(2)] hash_methods(3))
qed

interpretation hash: closable Hash_Close hash_closed hash_refs
  by unfold_locales
    (auto simp: Hash_Close_def hash_closed_def hash_refs_def eff_defs now_owns_def held_def intro!: vcg)

section \<open>One-shot digests are checked\<close>

lemma close_hash_spec:
  assumes "h_ctx x \<noteq> NULL" "h_md x \<noteq> NULL"
  shows "wp (close_hash x) (\<lambda>_ w'. loses (hash_refs x) w w' \<and> did [] w w') w"
  using assms
  by (auto simp: close_hash_def Hash_Close_def hash_refs_def loses_def did_defs intro!: vcg ext_intros
      dest: two_subset)

text \<open>
  C19: \<open>Digest\<close> returns a digest only when the digest was initialised, took the data, was copied
  and the copy was finalised, all without error and in this order; whether it succeeds or not,
  the references of the process are what they were.
\<close>

theorem Digest_checked:
  assumes "ctx_live Default w"
  shows "wp (Digest name data) (\<lambda>r w'. keeps w w' \<and> (isl r \<or>
     did ([''EVP_DigestFinal_ex'', ''EVP_MD_CTX_copy_ex''] @ (if data = [] then [] else [''EVP_DigestUpdate''])
       @ [''EVP_DigestInit_ex2'']) w w')) w"
proof (rule wp_conj)
  show "wp (Digest name data) (\<lambda>r w'. keeps w w') w"
    unfolding Digest_def wp_must
  proof (rule wp_mono [OF NewHash_spec], use assms in simp, goal_cases)
    case (1 r w1)
    show ?case
    proof (cases r)
      case (Inr x)
      with 1 have x: "gains (hash_refs x) w w1" "h_ctx x \<noteq> NULL" "h_md x \<noteq> NULL" by auto
      have ok: "hash_ok x w2" if "keeps w1 w2" for w2
        using x that by (auto simp: hash_ok_def gains_def keeps_def hash_refs_def)
      have fin: "wp (close_hash x) (\<lambda>_ w'. keeps w w') w2" if "keeps w1 w2" for w2
        by (rule wp_mono [OF close_hash_spec [OF x(2,3)]]) (use x(1) that in \<open>auto simp: eff_defs\<close>)
      show ?thesis
        unfolding Inr sum.case wp_deferring wp_bind
        by (rule wp_mono [OF hash_methods(1) [OF ok]])
          (auto split: sum.splits option.splits intro!: fin wp_mono [OF hash_methods_later(2) [OF ok]]
            intro: keeps_trans)
    qed (use 1 in simp)
  qed
  show "wp (Digest name data) (\<lambda>r w'. isl r \<or>
     did ([''EVP_DigestFinal_ex'', ''EVP_MD_CTX_copy_ex''] @ (if data = [] then [] else [''EVP_DigestUpdate''])
       @ [''EVP_DigestInit_ex2'']) w w') w"
    by (auto simp: Digest_def NewHash_def hash_init_def Hash_Write_def Hash_Sum_def hash_final_def close_hash_def
        Hash_Close_def wp_defs hash_latch_def Hash_Err_def did_defs intro!: vcg ext_intros split: option.splits)
qed

lemma Digest_checked_witness:
  "wp (Digest ''SHA2-256'' [1]) (\<lambda>r w'. keeps (world_of lib_yes []) w' \<and> (isl r \<or>
     did [''EVP_DigestFinal_ex'', ''EVP_MD_CTX_copy_ex'', ''EVP_DigestUpdate'', ''EVP_DigestInit_ex2'']
       (world_of lib_yes []) w')) (world_of lib_yes [])"
  using Digest_checked [of "world_of lib_yes []" "''SHA2-256''" "[1]"] by (simp add: ctx_live_def)

section \<open>Refinement of the abstract stream\<close>

text \<open>
  What the digest contexts of a library do, as EVP_DigestInit(3) documents: \<open>st h p\<close> is the
  message a context has taken after the calls \<open>h\<close>. A call changes only the context it is made on
  (its first handle), a new context is none of those held, and finalising writes \<open>F\<close> of the
  message, at most \<open>EVP_MAX_MD_SIZE\<close> bytes.
\<close>

fun acts_on :: "ccall \<Rightarrow> cret \<Rightarrow> ptr set" where
  "acts_on (Do f hs as) r = (if hs = [] then {} else {snd (hd hs)})"
| "acts_on (New k f hs as) r = {rptr r}"
| "acts_on (Free k p) r = {p}"
| "acts_on _ r = {}"

abbreviation "md_init ctx md \<equiv> Do ''EVP_DigestInit_ex2'' [(HMdCtx, ctx), (HMd, md)] [ANull]"
abbreviation "md_update ctx p \<equiv> Do ''EVP_DigestUpdate'' [(HMdCtx, ctx)] [ABytes p, AInt (c_size_t (go_len p))]"
abbreviation "md_copy tmp ctx \<equiv> Do ''EVP_MD_CTX_copy_ex'' [(HMdCtx, tmp), (HMdCtx, ctx)] []"
abbreviation "md_final tmp \<equiv> Do ''EVP_DigestFinal_ex'' [(HMdCtx, tmp)] [AOut EVP_MAX_MD_SIZE]"
abbreviation "md_new \<equiv> New HMdCtx ''EVP_MD_CTX_new'' [] []"

definition digests :: "(event list \<Rightarrow> ccall \<Rightarrow> cret) \<Rightarrow> (event list \<Rightarrow> ptr \<Rightarrow> byte list) \<Rightarrow> (byte list \<Rightarrow> byte list) \<Rightarrow> bool" where
  "digests L st F \<longleftrightarrow> (\<forall>h.
     (\<forall>c q. q \<notin> acts_on c (L h c) \<longrightarrow> st ((c, L h c) # h) q = st h q)
     \<and> (\<forall>x md. rc (L h (md_init x md)) = 1 \<and> st ((md_init x md, L h (md_init x md)) # h) x = [])
     \<and> (\<forall>x p. rc (L h (md_update x p)) = 1 \<and> st ((md_update x p, L h (md_update x p)) # h) x = st h x @ p)
     \<and> (\<forall>t x. rc (L h (md_copy t x)) = 1 \<and> st ((md_copy t x, L h (md_copy t x)) # h) t = st h x)
     \<and> (\<forall>t. rc (L h (md_final t)) = 1 \<and> rbuf (L h (md_final t)) = F (st h t)
          \<and> rlen (L h (md_final t)) = go_len (F (st h t)))
     \<and> rptr (L h md_new) \<noteq> NULL \<and> (HMdCtx, rptr (L h md_new)) \<notin># owned_of h)
     \<and> (\<forall>m. go_len (F m) \<le> EVP_MAX_MD_SIZE)"

definition hash_ready :: "(event list \<Rightarrow> ptr \<Rightarrow> byte list) \<Rightarrow> (byte list \<Rightarrow> byte list) \<Rightarrow> hash option \<Rightarrow> world \<Rightarrow> bool" where
  "hash_ready st F h w \<longleftrightarrow> (case h of None \<Rightarrow> False | Some x \<Rightarrow>
     h_ctx x \<noteq> NULL \<and> \<not> h_xof x \<and> (HMdCtx, h_ctx x) \<in># owned w \<and> digests (lib w) st F)"

definition hash_msg :: "(event list \<Rightarrow> ptr \<Rightarrow> byte list) \<Rightarrow> hash option \<Rightarrow> world \<Rightarrow> byte list" where
  "hash_msg st h w = (case h of None \<Rightarrow> [] | Some x \<Rightarrow> st (hist w) (h_ctx x))"

lemma digestsD:
  assumes "digests L st F"
  shows "q \<notin> acts_on c (L h c) \<Longrightarrow> st ((c, L h c) # h) q = st h q"
    and "rc (L h (md_init x md)) = 1" "st ((md_init x md, L h (md_init x md)) # h) x = []"
    and "rc (L h (md_update x p)) = 1" "st ((md_update x p, L h (md_update x p)) # h) x = st h x @ p"
    and "rc (L h (md_copy t x)) = 1" "st ((md_copy t x, L h (md_copy t x)) # h) t = st h x"
    and "rc (L h (md_final t)) = 1" "rbuf (L h (md_final t)) = F (st h t)"
    and "rlen (L h (md_final t)) = go_len (F (st h t))"
    and "rptr (L h md_new) \<noteq> NULL" "(HMdCtx, rptr (L h md_new)) \<notin># owned_of h"
    and "go_len (F m) \<le> EVP_MAX_MD_SIZE"
  using assms unfolding digests_def by blast+

lemma EVP_MAX_MD_SIZE_ge: "0 \<le> EVP_MAX_MD_SIZE"
  by (simp add: EVP_MAX_MD_SIZE_def)

interpretation hash: streaming Hash_Write Hash_Sum Hash_Reset "hash_ready st F" "hash_msg st" F
  for st F
proof (unfold_locales, goal_cases)
  case (1 h w p)
  then show ?case
    by (auto simp: hash_ready_def hash_msg_def Hash_Write_def wp_call_eq digestsD split: option.splits)
next
  case (2 h w b)
  then obtain x where h: "h = Some x" and x: "h_ctx x \<noteq> NULL" "\<not> h_xof x" "(HMdCtx, h_ctx x) \<in># owned w"
    and D: "digests (lib w) st F"
    by (auto simp: hash_ready_def split: option.splits)
  have ne: "rptr (lib w (hist w) md_new) \<noteq> h_ctx x"
    using x(3) digestsD(12) [OF D, of "hist w"] by (auto simp: owned_def)
  show ?case
    using ne x D
    by (simp add: h hash_ready_def hash_msg_def Hash_Sum_def hash_final_def wp_call_eq digestsD [OF D] slice_to_def EVP_MAX_MD_SIZE_ge)
next
  case (3 h w)
  then show ?case
    by (auto simp: hash_ready_def hash_msg_def Hash_Reset_def wp_call_eq digestsD split: option.splits)
qed


text \<open>A library whose digest is the first two bytes of the message.\<close>

fun toy_md :: "event list \<Rightarrow> ptr \<Rightarrow> byte list" where
  "toy_md [] = (\<lambda>_. [])"
| "toy_md ((Do f ((k, x) # hs) as, r) # h) = (toy_md h)(x :=
     if f = ''EVP_DigestUpdate'' then toy_md h x @ (case as of ABytes p # _ \<Rightarrow> p | _ \<Rightarrow> [])
     else if f = ''EVP_DigestInit_ex2'' then []
     else if f = ''EVP_MD_CTX_copy_ex'' then toy_md h (snd (hd hs))
     else toy_md h x)"
| "toy_md (e # h) = toy_md h"

definition fresh_ptr :: "event list \<Rightarrow> ptr" where
  "fresh_ptr h = Suc (sum_mset (image_mset snd (owned_of h)))"

definition lib_md :: "event list \<Rightarrow> ccall \<Rightarrow> cret" where
  "lib_md h c = (case c of
     New k f hs as \<Rightarrow> (yes h)\<lparr>rptr := fresh_ptr h\<rparr>
   | Do f hs as \<Rightarrow> if f = ''EVP_DigestFinal_ex''
       then (yes h)\<lparr>rbuf := take 2 (toy_md h (snd (hd hs))), rlen := go_len (take 2 (toy_md h (snd (hd hs))))\<rparr>
       else yes h
   | _ \<Rightarrow> yes h)"

lemma fresh_ptr_pos [simp]: "NULL < fresh_ptr h"
  by (simp add: fresh_ptr_def)

lemma fresh_ptr_fresh: "(k, fresh_ptr h) \<notin># owned_of h"
proof
  assume "(k, fresh_ptr h) \<in># owned_of h"
  then obtain M where "owned_of h = add_mset (k, fresh_ptr h) M" by (metis multi_member_split)
  then have "sum_mset (image_mset snd (owned_of h)) = fresh_ptr h + sum_mset (image_mset snd M)" by simp
  then show False by (simp add: fresh_ptr_def)
qed

lemma toy_md_acts: "q \<notin> acts_on c r \<Longrightarrow> toy_md ((c, r) # h) q = toy_md h q"
  by (cases "(c, r) # h" rule: toy_md.cases) auto

lemma lib_md_digests: "digests lib_md toy_md (take 2)"
  unfolding digests_def
  by (auto simp: lib_md_def toy_md_acts fresh_ptr_fresh fresh_ptr_pos yes_def go_len_def EVP_MAX_MD_SIZE_def)

definition demo_hash :: hash where
  "demo_hash = \<lparr>h_ctx = 3, h_md = 4, h_name = ''SHA2-256'', h_size = 2, h_bs = 64, h_xof = False, h_err = None\<rparr>"


end
