(* ===== verification/Asym.thy ===== *)
theory Asym
  imports Sign_Digest Kdf Digest
begin

text \<open>
  asym.go: RSA encryption, key encapsulation and key agreement. Every operation runs on an
  \<open>EVP_PKEY_CTX\<close> of its own made from the key.
\<close>

section \<open>RSA encryption\<close>

record OAEPOptions =
  o_Hash :: string
  o_MGF1Hash :: string
  o_Label :: "byte list"

definition oaep_resolve :: "OAEPOptions option \<Rightarrow> string \<times> string \<times> byte list" where
  "oaep_resolve opts = (let
       hash = (case opts of None \<Rightarrow> SHA256 | Some x \<Rightarrow> if o_Hash x \<noteq> [] then o_Hash x else SHA256);
       mgf1 = (case opts of None \<Rightarrow> [] | Some x \<Rightarrow> o_MGF1Hash x);
       label = (case opts of None \<Rightarrow> [] | Some x \<Rightarrow> o_Label x)
     in (hash, if mgf1 = [] then hash else mgf1, label))"

definition RSA_PKCS1_OAEP_PADDING :: int where "RSA_PKCS1_OAEP_PADDING = 4"

text \<open>\<open>set0\<close> takes the buffer over when it succeeds, and only then.\<close>

definition set_label :: "ptr \<Rightarrow> byte list \<Rightarrow> unit go" where
  "set_label ctx label = do {
     buf \<leftarrow> new HMem ''C.malloc'' [] [AInt (c_size_t (go_len label))];
     if buf = NULL then fail (Errorf ''ossl: malloc failed for OAEP label'' [])
     else do {
       call (Do ''memcpy'' [(HMem, buf)] [ABytes label, AInt (c_size_t (go_len label))]);
       r \<leftarrow> call (Give ''EVP_PKEY_CTX_set0_rsa_oaep_label'' HMem buf [(HPkeyCtx, ctx)] [AInt (c_int (go_len label))]);
       if rc r \<le> 0 then do { free HMem buf; failE ''EVP_PKEY_CTX_set0_rsa_oaep_label'' } else ok ()
     }
   }"

definition applyOAEP :: "ptr \<Rightarrow> OAEPOptions option \<Rightarrow> unit go" where
  "applyOAEP ctx opts = (case oaep_resolve opts of (hash, mgf1, label) \<Rightarrow>
     must (ctx_call (HPkeyCtx, ctx) ''EVP_PKEY_CTX_set_rsa_padding'' [AInt RSA_PKCS1_OAEP_PADDING] ''EVP_PKEY_CTX_set_rsa_padding(OAEP)'') (\<lambda>_.
     with_cstr hash (\<lambda>ch.
     must (ctx_call (HPkeyCtx, ctx) ''EVP_PKEY_CTX_set_rsa_oaep_md_name'' [ch, ANull] (''EVP_PKEY_CTX_set_rsa_oaep_md_name('' @ hash @ '')'')) (\<lambda>_.
     with_cstr mgf1 (\<lambda>cm.
     must (ctx_call (HPkeyCtx, ctx) ''EVP_PKEY_CTX_set_rsa_mgf1_md_name'' [cm, ANull] (''EVP_PKEY_CTX_set_rsa_mgf1_md_name('' @ mgf1 @ '')'')) (\<lambda>_.
     if label \<noteq> [] then set_label ctx label else ok ()))))))"

definition requireRSA :: "key option \<Rightarrow> string \<Rightarrow> unit go" where
  "requireRSA k op = do {
     t \<leftarrow> Key_Type k;
     if t \<noteq> ''RSA'' then fail (Errorf ''ossl: %s requires an RSA key, got %s'' [FStr op, FStr t]) else ok ()
   }"

text \<open>The guard on a nil or closed key, and the context every operation makes for itself.\<close>

definition with_open :: "key option \<Rightarrow> (key \<Rightarrow> 'a go) \<Rightarrow> 'a go" where
  "with_open k m = (case k of None \<Rightarrow> fail ErrClosed | Some x \<Rightarrow> if k_pkey x = NULL then fail ErrClosed else m x)"

definition op_context :: "key \<Rightarrow> (ptr \<Rightarrow> 'a go) \<Rightarrow> 'a go" where
  "op_context k m = do { clearErrors; with_pctx (key_context k) k m }"

definition init_op :: "ptr \<Rightarrow> string \<Rightarrow> string \<Rightarrow> unit go" where
  "init_op ctx f op = ctx_call (HPkeyCtx, ctx) f [] op"

definition in_args :: "byte list \<Rightarrow> carg list" where
  "in_args b = [bytes_arg b, AInt (c_size_t (go_len b))]"

text \<open>A failed private-key operation: nothing is said beyond the verdict.\<close>

definition reject :: "'a go" where
  "reject = do { clearErrors; fail ErrVerification }"

definition scrub :: "byte list \<Rightarrow> 'a go \<Rightarrow> 'a go" where
  "scrub out m = do { Zero out; m }"

definition Encrypt :: "key option \<Rightarrow> byte list \<Rightarrow> OAEPOptions option \<Rightarrow> (byte list) go" where
  "Encrypt k plaintext opts = with_open k (\<lambda>x. must (requireRSA k ''Encrypt'') (\<lambda>_. op_context x (\<lambda>ctx.
     must (init_op ctx ''EVP_PKEY_encrypt_init'' ''EVP_PKEY_encrypt_init'') (\<lambda>_. must (applyOAEP ctx opts) (\<lambda>_.
     two_call ''EVP_PKEY_encrypt'' (HPkeyCtx, ctx) (in_args plaintext)
       (failE ''EVP_PKEY_encrypt(size)'') (failE ''EVP_PKEY_encrypt reported a zero-length ciphertext'')
       (\<lambda>_. failE ''EVP_PKEY_encrypt'') ok)))))"

definition Decrypt :: "key option \<Rightarrow> byte list \<Rightarrow> OAEPOptions option \<Rightarrow> (byte list) go" where
  "Decrypt k ciphertext opts = with_open k (\<lambda>x. must (requireRSA k ''Decrypt'') (\<lambda>_.
     if ciphertext = [] then fail ErrVerification
     else op_context x (\<lambda>ctx.
       must (init_op ctx ''EVP_PKEY_decrypt_init'' ''EVP_PKEY_decrypt_init'') (\<lambda>_. must (applyOAEP ctx opts) (\<lambda>_.
       two_call ''EVP_PKEY_decrypt'' (HPkeyCtx, ctx) (in_args ciphertext)
         reject (ok []) (\<lambda>out. scrub out reject) ok)))))"

definition rsaRawCrypt :: "key option \<Rightarrow> byte list \<Rightarrow> bool \<Rightarrow> (byte list) go" where
  "rsaRawCrypt k inp encrypt = with_open k (\<lambda>x.
     let op = (if encrypt then ''EncryptPKCS1v15'' else ''DecryptPKCS1v15'');
         fi = (if encrypt then ''EVP_PKEY_encrypt_init'' else ''EVP_PKEY_decrypt_init'');
         f = (if encrypt then ''EVP_PKEY_encrypt'' else ''EVP_PKEY_decrypt'')
     in must (requireRSA k op) (\<lambda>_.
       if \<not> encrypt \<and> inp = [] then fail ErrVerification
       else op_context x (\<lambda>ctx.
         must (init_op ctx fi (op @ '' init'')) (\<lambda>_.
         must (ctx_call (HPkeyCtx, ctx) ''EVP_PKEY_CTX_set_rsa_padding'' [AInt RSA_PKCS1_PADDING] ''EVP_PKEY_CTX_set_rsa_padding(PKCS1)'') (\<lambda>_.
         two_call f (HPkeyCtx, ctx) (in_args inp)
           (do { clearErrors; if encrypt then failE ''EVP_PKEY_encrypt(size)'' else fail ErrVerification })
           (ok [])
           (\<lambda>out. scrub out (do { clearErrors; if encrypt then failE ''EVP_PKEY_encrypt'' else fail ErrVerification }))
           ok)))))"

definition EncryptPKCS1v15 :: "key option \<Rightarrow> byte list \<Rightarrow> (byte list) go" where
  "EncryptPKCS1v15 k plaintext = rsaRawCrypt k plaintext True"

definition DecryptPKCS1v15 :: "key option \<Rightarrow> byte list \<Rightarrow> (byte list) go" where
  "DecryptPKCS1v15 k ciphertext = rsaRawCrypt k ciphertext False"

definition MaxOAEPPlaintext :: "key option \<Rightarrow> OAEPOptions option \<Rightarrow> int go" where
  "MaxOAEPPlaintext k opts = with_open k (\<lambda>x. must (requireRSA k ''MaxOAEPPlaintext'') (\<lambda>_.
     let hash = fst (oaep_resolve opts) in
     must (NewHash (Some (key_context x)) hash) (\<lambda>h. deferring (do { Hash_Close (Some h); ret () }) (do {
       s \<leftarrow> Key_Size k;
       let n = s - 2 * Hash_Size (Some h) - 2;
       if n < 0 then do { t \<leftarrow> Key_Type k; fail (Errorf ''ossl: %s is too small for OAEP with %s'' [FStr t, FStr hash]) }
       else ok n
     }))))"

section \<open>Key encapsulation\<close>

definition setKEMOp :: "ptr \<Rightarrow> string \<Rightarrow> unit go" where
  "setKEMOp ctx keyType = (if \<not> EqualFold keyType ''RSA'' then ok ()
     else with_cstr ''RSASVE'' (\<lambda>op. ctx_call (HPkeyCtx, ctx) ''EVP_PKEY_CTX_set_kem_op'' [op] ''EVP_PKEY_CTX_set_kem_op(RSASVE)''))"

definition kem_init :: "ptr \<Rightarrow> key \<Rightarrow> string \<Rightarrow> unit go" where
  "kem_init ctx k f = do {
     i \<leftarrow> call (Do f [(HPkeyCtx, ctx)] [ANull]);
     if rc i \<le> 0 then do { t \<leftarrow> Key_Type (Some k); failE (f @ ''('' @ t @ '')'') }
     else do { t \<leftarrow> Key_Type (Some k); setKEMOp ctx t }
   }"

text \<open>Both lengths come from one query, both outputs from one call.\<close>

definition encapsulate_in :: "ptr \<Rightarrow> (byte list \<times> byte list) go" where
  "encapsulate_in ctx = do {
     q \<leftarrow> call (Do ''EVP_PKEY_encapsulate'' [(HPkeyCtx, ctx)] [ANull, ANull]);
     if rc q \<le> 0 then failE ''EVP_PKEY_encapsulate(size)''
     else if rlen q = 0 \<or> rlen2 q = 0 then failE ''EVP_PKEY_encapsulate reported a zero-length output''
     else make_bytes (rlen q) (\<lambda>ct. make_bytes (rlen2 q) (\<lambda>ss. addr0 ct (addr0 ss (do {
       r \<leftarrow> call (Do ''EVP_PKEY_encapsulate'' [(HPkeyCtx, ctx)] [AOut (rlen q), AOut (rlen2 q)]);
       if rc r \<le> 0 then failE ''EVP_PKEY_encapsulate''
       else slice_to (write_at ct 0 (rbuf r)) (rlen r) (\<lambda>c. slice_to (write_at ss 0 (rbuf2 r)) (rlen2 r) (\<lambda>s. ok (c, s)))
     }))))
   }"

definition Encapsulate :: "key option \<Rightarrow> (byte list \<times> byte list) go" where
  "Encapsulate k = with_open k (\<lambda>x. op_context x (\<lambda>ctx.
     must (kem_init ctx x ''EVP_PKEY_encapsulate_init'') (\<lambda>_. encapsulate_in ctx)))"

definition Decapsulate :: "key option \<Rightarrow> byte list \<Rightarrow> (byte list) go" where
  "Decapsulate k ciphertext = with_open k (\<lambda>x.
     if ciphertext = [] then fail (Errorf ''ossl: empty encapsulation'' [])
     else op_context x (\<lambda>ctx. must (kem_init ctx x ''EVP_PKEY_decapsulate_init'') (\<lambda>_.
       two_call ''EVP_PKEY_decapsulate'' (HPkeyCtx, ctx) (in_args ciphertext)
         (failE ''EVP_PKEY_decapsulate(size)'') (failE ''EVP_PKEY_decapsulate reported a zero-length secret'')
         (\<lambda>out. scrub out (failE ''EVP_PKEY_decapsulate'')) ok)))"

section \<open>Key agreement\<close>

record DeriveOptions =
  CofactorMode :: bool

definition cofactor :: "DeriveOptions option \<Rightarrow> bool" where
  "cofactor opts = (case opts of None \<Rightarrow> False | Some d \<Rightarrow> CofactorMode d)"

definition agree_in :: "ptr \<Rightarrow> key \<Rightarrow> DeriveOptions option \<Rightarrow> (byte list) go" where
  "agree_in ctx peer opts =
     must (init_op ctx ''EVP_PKEY_derive_init'' ''EVP_PKEY_derive_init'') (\<lambda>_.
     must (if cofactor opts
       then ctx_call (HPkeyCtx, ctx) ''EVP_PKEY_CTX_set_ecdh_cofactor_mode'' [AInt 1] ''EVP_PKEY_CTX_set_ecdh_cofactor_mode''
       else ok ()) (\<lambda>_. do {
     s \<leftarrow> call (Do ''EVP_PKEY_derive_set_peer'' [(HPkeyCtx, ctx), (HPkey, k_pkey peer)] []);
     if rc s \<le> 0 then failE ''EVP_PKEY_derive_set_peer''
     else two_call ''EVP_PKEY_derive'' (HPkeyCtx, ctx) []
       (failE ''EVP_PKEY_derive(size)'') (failE ''EVP_PKEY_derive reported a zero-length shared secret'')
       (\<lambda>out. scrub out (failE ''EVP_PKEY_derive'')) ok }))"

definition derive_checked :: "key \<Rightarrow> key \<Rightarrow> DeriveOptions option \<Rightarrow> (byte list) go" where
  "derive_checked k peer opts = do {
     bad \<leftarrow> (if cofactor opts then do { t \<leftarrow> Key_Type (Some k); ret (t \<noteq> ''EC'') } else ret False);
     if bad then do {
       t \<leftarrow> Key_Type (Some k);
       fail (Errorf ''ossl: DeriveOptions.CofactorMode is only valid for EC keys, got %s'' [FStr t])
     }
     else op_context k (\<lambda>ctx. agree_in ctx peer opts)
   }"

definition Derive :: "key option \<Rightarrow> key option \<Rightarrow> DeriveOptions option \<Rightarrow> (byte list) go" where
  "Derive k peer opts = with_open k (\<lambda>x. with_open peer (\<lambda>y. do {
     kt \<leftarrow> Key_Type k;
     pt \<leftarrow> Key_Type peer;
     if kt \<noteq> pt then fail (Errorf ''ossl: cannot derive between a %s key and a %s peer'' [FStr kt, FStr pt])
     else derive_checked x y opts
   }))"

definition bytes_of_string :: "string \<Rightarrow> byte list" where
  "bytes_of_string s = map of_char s"

definition DeriveSharedKey :: "byte list \<Rightarrow> string \<Rightarrow> int \<Rightarrow> (byte list) go" where
  "DeriveSharedKey secret ctxt n = (if secret = [] then fail (Errorf ''ossl: empty shared secret'' [])
     else HKDF (Some Default) ''SHA2-256'' secret [] (bytes_of_string ctxt) n)"

section \<open>Ownership\<close>

lemma set_label_keeps:
  "(HPkeyCtx, p) \<in># owned w \<Longrightarrow> wp (set_label p l) (\<lambda>_ w'. keeps w w') w"
  by (auto simp: set_label_def keeps_def intro!: vcg)

lemma applyOAEP_neutral:
  assumes "stable I" "\<And>w. I w \<Longrightarrow> (HPkeyCtx, p) \<in># owned w"
  shows "neutral_op I (applyOAEP p opts)"
proof (cases "oaep_resolve opts")
  case (fields hash mgf1 label)
  have call: "neutral_op J (ctx_call (HPkeyCtx, p) f as op)"
    if "\<And>w. J w \<Longrightarrow> I w \<and> \<Union> (arg_handles ` set as) \<subseteq> set_mset (owned w)" for J f as op
    by (rule neutral_ctx_call) (use that assms(2) in auto)
  have label: "neutral_op J (set_label p l)" if "\<And>w. J w \<Longrightarrow> I w" for J l
    by (rule neutral_op_keeps, rule set_label_keeps) (use that assms(2) in auto)
  show ?thesis
    unfolding applyOAEP_def fields prod.case
    by (intro neutral_op_must neutral_op_cstr neutral_op_if neutral_op_pure call label stable_held_too assms(1))
      (auto simp: live_handles_def)
qed


lemma with_open_neutral:
  "(\<And>x. k = Some x \<Longrightarrow> neutral_op I (m x)) \<Longrightarrow> neutral_op I (with_open k m)"
  by (auto simp: with_open_def split: option.split)

lemma op_context_beside:
  assumes "stable J" "\<And>p. neutral_op (\<lambda>w. with_key x (HPkeyCtx, p) w \<and> J w) (m p)"
  shows "neutral_op (\<lambda>w. key_opt_ok (Some x) w \<and> J w) (op_context x m)"
  unfolding op_context_def
  by (intro neutral_op_bind stable_conj stable_key_opt clear_keeps with_pctx_beside assms)

lemma op_context_neutral:
  assumes "\<And>p. neutral_op (with_key x (HPkeyCtx, p)) (m p)"
  shows "neutral_op (key_opt_ok (Some x)) (op_context x m)"
  by (rule neutral_op_weaken [OF op_context_beside [where J = "\<lambda>_. True"]]) (use assms in \<open>auto simp: stable_def\<close>)

lemma requireRSA_neutral: "neutral_op (key_opt_ok k) (requireRSA k op)"
  unfolding requireRSA_def by (intro neutral_op_bind neutral_op_if neutral_op_pure stable_key_opt query_keeps)

lemma reject_neutral: "neutral_op I reject" "stable I \<Longrightarrow> neutral_op I m \<Longrightarrow> neutral_op I (scrub out m)"
proof -
  show "neutral_op I reject" unfolding reject_def by (rule neutral_op_keeps) (auto intro: vcg)
  have "wp (Zero out) (\<lambda>_ w'. keeps w w') w" for w by (auto intro: vcg)
  then show "neutral_op I (scrub out m)" if "stable I" "neutral_op I m"
    unfolding scrub_def by (intro neutral_op_bind that)
qed

lemma in_args_uses: "uses_of [h] (in_args b) = live_handles [h]"
  by (simp add: in_args_def uses_of_def)

text \<open>The calls on a context of its own, under the assertion of the operation.\<close>

lemma with_key_ctx:
  "with_key x (HPkeyCtx, p) w \<Longrightarrow> uses_of [(HPkeyCtx, p)] (in_args b) \<subseteq> set_mset (owned w)"
  "with_key x (HPkeyCtx, p) w \<Longrightarrow> uses_of [(HPkeyCtx, p)] [] \<subseteq> set_mset (owned w)"
  by (simp_all add: with_key_def in_args_def)

lemma pctx_call_neutral:
  "\<Union> (arg_handles ` set as) = {} \<Longrightarrow> neutral_op (with_key x (HPkeyCtx, p)) (ctx_call (HPkeyCtx, p) f as op)"
  by (rule neutral_ctx_call) (auto simp: with_key_def)

lemma pctx_oaep_neutral: "neutral_op (with_key x (HPkeyCtx, p)) (applyOAEP p opts)"
  by (rule applyOAEP_neutral [OF stable_with_key]) (simp add: with_key_def)

lemmas asym_rules = neutral_op_must [OF stable_key_opt] neutral_op_must [OF stable_with_key] neutral_op_if
  pctx_oaep_neutral two_call_neutral [OF stable_with_key] with_key_ctx neutral_op_pure requireRSA_neutral op_context_neutral
  reject_neutral stable_with_key

lemma init_op_neutral: "neutral_op (with_key x (HPkeyCtx, p)) (init_op p f op)"
  unfolding init_op_def by (rule pctx_call_neutral) simp

lemma Encrypt_neutral: "neutral_op (key_opt_ok k) (Encrypt k pt opts)"
  unfolding Encrypt_def by (rule with_open_neutral) (hypsubst, (rule asym_rules init_op_neutral | assumption)+)

lemma Decrypt_neutral: "neutral_op (key_opt_ok k) (Decrypt k ct opts)"
  unfolding Decrypt_def by (rule with_open_neutral) (hypsubst, (rule asym_rules init_op_neutral | assumption)+)

lemma rsaRawCrypt_neutral: "neutral_op (key_opt_ok k) (rsaRawCrypt k b enc)"
proof -
  have clear: "neutral_op (with_key x h) (do { clearErrors; if enc then failE op else fail ErrVerification })" for x h op
    by (intro neutral_op_bind neutral_op_if neutral_op_pure stable_with_key clear_keeps)
  show ?thesis
    unfolding rsaRawCrypt_def Let_def
    by (rule with_open_neutral) (hypsubst, (rule asym_rules init_op_neutral clear pctx_call_neutral | assumption | simp)+)
qed

lemma MaxOAEP_neutral: "neutral_op (key_opt_ok k) (MaxOAEPPlaintext k opts)"
proof -
  have max: "neutral_op (key_opt_ok (Some x)) (must (NewHash (Some (key_context x)) hash) (\<lambda>h.
      deferring (do { Hash_Close (Some h); ret () }) (do {
        s \<leftarrow> Key_Size (Some x);
        let n = s - 2 * Hash_Size (Some h) - 2;
        if n < 0 then do { t \<leftarrow> Key_Type (Some x); fail (Errorf m [FStr t, FStr hash]) } else ok n })))" for x hash m
    unfolding neutral_op_def
  proof (intro allI impI)
    fix w assume x: "key_opt_ok (Some x) w"
    have ask: "wp (Key_Size (Some x)) (\<lambda>_ w'. gains D w w') w1" "wp (Key_Type (Some x)) (\<lambda>_ w'. gains D w w') w1"
      if "gains D w w1" for D w1
      using stableD [OF stable_key_opt x that] that
      by (auto simp: key_queries gains_def keeps_def intro!: vcg)
    have close: "wp (Hash_Close (Some h)) (\<lambda>_ w'. keeps w w') w1" if "gains (hash_refs h) w w1" "h_ctx h \<noteq> NULL" for h w1
    proof -
      have "owned w1 = owned w + hash_refs h" "now_owns (owned w1) w w1"
        using that(1) by (auto simp: gains_def now_owns_def)
      then show ?thesis
        by (intro wp_mono [OF hash.close_open [of h w1 "owned w"]])
          (use that(2) in \<open>auto simp: hash_closed_def keeps_now_owns dest: now_owns_trans\<close>)
    qed
    show "wp (must (NewHash (Some (key_context x)) hash) (\<lambda>h.
      deferring (do { Hash_Close (Some h); ret () }) (do {
        s \<leftarrow> Key_Size (Some x);
        let n = s - 2 * Hash_Size (Some h) - 2;
        if n < 0 then do { t \<leftarrow> Key_Type (Some x); fail (Errorf m [FStr t, FStr hash]) } else ok n }))) (\<lambda>r w'. neutral r w w') w"
      using x by (auto simp: Let_def key_ok_def intro!: wp_mono [OF NewHash_spec] wp_mono [OF ask(1)] wp_mono [OF ask(2)]
          wp_mono [OF close] neutral_keeps split: sum.splits)
  qed
  show ?thesis
    unfolding MaxOAEPPlaintext_def Let_def [of "fst (oaep_resolve opts)"]
    by (rule with_open_neutral) (hypsubst, (rule asym_rules max | assumption)+)
qed

lemma kem_init_neutral: "neutral_op (with_key x (HPkeyCtx, p)) (kem_init p x f)"
proof -
  have ty: "with_key x (HPkeyCtx, p) w \<Longrightarrow> wp (Key_Type (Some x)) (\<lambda>_ w'. keeps w w') w" for w
    by (rule query_keeps) (simp add: with_key_def)
  have op: "neutral_op (with_key x (HPkeyCtx, p)) (setKEMOp p t)" for t
    unfolding setKEMOp_def
    by (intro neutral_op_if neutral_op_pure neutral_op_cstr stable_with_key neutral_ctx_call) (auto simp: with_key_def)
  show ?thesis
    unfolding kem_init_def
    by (intro neutral_op_bind neutral_op_if neutral_op_pure stable_with_key do_keeps ty op) (auto simp: with_key_def)
qed

lemma Encapsulate_neutral: "neutral_op (key_opt_ok k) (Encapsulate k)"
proof -
  have body: "neutral_op (with_key x (HPkeyCtx, p)) (encapsulate_in p)" for x p
    unfolding encapsulate_in_def
    by (rule neutral_op_bind neutral_op_if neutral_op_pure neutral_op_guard stable_with_key do_keeps
      | (simp add: with_key_def)[1])+
  show ?thesis
    unfolding Encapsulate_def by (rule with_open_neutral) (hypsubst, (rule asym_rules kem_init_neutral body | assumption)+)
qed

lemma Decapsulate_neutral: "neutral_op (key_opt_ok k) (Decapsulate k ct)"
  unfolding Decapsulate_def by (rule with_open_neutral) (hypsubst, (rule asym_rules kem_init_neutral | assumption)+)

lemma agree_in_neutral:
  "neutral_op (\<lambda>w. with_key x (HPkeyCtx, p) w \<and> key_opt_ok (Some y) w) (agree_in p y opts)"
  unfolding agree_in_def init_op_def
  by (rule neutral_op_must neutral_op_if neutral_op_bind neutral_op_pure neutral_ctx_call two_call_neutral do_keeps
      reject_neutral(2) stable_conj stable_with_key stable_key_opt
    | (auto simp: with_key_def key_ok_def live_handles_def)[1])+

lemma Derive_neutral: "neutral_op (\<lambda>w. key_opt_ok k w \<and> key_opt_ok peer w) (Derive k peer opts)"
proof (cases "\<exists>x y. k = Some x \<and> peer = Some y")
  case True
  then obtain x y where k: "k = Some x" "peer = Some y" by blast
  let ?I = "\<lambda>w. key_opt_ok (Some x) w \<and> key_opt_ok (Some y) w"
  have ask: "wp (Key_Type (Some x)) (\<lambda>_ w'. keeps w w') w" "wp (Key_Type (Some y)) (\<lambda>_ w'. keeps w w') w"
    "wp (do { t \<leftarrow> Key_Type (Some x); ret (t \<noteq> ''EC'') }) (\<lambda>_ w'. keeps w w') w" if "?I w" for w
    using that query_keeps(1) by auto
  show ?thesis
    unfolding Derive_def derive_checked_def k with_open_def option.case
    by (rule neutral_op_if neutral_op_bind neutral_op_pure stable_conj stable_key_opt ask agree_in_neutral op_context_beside
        | assumption | (simp add: ask)[1])+
qed (auto simp: Derive_def with_open_def split: option.splits)

section \<open>The life of a key\<close>

text \<open>One use of a key; the results are dropped, errors included.\<close>

datatype key_use =
    USign "byte list" "SignOptions option"
  | UVerify "byte list" "byte list" "SignOptions option"
  | USignDigest "byte list" "SignOptions option"
  | UVerifyDigest "byte list" "byte list" "SignOptions option"
  | UEncrypt "byte list" "OAEPOptions option"
  | UDecrypt "byte list" "OAEPOptions option"
  | UPKCS1v15 "byte list" bool
  | UMaxOAEP "OAEPOptions option"
  | UEncapsulate
  | UDecapsulate "byte list"
  | UDerive "DeriveOptions option"
  | UMarshal int string string

definition forget :: "'a go \<Rightarrow> unit go" where
  "forget m = onerr m (\<lambda>_. ok ()) (\<lambda>_. ok ())"

fun key_op :: "key \<Rightarrow> key_use \<Rightarrow> unit go" where
  "key_op k (USign m o1) = forget (Key_Sign (Some k) m o1)"
| "key_op k (UVerify m s o1) = forget (Key_Verify (Some k) m s o1)"
| "key_op k (USignDigest d o1) = forget (SignDigest (Some k) d o1)"
| "key_op k (UVerifyDigest d s o1) = forget (VerifyDigest (Some k) d s o1)"
| "key_op k (UEncrypt p o2) = forget (Encrypt (Some k) p o2)"
| "key_op k (UDecrypt c o2) = forget (Decrypt (Some k) c o2)"
| "key_op k (UPKCS1v15 b enc) = forget (rsaRawCrypt (Some k) b enc)"
| "key_op k (UMaxOAEP o2) = forget (MaxOAEPPlaintext (Some k) o2)"
| "key_op k UEncapsulate = forget (Encapsulate (Some k))"
| "key_op k (UDecapsulate c) = forget (Decapsulate (Some k) c)"
| "key_op k (UDerive o3) = forget (Derive (Some k) (Some k) o3)"
| "key_op k (UMarshal sel ty st) = forget (encode (Some k) sel ty st)"

fun key_uses :: "key_use list \<Rightarrow> key \<Rightarrow> unit go" where
  "key_uses [] k = ok ()"
| "key_uses (u # us) k = must (key_op k u) (\<lambda>_. key_uses us k)"

lemma forget_neutral: "stable I \<Longrightarrow> neutral_op I m \<Longrightarrow> neutral_op I (forget m)"
  unfolding forget_def by (intro neutral_op_onerr neutral_op_pure)

lemma key_op_neutral: "neutral_op (key_opt_ok (Some k)) (key_op k u)"
proof -
  have self: "neutral_op (key_opt_ok (Some k)) (Derive (Some k) (Some k) o3)" for o3
    by (rule neutral_op_weaken [OF Derive_neutral]) simp
  have enc: "neutral_op (key_opt_ok (Some k)) (encode (Some k) s t st)" for s t st
    by (rule neutral_op_keeps, rule encode_keeps)
  show ?thesis
    by (cases u; simp only: key_op.simps; intro forget_neutral stable_key_opt Key_Sign_neutral Key_Verify_neutral SignDigest_neutral
        VerifyDigest_neutral Encrypt_neutral Decrypt_neutral rsaRawCrypt_neutral MaxOAEP_neutral Encapsulate_neutral
        Decapsulate_neutral self enc)
qed

lemma key_uses_neutral: "neutral_op (key_opt_ok (Some k)) (key_uses us k)"
  by (induction us) (auto intro: neutral_op_must stable_key_opt key_op_neutral simp del: key_opt_ok_simps)

text \<open>
  C8: a key generated, used to sign, verify, encrypt, decrypt, encapsulate, decapsulate, agree
  and export any number of times in any order, and closed twice, leaves the C references of the
  process as they were, whatever the library answers; no call uses or releases a reference that is
  not held. Only a panic, which ends the process, may leave something behind.
\<close>

theorem Key_lifecycle:
  assumes "ctx_live c w" "psteps_ok (concat opts)"
  shows "wp (session (GenerateKey (Some c) alg opts) (key_uses us) Key_Close) (balanced w) w"
proof (rule key.session_any [OF _ key_uses_neutral])
  have live: "key_opt_ok (Some k) w1" if "gains (key_refs k) w w1" "k_ctx k = Some c" for k w1
    using that assms(1) by (auto simp: key_ok_def key_context_def key_refs_def ctx_live_def gains_def)
  show "wp (GenerateKey (Some c) alg opts) (\<lambda>r w1. case r of Inl e \<Rightarrow> is_panic e \<or> keeps w w1
      | Inr k \<Rightarrow> gains (key_refs k) w w1 \<and> (k_pkey k = NULL \<longrightarrow> key_refs k = {#}) \<and> key_opt_ok (Some k) w1) w"
    by (rule wp_mono [OF GenerateKey_spec])
      (use assms in \<open>auto simp: key_refs_def simp del: key_opt_ok_simps intro: live split: sum.splits\<close>)
qed

lemma Key_lifecycle_witness:
  "wp (session (GenerateKey (Some Default) ''RSA'' [WithRSABits 2048])
      (key_uses [USign [1] None, UDecrypt [2] None, UEncapsulate, UDerive None]) Key_Close)
    (balanced (world_of lib_yes [])) (world_of lib_yes [])"
  by (rule Key_lifecycle) (simp_all add: ctx_live_def options_ok)


section \<open>A decryption tells nothing\<close>

fun decrypts :: "ccall \<Rightarrow> bool" where
  "decrypts (Do f hs as) \<longleftrightarrow> f = ''EVP_PKEY_decrypt''"
| "decrypts _ = False"

interpretation before: call_policy "\<lambda>c. \<not> decrypts c"
proof
  fix c
  show "err_call c \<Longrightarrow> \<not> decrypts c" by (cases c) auto
  show "mem_call c \<Longrightarrow> \<not> decrypts c" by (cases c) auto
qed

text \<open>\<open>uniform\<close>: no error but the verdict. \<open>opaque\<close>: so once the private key was used on the ciphertext.\<close>

definition no_detail :: "err + 'a \<Rightarrow> bool" where
  "no_detail r \<longleftrightarrow> (\<forall>e. r = Inl e \<longrightarrow> e = ErrVerification \<or> is_panic e)"

definition uniform :: "'a go \<Rightarrow> bool" where
  "uniform m \<longleftrightarrow> (\<forall>w. wp m (\<lambda>r _. no_detail r) w)"

definition opaque :: "'a go \<Rightarrow> bool" where
  "opaque m \<longleftrightarrow> (\<forall>w. wp m (\<lambda>r w'. only (\<lambda>c. \<not> decrypts c) w w' \<or> no_detail r) w)"

lemma no_detail_simps [simp]: "no_detail (Inr x)" "no_detail (Inl ErrVerification)" "is_panic e \<Longrightarrow> no_detail (Inl e)"
  by (simp_all add: no_detail_def)

lemma opaque_uniform: "uniform m \<Longrightarrow> opaque m"
  unfolding uniform_def opaque_def by (blast intro: wp_mono)

lemma opaque_passes: "passes (\<lambda>c. \<not> decrypts c) m \<Longrightarrow> opaque m"
  unfolding passes_def opaque_def by (blast intro: wp_mono)

lemma opaque_bind:
  assumes "passes (\<lambda>c. \<not> decrypts c) m" "\<And>x. opaque (f x)"
  shows "opaque (m \<bind> f)"
proof -
  have f: "wp (f x) (\<lambda>r w'. only (\<lambda>c. \<not> decrypts c) w w' \<or> no_detail r) w1"
    if "only (\<lambda>c. \<not> decrypts c) w w1" for x w w1
    using assms(2) [of x] unfolding opaque_def
    by (auto elim!: allE [of _ w1] wp_mono intro: only_trans [OF that])
  show ?thesis
    unfolding opaque_def wp_bind by (intro allI wp_mono [OF passesD [OF assms(1)]] f)
qed

lemma opaque_must:
  assumes "passes (\<lambda>c. \<not> decrypts c) m" "\<And>x. opaque (f x)"
  shows "opaque (must m f)"
  unfolding must_def
  by (rule opaque_bind [OF assms(1)]) (auto simp: assms(2) opaque_passes passes_pure split: sum.split)

lemma opaque_if: "(b \<Longrightarrow> opaque m) \<Longrightarrow> (\<not> b \<Longrightarrow> opaque n) \<Longrightarrow> opaque (if b then m else n)"
  by simp

lemma opaque_deferring:
  assumes "opaque m" "passes (\<lambda>c. \<not> decrypts c) d"
  shows "opaque (deferring d m)"
proof -
  have d: "wp d (\<lambda>_ w'. only (\<lambda>c. \<not> decrypts c) w w' \<or> no_detail r) w1"
    if "only (\<lambda>c. \<not> decrypts c) w w1 \<or> no_detail r" for r :: "err + 'a" and w w1
    by (rule wp_mono [OF passesD [OF assms(2)]]) (use that in \<open>auto intro: only_trans\<close>)
  show ?thesis
    unfolding opaque_def wp_deferring
  proof
    fix w show "wp m (\<lambda>r. wp d (\<lambda>_ w'. only (\<lambda>c. \<not> decrypts c) w w' \<or> no_detail r)) w"
      by (rule wp_mono [OF assms(1) [unfolded opaque_def, rule_format]]) (rule d)
  qed
qed

lemma opaque_op_context:
  assumes "\<And>p. opaque (m p)"
  shows "opaque (op_context x m)"
proof -
  have ptr: "passes P (Context_ptr c)" for P c by (simp add: passes_def Context_ptr_def)
  show ?thesis
    unfolding op_context_def with_pctx_def
    by (rule opaque_bind opaque_if opaque_deferring ptr assms opaque_passes before.passes_rules | simp | assumption)+
qed

lemma two_call_uniform:
  "uniform bad \<Longrightarrow> uniform zero \<Longrightarrow> (\<And>b. uniform (bad2 b)) \<Longrightarrow> (\<And>b. uniform (k b)) \<Longrightarrow>
   uniform (two_call f h as bad zero bad2 k)"
  unfolding two_call_def uniform_def
  by (auto simp: guard_defs index_panic_def slice_panic_def intro!: wp_call)

lemma reject_uniform: "uniform reject" "uniform (scrub out reject)" "uniform (ok x)"
  "uniform (scrub out (do { clearErrors; fail ErrVerification }))" "uniform (do { clearErrors; fail ErrVerification })"
  by (auto simp: uniform_def reject_def scrub_def intro!: vcg)

lemma setup_passes:
  "passes (\<lambda>c. \<not> decrypts c) (requireRSA k op)"
  "f \<noteq> ''EVP_PKEY_decrypt'' \<Longrightarrow> passes (\<lambda>c. \<not> decrypts c) (init_op p f op)"
  "f \<noteq> ''EVP_PKEY_decrypt'' \<Longrightarrow> passes (\<lambda>c. \<not> decrypts c) (ctx_call h f as op)"
  "passes (\<lambda>c. \<not> decrypts c) (applyOAEP p opts)"
  unfolding requireRSA_def init_op_def ctx_call_def applyOAEP_def set_label_def Key_Type_def key_query_def
  by (rule before.passes_rules | simp | assumption)+

lemma Decrypt_opaque: "opaque (Decrypt k ct opts)" "opaque (DecryptPKCS1v15 k ct)"
  unfolding Decrypt_def DecryptPKCS1v15_def rsaRawCrypt_def with_open_def Let_def
  by (cases k; simp; intro impI conjI opaque_must opaque_op_context setup_passes opaque_uniform two_call_uniform
      reject_uniform opaque_passes passes_pure; simp)+

text \<open>
  C31: once the library was asked to decrypt, an RSA decryption, OAEP or PKCS#1 v1.5, returns no error
  but \<open>ErrVerification\<close>, whatever the library answered: the padding, the label and the key
  cannot be told apart by the error.
\<close>

theorem Decrypt_no_oracle:
  assumes "run_state (Decrypt k ct opts) w = (Inl e, w') \<or> run_state (DecryptPKCS1v15 k ct) w = (Inl e, w')"
    and "hist w' = es @ hist w" "list_ex (decrypts \<circ> fst) es"
  shows "e = ErrVerification \<or> is_panic e"
proof -
  have "\<not> only (\<lambda>c. \<not> decrypts c) w w'"
    using assms(2,3) by (auto simp: only_def list_all_iff list_ex_iff)
  moreover have "only (\<lambda>c. \<not> decrypts c) w w' \<or> no_detail (Inl e :: err + byte list)"
    using assms(1) Decrypt_opaque [of k ct] unfolding opaque_def by (auto dest!: spec [of _ w] wp_runD)
  ultimately show ?thesis by (simp add: no_detail_def)
qed

text \<open>A library with an RSA key that rejects every ciphertext.\<close>

definition lib_rejects :: "event list \<Rightarrow> ccall \<Rightarrow> cret" where
  "lib_rejects h c = (case c of
     Do f hs as \<Rightarrow> if f = ''EVP_PKEY_get0_type_name'' then (yes h)\<lparr>rstr := ''RSA''\<rparr>
       else if f = ''EVP_PKEY_decrypt'' then no else yes h
   | _ \<Rightarrow> yes h)"

lemma Decrypt_no_oracle_witness: "ErrVerification = ErrVerification \<or> is_panic ErrVerification"
proof (rule Decrypt_no_oracle)
  let ?w = "world_of lib_rejects []"
  have "fst (run_state (Decrypt (Some demo_key) [1] None) ?w) = Inl ErrVerification" by code_simp
  from run_fst [OF this] show "run_state (Decrypt (Some demo_key) [1] None) ?w
      = (Inl ErrVerification, snd (run_state (Decrypt (Some demo_key) [1] None) ?w))
    \<or> run_state (DecryptPKCS1v15 (Some demo_key) [1]) ?w = (Inl ErrVerification, snd (run_state (Decrypt (Some demo_key) [1] None) ?w))"
    by blast
  show "hist (snd (run_state (Decrypt (Some demo_key) [1] None) ?w))
      = hist (snd (run_state (Decrypt (Some demo_key) [1] None) ?w)) @ hist ?w"
    by (simp add: world_of_def)
  show "list_ex (decrypts \<circ> fst) (hist (snd (run_state (Decrypt (Some demo_key) [1] None) ?w)))" by code_simp
qed

section \<open>Keys of one type only\<close>

fun sets_peer :: "ccall \<Rightarrow> bool" where
  "sets_peer (Do f hs as) \<longleftrightarrow> f = ''EVP_PKEY_derive_set_peer''"
| "sets_peer _ = False"

definition type_call :: "key \<Rightarrow> ccall" where
  "type_call k = Do ''EVP_PKEY_get0_type_name'' [(HPkey, k_pkey k)] []"

text \<open>The library has given both keys the same type name.\<close>

definition same_type :: "key \<Rightarrow> key \<Rightarrow> event list \<Rightarrow> bool" where
  "same_type k peer es \<longleftrightarrow> (\<exists>r s. (type_call k, r) \<in> set es \<and> (type_call peer, s) \<in> set es \<and> rstr r = rstr s)"

fun peers_matched :: "key \<Rightarrow> key \<Rightarrow> event list \<Rightarrow> bool" where
  "peers_matched k peer [] = True"
| "peers_matched k peer (e # es) \<longleftrightarrow> (sets_peer (fst e) \<longrightarrow> same_type k peer es) \<and> peers_matched k peer es"

lemma peers_matched_append:
  "same_type k peer es \<Longrightarrow> peers_matched k peer es \<Longrightarrow> peers_matched k peer (fs @ es)"
  by (induction fs) (auto simp: same_type_def)


text \<open>
  C32: \<open>Derive\<close> never hands the library a peer key, at which OpenSSL would abort the process, unless
  the library has before given both keys the same type name.
\<close>

theorem Derive_same_type:
  "\<exists>es. hist (snd (run_state (Derive (Some k) (Some peer) opts) w)) = es @ hist w \<and> peers_matched k peer es"
proof -
  let ?w2 = "\<lambda>r s. push (type_call peer) s (push (type_call k) r w)"
  have adds: "adds (derive_checked k peer opts)"
    unfolding derive_checked_def op_context_def with_pctx_def agree_in_def init_op_def two_call_def scrub_def Zero_def
    by (rule adds | assumption)+
  have rest: "wp (derive_checked k peer opts) (\<lambda>_ w'. \<exists>es. hist w' = es @ hist w \<and> peers_matched k peer es) (?w2 r s)"
    if eq: "rstr r = rstr s" for r s
  proof -
    have "peers_matched k peer (fs @ [(type_call peer, s), (type_call k, r)])" for fs
      by (rule peers_matched_append) (use eq in \<open>auto simp: same_type_def type_call_def\<close>)
    then show ?thesis
      by (intro wp_mono [OF addsD [OF adds]]) (auto simp: ext_def)
  qed
  have "wp (Derive (Some k) (Some peer) opts) (\<lambda>_ w'. \<exists>es. hist w' = es @ hist w \<and> peers_matched k peer es) w"
    unfolding Derive_def with_open_def
    by (auto simp: Key_Type_def key_query_def type_call_def [symmetric] intro!: wp_call rest ext_intros)
      (simp_all add: type_call_def)
  then show ?thesis by (simp add: wp_def split: prod.splits)
qed

end
