(* ===== verification/Capability.thy ===== *)
theory Capability
  imports Signer Asym Aead Enumerate
begin

text \<open>
  capability.go: what a caller wants to do, described before anything depends on it. A capability
  is checked structurally or proved by performing it; the answers that cost a key generation are
  remembered in the context (\<open>c_probes\<close>), the table of built-in curves in the package
  (\<open>curve_nids\<close>).
\<close>

section \<open>Shared pieces\<close>

text \<open>\<open>x, err := mk(); defer x.Close(); body\<close>.\<close>

definition with_temp :: "'r go \<Rightarrow> ('r option \<Rightarrow> ('r option) go) \<Rightarrow> ('r \<Rightarrow> 'a go) \<Rightarrow> 'a go" where
  "with_temp mk close body = must mk (\<lambda>x. deferring (do { close (Some x); ret () }) (body x))"

text \<open>\<open>x, err := mk(); return x.Close()\<close>.\<close>

definition made_only :: "'r go \<Rightarrow> ('r option \<Rightarrow> ('r option) go) \<Rightarrow> unit go" where
  "made_only mk close = must mk (\<lambda>x. must (close (Some x)) (\<lambda>_. ok ()))"

text \<open>\<open>%d\<close>.\<close>

fun decimal_nat :: "nat \<Rightarrow> string" where
  "decimal_nat n = (if n < 10 then [char_of (48 + n)] else decimal_nat (n div 10) @ [char_of (48 + n mod 10)])"

declare decimal_nat.simps [simp del]

definition decimal :: "int \<Rightarrow> string" where
  "decimal i = (if i < 0 then CHR ''-'' # decimal_nat (nat (- i)) else decimal_nat (nat i))"

section \<open>Curves\<close>

definition get_curves :: "(world, int list option) state" where
  "get_curves = State (\<lambda>w. (curve_nids w, w))"

definition put_curves :: "int list \<Rightarrow> (world, unit) state" where
  "put_curves ns = State (\<lambda>w. ((), w\<lparr>curve_nids := Some ns\<rparr>))"

lemma wp_curves [simp]:
  "wp get_curves P w = P (curve_nids w) w"
  "wp (put_curves ns) Q w = Q () (w\<lparr>curve_nids := Some ns\<rparr>)"
  by (simp_all add: wp_def get_curves_def put_curves_def)

lemma run_curves [exec_simps]:
  "run_state get_curves w = (curve_nids w, w)"
  "run_state (put_curves ns) w = ((), w\<lparr>curve_nids := Some ns\<rparr>)"
  by (simp_all add: get_curves_def put_curves_def)

text \<open>
  The body of \<open>curveOnce.Do\<close>: the buffer has room for as many curves as the library announced.
  A panic harmless what was read.
\<close>

definition read_curves :: "unit go" where
  "read_curves = do {
     r \<leftarrow> call (Do ''EC_get_builtin_curves'' [] [ANull, AInt 0]);
     if rlen r = 0 then do { put_curves []; ok () }
     else if rlen r < 0 then do { put_curves []; fail (Panic ''makeslice: len out of range'') }
     else do {
       g \<leftarrow> call (Do ''EC_get_builtin_curves'' [] [AOut (rlen r), AInt (rlen r)]);
       put_curves (take (nat (min (rlen g) (rlen r))) (rints g));
       if rlen g > rlen r then fail (Panic ''index out of range'') else ok ()
     }
   }"

definition curveSupported :: "string \<Rightarrow> bool go" where
  "curveSupported name = do {
     known \<leftarrow> get_curves;
     must (if known = None then read_curves else ok ()) (\<lambda>_. must (curveNID name) (\<lambda>nid. do {
       table \<leftarrow> get_curves;
       ok (nid \<noteq> 0 \<and> nid \<in> set (case table of None \<Rightarrow> [] | Some ns \<Rightarrow> ns))
     }))
   }"

section \<open>Probes\<close>

definition remember :: "cref \<Rightarrow> string \<Rightarrow> err option \<Rightarrow> (world, unit) state" where
  "remember a key v = do {
     call (Mu Lock MuContext);
     x \<leftarrow> get_ctx a;
     put_ctx a (x\<lparr>c_probes := (c_probes x)(key \<mapsto> v)\<rparr>);
     call (Mu Unlock MuContext);
     ret ()
   }"

definition recall :: "cref \<Rightarrow> string \<Rightarrow> (world, err option option) state" where
  "recall a key = do {
     call (Mu Lock MuContext);
     x \<leftarrow> get_ctx a;
     call (Mu Unlock MuContext);
     ret (c_probes x key)
   }"

definition probe :: "cref \<Rightarrow> string \<Rightarrow> unit go \<Rightarrow> unit go" where
  "probe a key run = do {
     seen \<leftarrow> recall a key;
     case seen of Some None \<Rightarrow> ok () | Some (Some e) \<Rightarrow> fail e
     | None \<Rightarrow> onerr run
         (\<lambda>e. do { clearErrors; remember a key (Some e); fail e })
         (\<lambda>_. do { remember a key None; ok () })
   }"

definition curveUsable :: "cref \<Rightarrow> string \<Rightarrow> unit go" where
  "curveUsable a name = probe a (''curve:'' @ name) (made_only (GenerateKey (Some a) ''EC'' [WithGroup name]) Key_Close)"

section \<open>Signatures\<close>

record SignatureCapability =
  sc_Key :: string
  sc_Curve :: string
  sc_Digest :: string
  sc_Format :: int
  sc_Prehash :: bool
  sc_Deterministic :: bool
  sc_Context :: bool

definition signature_describe :: "SignatureCapability \<Rightarrow> string" where
  "signature_describe s = strings_Join ([sc_Key s]
     @ (if sc_Curve s \<noteq> [] then [sc_Curve s] else [])
     @ (if sc_Digest s \<noteq> [] then [sc_Digest s] else [])
     @ (if sc_Format s \<noteq> SignatureDER then [SignatureFormat_String (sc_Format s)] else [])) ''/''"

definition signature_options :: "SignatureCapability \<Rightarrow> SignOptions" where
  "signature_options s = no_options\<lparr>so_Digest := sc_Digest s, so_Format := sc_Format s, so_Prehash := sc_Prehash s,
     so_Deterministic := sc_Deterministic s,
     so_Context := if sc_Context s then Some (bytes_of_string ''capability-probe'') else None\<rparr>"

definition hashesInternally :: "string \<Rightarrow> bool" where
  "hashesInternally k = (let t = ToUpper k in
     prefix ''ED25519'' t \<or> prefix ''ED448'' t \<or> prefix ''ML-DSA'' t \<or> prefix ''SLH-DSA'' t)"

text \<open>The rules that need no library: a curve goes with EC keys and nothing else.\<close>

definition curve_shape :: "SignatureCapability \<Rightarrow> unit go" where
  "curve_shape s =
     (if sc_Curve s \<noteq> [] \<and> sc_Key s \<noteq> ''EC''
      then fail (Errorf ''ossl: a curve is meaningful only for EC keys, not %s'' [FStr (sc_Key s)])
      else if sc_Key s = ''EC'' \<and> sc_Curve s = []
      then fail (Errorf ''ossl: an EC signature capability needs a curve'' [])
      else ok ())"

definition curve_check :: "cref \<Rightarrow> string \<Rightarrow> unit go" where
  "curve_check a curve = (if curve = [] then ok () else
     must (curveSupported curve) (\<lambda>yes.
       if \<not> yes then fail (Errorf ''ossl: curve %q is not built into this libcrypto'' [FStr curve])
       else onerr (curveUsable a curve)
         (\<lambda>e. fail (Wrapf ''ossl: curve %q is not usable in this context: %w'' e [FStr curve]))
         (\<lambda>_. ok ())))"

definition digest_check :: "cref \<Rightarrow> SignatureCapability \<Rightarrow> unit go" where
  "digest_check a s = (let internal = hashesInternally (sc_Key s) in
     if internal \<and> sc_Digest s \<noteq> []
     then fail (Errorf ''ossl: %s hashes the message itself and rejects an explicit digest; leave Digest empty'' [FStr (sc_Key s)])
     else if \<not> internal \<and> sc_Digest s = [] then ok ()
     else if sc_Digest s \<noteq> [] then must (DigestAvailable (Some a) (sc_Digest s) []) (\<lambda>yes.
       if \<not> yes then fail (Errorf ''ossl: digest %q is not available in this context'' [FStr (sc_Digest s)])
       else must (digestIsXOF a (sc_Digest s)) (\<lambda>xof.
         if xof then fail (Errorf ''ossl: %q is an extendable-output function and cannot be a signature digest'' [FStr (sc_Digest s)])
         else ok ()))
     else ok ())"

definition signature_check :: "SignatureCapability \<Rightarrow> cref \<Rightarrow> unit go" where
  "signature_check s a =
     (if sc_Key s = [] then fail (Errorf ''ossl: SignatureCapability needs a key algorithm'' [])
      else must (KeyAlgorithmAvailable (Some a) (sc_Key s)) (\<lambda>yes.
        if \<not> yes then fail (Errorf ''ossl: key algorithm %q is not available in this context'' [FStr (sc_Key s)])
        else must (curve_shape s) (\<lambda>_. must (curve_check a (sc_Curve s)) (\<lambda>_. must (digest_check a s) (\<lambda>_.
          lift (checkSignOptions (sc_Key s) (signature_options s)))))))"

definition probe_msg :: "byte list" where "probe_msg = bytes_of_string ''ossl capability probe''"

definition signature_trial :: "SignatureCapability \<Rightarrow> cref \<Rightarrow> unit go" where
  "signature_trial s a = with_temp
     (GenerateKey (Some a) (sc_Key s) (if sc_Curve s \<noteq> [] then [WithGroup (sc_Curve s)] else [])) Key_Close
     (\<lambda>k. must (Key_Sign (Some k) probe_msg (Some (signature_options s)))
        (\<lambda>sig. Key_Verify (Some k) probe_msg sig (Some (signature_options s))))"

section \<open>Authenticated ciphers\<close>

record AEADCapability =
  ac_Cipher :: string
  ac_KeyBytes :: int
  ac_IVBytes :: int
  ac_TagBytes :: int

definition aead_describe :: "AEADCapability \<Rightarrow> string" where
  "aead_describe x = ac_Cipher x @ (if ac_IVBytes x > 0 \<or> ac_TagBytes x > 0
     then '' (iv='' @ decimal (ac_IVBytes x) @ '' tag='' @ decimal (ac_TagBytes x) @ '')'' else [])"

text \<open>The key length asked for, the cipher's own, or 32.\<close>

definition key_len :: "cref \<Rightarrow> int \<Rightarrow> string \<Rightarrow> int go" where
  "key_len a n name = (if n > 0 then ok n else onerr (cipherKeyLength a name) (\<lambda>_. ok 32) ok)"

definition aead_keyLen :: "AEADCapability \<Rightarrow> cref \<Rightarrow> int go" where
  "aead_keyLen x a = key_len a (ac_KeyBytes x) (ac_Cipher x)"

definition aead_new :: "AEADCapability \<Rightarrow> cref \<Rightarrow> byte list \<Rightarrow> aead go" where
  "aead_new x a key = NewAEAD (Some a) (ac_Cipher x) key
     ((if ac_IVBytes x > 0 then [WithIVSize (ac_IVBytes x)] else [])
      @ (if ac_TagBytes x > 0 then [WithTagSize (ac_TagBytes x)] else []))"

definition aead_check :: "AEADCapability \<Rightarrow> cref \<Rightarrow> unit go" where
  "aead_check x a =
     (if ac_Cipher x = [] then fail (Errorf ''ossl: AEADCapability needs a cipher'' [])
      else must (CipherAvailable (Some a) (ac_Cipher x) []) (\<lambda>yes.
        if \<not> yes then fail (Errorf ''ossl: cipher %q is not available in this context'' [FStr (ac_Cipher x)])
        else must (aead_keyLen x a) (\<lambda>n. make_bytes n (\<lambda>key. made_only (aead_new x a key) AEAD_Close))))"

text \<open>The round trip of a probe; anything but the probe coming back is an error.\<close>

definition same_back :: "byte list \<Rightarrow> byte list \<Rightarrow> unit go" where
  "same_back pt got = (if got = pt then ok () else fail (Errorf ''round trip returned different plaintext'' []))"

definition aead_trial :: "AEADCapability \<Rightarrow> cref \<Rightarrow> unit go" where
  "aead_trial x a = must (aead_keyLen x a) (\<lambda>n. make_bytes n (\<lambda>key. with_temp (aead_new x a key) AEAD_Close (\<lambda>c.
     make_bytes (NonceSize (Some c)) (\<lambda>nonce.
       must (SealErr (Some c) [] nonce probe_msg (bytes_of_string ''probe-aad'')) (\<lambda>ct.
       must (AEAD_Open (Some c) [] nonce ct (bytes_of_string ''probe-aad'')) (same_back probe_msg))))))"

section \<open>Ciphers\<close>

record CipherCapability =
  xc_Cipher :: string
  xc_KeyBytes :: int
  xc_IVBytes :: int
  xc_Padding :: int

definition cipher_describe :: "CipherCapability \<Rightarrow> string" where
  "cipher_describe x = xc_Cipher x @ (if xc_IVBytes x > 0 then '' (iv='' @ decimal (xc_IVBytes x) @ '')'' else [])"

definition cipher_keyLen :: "CipherCapability \<Rightarrow> cref \<Rightarrow> int go" where
  "cipher_keyLen x a = key_len a (xc_KeyBytes x) (xc_Cipher x)"

definition cipher_new :: "CipherCapability \<Rightarrow> cref \<Rightarrow> byte list \<Rightarrow> cipher go" where
  "cipher_new x a key = NewCipher (Some a) (xc_Cipher x) key
     ([WithPadding (xc_Padding x)] @ (if xc_IVBytes x > 0 then [WithCipherIVSize (xc_IVBytes x)] else []))"

definition cipher_check :: "CipherCapability \<Rightarrow> cref \<Rightarrow> unit go" where
  "cipher_check x a =
     (if xc_Cipher x = [] then fail (Errorf ''ossl: CipherCapability needs a cipher'' [])
      else must (CipherAvailable (Some a) (xc_Cipher x) []) (\<lambda>yes.
        if \<not> yes then fail (Errorf ''ossl: cipher %q is not available in this context'' [FStr (xc_Cipher x)])
        else must (cipher_keyLen x a) (\<lambda>n. make_bytes n (\<lambda>key. made_only (cipher_new x a key) Cipher_Close))))"

text \<open>\<open>bytes.Repeat\<close> panics on a negative count.\<close>

definition bytes_Repeat :: "byte \<Rightarrow> int \<Rightarrow> (byte list \<Rightarrow> 'a go) \<Rightarrow> 'a go" where
  "bytes_Repeat b n k = (if n < 0 then fail (Panic ''bytes: negative Repeat count'') else k (replicate (nat n) b))"

definition cipher_trial :: "CipherCapability \<Rightarrow> cref \<Rightarrow> unit go" where
  "cipher_trial x a = must (cipher_keyLen x a) (\<lambda>n. make_bytes n (\<lambda>key. with_temp (cipher_new x a key) Cipher_Close (\<lambda>c.
     make_bytes (IVSize (Some c)) (\<lambda>iv. bytes_Repeat 0x2a (BlockSize (Some c)) (\<lambda>pt.
       must (Cipher_Encrypt (Some c) [] iv pt) (\<lambda>ct.
       must (Cipher_Decrypt (Some c) [] iv ct) (same_back pt)))))))"

section \<open>The interface\<close>

datatype Capability =
    CapSignature SignatureCapability
  | CapAEAD AEADCapability
  | CapCipher CipherCapability

fun describe :: "Capability \<Rightarrow> string" where
  "describe (CapSignature s) = signature_describe s"
| "describe (CapAEAD x) = aead_describe x"
| "describe (CapCipher x) = cipher_describe x"

fun check :: "Capability \<Rightarrow> cref \<Rightarrow> unit go" where
  "check (CapSignature s) a = signature_check s a"
| "check (CapAEAD x) a = aead_check x a"
| "check (CapCipher x) a = cipher_check x a"

fun trial :: "Capability \<Rightarrow> cref \<Rightarrow> unit go" where
  "trial (CapSignature s) a = signature_trial s a"
| "trial (CapAEAD x) a = aead_trial x a"
| "trial (CapCipher x) a = cipher_trial x a"

definition Supports :: "cref option \<Rightarrow> Capability option \<Rightarrow> unit go" where
  "Supports c cap = (case c of None \<Rightarrow> fail ErrClosed | Some a \<Rightarrow>
     (case cap of None \<Rightarrow> fail (Errorf ''ossl: nil capability'' []) | Some x \<Rightarrow> check x a))"

definition VerifyCapability :: "cref option \<Rightarrow> Capability option \<Rightarrow> unit go" where
  "VerifyCapability c cap = (case c of None \<Rightarrow> fail ErrClosed | Some a \<Rightarrow>
     (case cap of None \<Rightarrow> fail (Errorf ''ossl: nil capability'' []) | Some x \<Rightarrow>
       must (check x a) (\<lambda>_. onerr (trial x a)
         (\<lambda>e. fail (Wrapf ''ossl: %s passed the structural check but failed in practice: %w'' e [FStr (describe x)]))
         (\<lambda>_. ok ()))))"

section \<open>Temporary resources\<close>

text \<open>A neutral use of a resource made for the occasion is neutral, and so is only making it.\<close>

context closable
begin

definition makes :: "(world \<Rightarrow> bool) \<Rightarrow> ('r \<Rightarrow> world \<Rightarrow> bool) \<Rightarrow> 'r go \<Rightarrow> bool" where
  "makes J I mk \<longleftrightarrow> (\<forall>w. J w \<longrightarrow> wp mk (\<lambda>r w1. case r of Inl e \<Rightarrow> keeps w w1
     | Inr x \<Rightarrow> gains (refs x) w w1 \<and> (closed x \<longrightarrow> refs x = {#}) \<and> I x w1) w)"

lemma close_once:
  assumes "closed x \<longrightarrow> refs x = {#}" "gains (refs x) w w1" "keeps w1 w2"
  shows "wp (close (Some x)) (\<lambda>r w'. keeps w w' \<and> \<not> isl r) w2"
proof -
  have own: "owned w2 = owned w + refs x" and k: "now_owns (owned w2) w w2"
    using assms(2,3) by (auto simp: gains_def keeps_def now_owns_def)
  show ?thesis
  proof (cases "closed x")
    case True
    then have "keeps w w2" using own k assms(1) by (simp add: keeps_now_owns)
    then show ?thesis by (auto intro!: wp_mono [OF close_closed [OF True]] intro: keeps_trans)
  next
    case False
    show ?thesis
      by (rule wp_mono [OF close_open [OF False own]])
        (auto simp: keeps_now_owns intro: now_owns_trans [OF k])
  qed
qed

lemma with_temp_neutral:
  assumes "makes J I mk" and use: "\<And>x. neutral_op (I x) (body x)"
  shows "neutral_op J (with_temp mk close body)"
  unfolding neutral_op_def with_temp_def wp_must wp_deferring
proof (intro allI impI)
  fix w assume "J w"
  then have mk: "wp mk (\<lambda>r w1. case r of Inl e \<Rightarrow> keeps w w1
      | Inr x \<Rightarrow> gains (refs x) w w1 \<and> (closed x \<longrightarrow> refs x = {#}) \<and> I x w1) w"
    using assms(1) by (simp add: makes_def)
  have fin: "wp (close (Some x)) (\<lambda>_ w'. neutral r w w') w2"
    if "gains (refs x) w w1" "closed x \<longrightarrow> refs x = {#}" "neutral r w1 w2" for x r w1 w2
  proof (cases "r = Inl calloc_panic")
    case False
    then have "keeps w1 w2" using that(3) by (auto simp: neutral_def)
    then show ?thesis by (auto intro!: wp_mono [OF close_once [OF that(2,1)]] neutral_keeps)
  qed (simp add: wp_def)
  show "wp mk (\<lambda>r w'. case r of Inl e \<Rightarrow> neutral (Inl e) w w'
      | Inr x \<Rightarrow> wp (body x) (\<lambda>r. wp (do { close (Some x); ret () }) (\<lambda>_. neutral r w)) w') w"
    by (rule wp_mono [OF mk])
      (auto split: sum.splits simp: neutral_keeps intro!: wp_mono [OF neutral_opD [OF use]] fin)
qed

lemma made_only_neutral:
  assumes "makes J I mk"
  shows "neutral_op J (made_only mk close)"
  unfolding neutral_op_def made_only_def wp_must
proof (intro allI impI)
  fix w assume "J w"
  then have mk: "wp mk (\<lambda>r w1. case r of Inl e \<Rightarrow> keeps w w1
      | Inr x \<Rightarrow> gains (refs x) w w1 \<and> (closed x \<longrightarrow> refs x = {#}) \<and> I x w1) w"
    using assms(1) by (simp add: makes_def)
  show "wp mk (\<lambda>r w'. case r of Inl e \<Rightarrow> neutral (Inl e) w w'
      | Inr x \<Rightarrow> wp (close (Some x)) (\<lambda>r w'. case r of Inl e \<Rightarrow> neutral (Inl e) w w' | Inr _ \<Rightarrow> wp (ok ()) (\<lambda>r. neutral r w) w') w') w"
    by (rule wp_mono [OF mk])
      (auto split: sum.splits simp: neutral_keeps intro!: wp_mono [OF close_once])
qed

end

lemma makes_key:
  "key.makes (ctx_live a) (\<lambda>k. key_opt_ok (Some k)) (GenerateKey (Some a) alg (if curve \<noteq> [] then [WithGroup curve] else []))"
  unfolding key.makes_def
  by (intro allI impI wp_mono [OF GenerateKey_spec])
    (auto split: sum.splits simp: key_ok_def key_context_def key_refs_def held_def gains_def ctx_live_def)

lemma makes_aead:
  "aead.makes (ctx_live a) (\<lambda>c w. a_closed c \<or> aead_ok c w) (aead_new x a key)"
  unfolding aead.makes_def aead_new_def
  by (intro allI impI wp_mono [OF NewAEAD_spec])
    (auto split: sum.splits simp: aead_ok_def held_def gains_def)

lemma makes_cipher:
  "cipher.makes (ctx_live a) cipher_ok (cipher_new x a key)"
  unfolding cipher.makes_def cipher_new_def
  by (intro allI impI wp_mono [OF NewCipher_spec])
    (auto split: sum.splits simp: cipher_ok_def held_def gains_def)

section \<open>What a check leaves\<close>

text \<open>
  A check touches the two memories of answers and nothing else: no reference is left, no
  context is another one.
\<close>

definition harmless :: "world \<Rightarrow> world \<Rightarrow> bool" where
  "harmless w w' \<longleftrightarrow> owned w' = owned w \<and> (safe w \<longrightarrow> safe w') \<and> lib w' = lib w \<and> nctx w' = nctx w
     \<and> (\<forall>a. c_ctx (ctxs w' a) = c_ctx (ctxs w a) \<and> c_fips (ctxs w' a) = c_fips (ctxs w a))
     \<and> (\<exists>es. hist w' = es @ hist w)"

lemma harmless_refl [simp]: "harmless w w"
  by (simp add: harmless_def)

lemma harmless_trans: "harmless w w' \<Longrightarrow> harmless w' w'' \<Longrightarrow> harmless w w''"
  by (auto simp: harmless_def)

lemma keeps_harmless: "keeps w w' \<Longrightarrow> harmless w w'"
  by (simp add: keeps_def harmless_def)

lemma live_harmless: "ctx_live a w \<Longrightarrow> harmless w w' \<Longrightarrow> ctx_live a w'"
  by (simp add: ctx_live_def harmless_def)

definition mildly :: "err + 'a \<Rightarrow> world \<Rightarrow> world \<Rightarrow> bool" where
  "mildly r w w' \<longleftrightarrow> r = Inl calloc_panic \<or> harmless w w'"

definition mild :: "cref \<Rightarrow> 'a go \<Rightarrow> bool" where
  "mild a m \<longleftrightarrow> (\<forall>w. ctx_live a w \<longrightarrow> wp m (\<lambda>r w'. mildly r w w') w)"

lemma mildD: "mild a m \<Longrightarrow> ctx_live a w \<Longrightarrow> wp m (\<lambda>r w'. mildly r w w') w"
  by (simp add: mild_def)

lemma mild_after:
  assumes "mild a m" "ctx_live a w" "harmless w w'"
  shows "wp m (\<lambda>r. mildly r w) w'"
  by (rule wp_mono [OF mildD [OF assms(1) live_harmless [OF assms(2,3)]]])
    (auto simp: mildly_def intro: harmless_trans [OF assms(3)])

lemma mild_neutral: "neutral_op (ctx_live a) m \<Longrightarrow> mild a m"
  unfolding mild_def by (auto simp: mildly_def neutral_def intro: keeps_harmless elim!: wp_mono [OF neutral_opD])

lemma mild_must:
  assumes "mild a m" "\<And>x. mild a (f x)"
  shows "mild a (must m f)"
  unfolding mild_def wp_must
proof (intro allI impI)
  fix w assume w: "ctx_live a w"
  show "wp m (\<lambda>r w'. case r of Inl e \<Rightarrow> mildly (Inl e) w w' | Inr x \<Rightarrow> wp (f x) (\<lambda>r. mildly r w) w') w"
    by (rule wp_mono [OF mildD [OF assms(1) w]])
      (auto split: sum.splits simp: mildly_def intro!: mild_after [OF assms(2) w])
qed

lemma mild_onerr:
  assumes "mild a m" "\<And>e. mild a (h e)" "\<And>x. mild a (f x)"
  shows "mild a (onerr m h f)"
  unfolding mild_def wp_onerr
proof (intro allI impI)
  fix w assume w: "ctx_live a w"
  show "wp m (\<lambda>r w'. case r of Inl e \<Rightarrow> if is_panic e then mildly (Inl e) w w' else wp (h e) (\<lambda>r. mildly r w) w'
      | Inr x \<Rightarrow> wp (f x) (\<lambda>r. mildly r w) w') w"
    by (rule wp_mono [OF mildD [OF assms(1) w]])
      (auto split: sum.splits simp: mildly_def
        intro!: mild_after [OF assms(2) w] mild_after [OF assms(3) w])
qed

lemma mild_bind:
  assumes "\<And>w. wp m (\<lambda>_ w'. harmless w w') w" "\<And>x. mild a (f x)"
  shows "mild a (m \<bind> f)"
  unfolding mild_def wp_bind
  by (auto intro!: wp_mono [OF assms(1)] mild_after [OF assms(2)])

lemma mild_if: "(b \<Longrightarrow> mild a m) \<Longrightarrow> (\<not> b \<Longrightarrow> mild a n) \<Longrightarrow> mild a (if b then m else n)"
  by simp

lemmas mild_pure [simp, intro] = neutral_op_pure [THEN mild_neutral]

lemma mild_made: "neutral_op (ctx_live a) (made_only (GenerateKey (Some a) alg [WithGroup g]) Key_Close)"
proof -
  have m: "key.makes (ctx_live a) (\<lambda>_ _. True) (GenerateKey (Some a) alg [WithGroup g])"
    unfolding key.makes_def
    by (intro allI impI wp_mono [OF GenerateKey_spec])
      (auto split: sum.splits simp: key_refs_def held_def)
  show ?thesis by (rule key.made_only_neutral [OF m])
qed

lemma mild_read: "mild a read_curves"
  unfolding mild_def read_curves_def
  by (auto simp: mildly_def harmless_def intro!: wp_call)

lemma mild_curveNID: "mild a (curveNID n)"
  by (intro mild_neutral neutral_op_keeps curveNID_keeps)

lemma memory_harmless:
  "wp get_curves (\<lambda>_ w'. harmless w w') w" "wp clearErrors (\<lambda>_ w'. harmless w w') w"
  "wp (recall a key) (\<lambda>_ w'. harmless w w') w" "wp (remember a key v) (\<lambda>_ w'. harmless w w') w"
  by (auto simp: recall_def remember_def clearErrors_def harmless_def intro!: wp_call)

lemma mild_curveSupported: "mild a (curveSupported n)"
  unfolding curveSupported_def
  by (intro mild_bind memory_harmless mild_must mild_if mild_read mild_pure mild_curveNID)

lemma mild_probe:
  assumes "mild a run"
  shows "mild a (probe a key run)"
  unfolding probe_def
  by (rule mild_bind [OF memory_harmless(3)])
    (auto split: option.splits intro!: mild_onerr assms mild_bind memory_harmless)

lemma mild_curveUsable: "mild a (curveUsable a g)"
  unfolding curveUsable_def by (intro mild_probe mild_neutral mild_made)

lemma mild_queries:
  "mild a (KeyAlgorithmAvailable (Some a) n)" "mild a (DigestAvailable (Some a) n q)"
  "mild a (CipherAvailable (Some a) n q)" "mild a (digestIsXOF a n)" "mild a (cipherKeyLength a n)"
  by (auto intro!: mild_neutral neutral_op_keeps probe_keeps algorithm_keeps)

lemmas mild_steps = mild_must mild_if mild_onerr mild_pure mild_queries mild_curveSupported mild_curveUsable

lemma mild_guard: "(\<And>b. mild a (k b)) \<Longrightarrow> mild a (make_bytes n k)" "(\<And>b. mild a (k b)) \<Longrightarrow> mild a (bytes_Repeat c n k)"
  by (simp_all add: make_bytes_def bytes_Repeat_def)

lemma mild_key_len: "mild a (key_len a n name)"
  unfolding key_len_def by (intro mild_steps)

lemma mild_check: "mild a (check cap a)"
proof (cases cap)
  case (CapSignature s)
  show ?thesis
    unfolding CapSignature check.simps signature_check_def curve_shape_def curve_check_def digest_check_def Let_def
    by (intro mild_steps)
next
  case (CapAEAD x)
  show ?thesis
    unfolding CapAEAD check.simps aead_check_def aead_keyLen_def
    by (intro mild_steps mild_guard mild_key_len mild_neutral [OF aead.made_only_neutral [OF makes_aead]])
next
  case (CapCipher x)
  show ?thesis
    unfolding CapCipher check.simps cipher_check_def cipher_keyLen_def
    by (intro mild_steps mild_guard mild_key_len mild_neutral [OF cipher.made_only_neutral [OF makes_cipher]])
qed

lemma stable_cipher: "stable (cipher_ok x)" "stable (\<lambda>w. a_closed c \<or> aead_ok c w)"
  by (auto simp: stable_def cipher_ok_def aead_ok_def gains_def)

lemma same_back_neutral: "neutral_op I (same_back pt got)"
  unfolding same_back_def by (intro neutral_op_if neutral_op_pure)

lemma cipher_neutral: "neutral_op (cipher_ok x) (Cipher_Encrypt (Some x) d iv xs)" "neutral_op (cipher_ok x) (Cipher_Decrypt (Some x) d iv xs)"
  by (auto intro!: neutral_op_keeps Cipher_Encrypt_spec Cipher_Decrypt_spec)

lemma bytes_Repeat_neutral: "(\<And>b. neutral_op I (k b)) \<Longrightarrow> neutral_op I (bytes_Repeat c n k)"
  by (simp add: bytes_Repeat_def)

lemma mild_trial: "mild a (trial cap a)"
proof (cases cap)
  case (CapSignature s)
  have "neutral_op (key_opt_ok (Some k)) (must (Key_Sign (Some k) probe_msg so) (\<lambda>sig. Key_Verify (Some k) probe_msg sig so))" for k so
    by (intro neutral_op_must stable_key_opt Key_Sign_neutral Key_Verify_neutral)
  then show ?thesis
    unfolding CapSignature trial.simps signature_trial_def
    by (intro mild_neutral key.with_temp_neutral [OF makes_key])
next
  case (CapAEAD x)
  have n: "neutral_op (\<lambda>w. a_closed c \<or> aead_ok c w) (SealErr (Some c) d n pt aad)"
    "neutral_op (\<lambda>w. a_closed c \<or> aead_ok c w) (AEAD_Open (Some c) d n pt aad)" for c d n pt aad
    by (auto simp: neutral_op_def intro: aead_neutral)
  show ?thesis
    unfolding CapAEAD trial.simps aead_trial_def aead_keyLen_def
    by (intro mild_steps mild_guard mild_key_len mild_neutral [OF aead.with_temp_neutral [OF makes_aead]]
        neutral_op_guard neutral_op_must stable_cipher n same_back_neutral)
next
  case (CapCipher x)
  show ?thesis
    unfolding CapCipher trial.simps cipher_trial_def cipher_keyLen_def
    by (intro mild_steps mild_guard mild_key_len mild_neutral [OF cipher.with_temp_neutral [OF makes_cipher]]
        neutral_op_guard neutral_op_must stable_cipher cipher_neutral same_back_neutral bytes_Repeat_neutral)
qed

text \<open>
  C36: asking what a context can do has no effect on what it can do: checking a capability, or
  proving it by performing it, releases every key, cipher and context made on the way -- also
  when it fails -- and leaves the library handle and the providers of every context as they were.
\<close>

theorem Capability_harmless:
  assumes "ctx_live a w"
  shows "wp (Supports (Some a) cap) (\<lambda>r w'. mildly r w w') w \<and> wp (VerifyCapability (Some a) cap) (\<lambda>r w'. mildly r w w') w"
proof (cases cap)
  case (Some x)
  have "mild a (VerifyCapability (Some a) (Some x))"
    unfolding VerifyCapability_def option.case by (intro mild_steps mild_check mild_trial)
  then show ?thesis
    using assms mild_check [of a x] Some by (auto simp: Supports_def intro: mildD)
qed (simp add: Supports_def VerifyCapability_def mildly_def)

definition p256_sha256 :: SignatureCapability where
  "p256_sha256 = \<lparr>sc_Key = ''EC'', sc_Curve = ''P-256'', sc_Digest = ''SHA2-256'', sc_Format = SignatureP1363,
     sc_Prehash = False, sc_Deterministic = False, sc_Context = False\<rparr>"

lemma Capability_harmless_witness:
  "wp (VerifyCapability (Some Default) (Some (CapSignature p256_sha256)))
     (\<lambda>r w'. mildly r (world_of (\<lambda>h c. yes h) []) w') (world_of (\<lambda>h c. yes h) [])"
  using Capability_harmless [of Default "world_of (\<lambda>h c. yes h) []" "Some (CapSignature p256_sha256)"]
  by (simp add: ctx_live_def)

section \<open>Remembered answers\<close>

text \<open>What a memory holds after an answer.\<close>

definition answer_of :: "err + unit \<Rightarrow> err option" where
  "answer_of r = (case r of Inl e \<Rightarrow> Some e | Inr _ \<Rightarrow> None)"

lemma run_recall: "run_state (recall a key) w = (c_probes (ctxs w a) key,
    push (Mu Unlock MuContext) (lib w (hist (push (Mu Lock MuContext) (lib w (hist w) (Mu Lock MuContext)) w)) (Mu Unlock MuContext))
      (push (Mu Lock MuContext) (lib w (hist w) (Mu Lock MuContext)) w))"
  by (simp add: recall_def exec_simps)

lemma probe_remembers:
  assumes "run_state (probe a key run) w = (r, w1)" "\<not> (\<exists>e. r = Inl e \<and> is_panic e)"
  shows "c_probes (ctxs w1 a) key = Some (answer_of r)"
  using assms
  by (auto simp: probe_def run_recall remember_def answer_of_def exec_simps clearErrors_def
      split: option.splits sum.splits prod.splits if_splits)

lemma probe_recalls:
  assumes "c_probes (ctxs w a) key = Some (answer_of r)"
  shows "run_state (probe a key run) w = (r, snd (run_state (recall a key) w))"
  using assms
  by (auto simp: probe_def run_recall answer_of_def exec_simps split: sum.splits)

text \<open>
  C37: a curve costs a context one key generation. Once \<open>curveUsable\<close> has answered, asking again
  gives the same answer -- a refusal too -- for as long as the memory of the context keeps it, and
  the only calls are those that take and release the lock of the context.
\<close>

theorem Curve_asked_once:
  assumes "run_state (curveUsable a g) w = (r, w1)" "\<not> (\<exists>e. r = Inl e \<and> is_panic e)"
    and "c_probes (ctxs w2 a) (''curve:'' @ g) = c_probes (ctxs w1 a) (''curve:'' @ g)"
  shows "fst (run_state (curveUsable a g) w2) = r
    \<and> map fst (hist (snd (run_state (curveUsable a g) w2))) = [Mu Unlock MuContext, Mu Lock MuContext] @ map fst (hist w2)
    \<and> ctxs (snd (run_state (curveUsable a g) w2)) = ctxs w2"
proof -
  have "c_probes (ctxs w2 a) (''curve:'' @ g) = Some (answer_of r)"
    using probe_remembers [OF assms(1) [unfolded curveUsable_def] assms(2)] assms(3) by simp
  from probe_recalls [OF this] show ?thesis by (simp add: curveUsable_def run_recall)
qed

text \<open>A library on which no key can be generated.\<close>

fun lib_nogen :: "event list \<Rightarrow> ccall \<Rightarrow> cret" where
  "lib_nogen h (NewOut x k f hs as) = no"
| "lib_nogen h c = (yes h)\<lparr>rcode := 0\<rparr>"

lemma Curve_asked_once_witness:
  "fst (run_state (curveUsable Default ''P-192'') (snd (run_state (curveUsable Default ''P-192'') (world_of lib_nogen []))))
    = Inl (OsslError ''EVP_PKEY_generate(EC)'' [] [])"
proof -
  let ?w = "snd (run_state (curveUsable Default ''P-192'') (world_of lib_nogen []))"
  have "fst (run_state (curveUsable Default ''P-192'') (world_of lib_nogen [])) = Inl (OsslError ''EVP_PKEY_generate(EC)'' [] [])"
    by code_simp
  then have "run_state (curveUsable Default ''P-192'') (world_of lib_nogen []) = (Inl (OsslError ''EVP_PKEY_generate(EC)'' [] []), ?w)"
    by (simp add: prod_eq_iff)
  from Curve_asked_once [OF this, of ?w] show ?thesis by simp
qed

section \<open>What a yes means\<close>

text \<open>
  The combinations that make sense: a curve goes with EC and only with EC, an algorithm that hashes
  by itself gets no digest, every option that is set is one the algorithm honours.
\<close>

definition wf_signature :: "SignatureCapability \<Rightarrow> bool" where
  "wf_signature s \<longleftrightarrow> sc_Key s \<noteq> [] \<and> (sc_Curve s \<noteq> [] \<longleftrightarrow> sc_Key s = ''EC'')
     \<and> (hashesInternally (sc_Key s) \<longrightarrow> sc_Digest s = [])
     \<and> fields_set (signature_options s) \<subseteq> honours (sc_Key s)"

lemma adds_generate [adds]: "adds (key_generate ctx a alg)" "adds (GenerateKey c alg [])" "adds (GenerateKey c alg [WithGroup g])"
  unfolding GenerateKey_def generate_in_def key_generate_def by (rule adds | simp)+

lemma adds_close [adds]: "adds (Key_Close k)"
  unfolding Key_Close_def by (rule adds)+

lemma adds_memory [adds]: "adds get_curves" "adds (recall a key)" "adds (remember a key v)" "adds (put_curves ns)"
  by (auto simp: adds_def recall_def remember_def ext_def intro!: wp_call)

lemma adds_queries [adds]:
  "adds (KeyAlgorithmAvailable c n)" "adds (DigestAvailable c n q)" "adds (CipherAvailable c n q)" "adds (digestIsXOF a n)"
  "adds (cipherKeyLength a n)" "adds (curveNID n)"
  unfolding KeyAlgorithmAvailable_def DigestAvailable_def CipherAvailable_def digestIsXOF_def cipherKeyLength_def
    curveNID_def probe_fetch_def with_optcstr_def ossl_curve_nid_def
  by (rule adds | simp)+

lemma adds_curves [adds]: "adds (curveSupported n)" "adds (curveUsable a n)"
  unfolding curveSupported_def read_curves_def curveUsable_def probe_def made_only_def
  by (rule adds)+

lemma adds_parts [adds]: "adds (curve_check a c)" "adds (digest_check a s)"
  unfolding curve_check_def digest_check_def Let_def by (rule adds)+

lemma shape_secures: "secures E (curve_shape s) (\<lambda>_ w. E w \<and> (sc_Curve s \<noteq> [] \<longleftrightarrow> sc_Key s = ''EC''))"
  unfolding curve_shape_def by (intro secures_if secures_stop secures_ok) auto

lemma digest_secures:
  assumes "lasting E"
  shows "secures E (digest_check a s) (\<lambda>_ w. E w \<and> (hashesInternally (sc_Key s) \<longrightarrow> sc_Digest s = []))"
proof (cases "hashesInternally (sc_Key s) \<and> sc_Digest s \<noteq> []")
  case True
  then show ?thesis by (simp add: digest_check_def secures_stop)
next
  case False
  then show ?thesis
    by (intro secures_post [OF secures_keep [OF secures_run [OF adds_parts(2)] assms]]) simp
qed

lemma check_secures:
  assumes E: "since w0 E"
  shows "secures E (signature_check s a) (\<lambda>_ w. E w \<and> wf_signature s)"
proof -
  note last = since_lasting [OF E]
  let ?F = "\<lambda>w. E w \<and> (sc_Curve s \<noteq> [] \<longleftrightarrow> sc_Key s = ''EC'')"
  have F: "lasting ?F" by (intro lasting last)
  have fin: "secures (\<lambda>w. ?F w \<and> (hashesInternally (sc_Key s) \<longrightarrow> sc_Digest s = []))
      (lift (checkSignOptions (sc_Key s) (signature_options s))) (\<lambda>_ w. E w \<and> wf_signature s)" if "sc_Key s \<noteq> []"
    by (rule secures_lift) (use that in \<open>auto simp: wf_signature_def checkSignOptions_iff\<close>)
  have rest: "secures ?F (must (curve_check a (sc_Curve s)) (\<lambda>_. must (digest_check a s) (\<lambda>_.
          lift (checkSignOptions (sc_Key s) (signature_options s))))) (\<lambda>_ w. E w \<and> wf_signature s)" if "sc_Key s \<noteq> []"
    by (rule secures_step secures_must [OF digest_secures] adds F fin that)+
  show ?thesis
    unfolding signature_check_def
    by (rule secures_if secures_stop secures_step adds last secures_must [OF shape_secures] rest | assumption)+
qed

text \<open>
  C35: \<open>Supports\<close> says yes only to signature configurations that are well formed, whatever the
  library claims to have: a key algorithm is named, a curve is given for EC and for nothing else, no
  digest is forced on an algorithm that hashes by itself, and no option is set that the algorithm
  would not honour.
\<close>

theorem Supports_wellformed:
  assumes "run_state (Supports (Some a) (Some (CapSignature s))) w = (Inr (), w')"
  shows "wf_signature s"
  using secures_result [OF check_secures [OF since_rules(1)]] assms by (fastforce simp: Supports_def)

lemma Supports_wellformed_witness: "wf_signature (p256_sha256\<lparr>sc_Key := ''RSA'', sc_Curve := [], sc_Format := SignatureDER\<rparr>)"
proof (rule Supports_wellformed)
  let ?x = "Some (CapSignature (p256_sha256\<lparr>sc_Key := ''RSA'', sc_Curve := [], sc_Format := SignatureDER\<rparr>))"
  have "fst (run_state (Supports (Some Default) ?x) (world_of (\<lambda>h c. yes h) [])) = Inr ()" by code_simp
  then show "run_state (Supports (Some Default) ?x) (world_of (\<lambda>h c. yes h) [])
      = (Inr (), snd (run_state (Supports (Some Default) ?x) (world_of (\<lambda>h c. yes h) [])))"
    by (simp add: prod_eq_iff)
qed

text \<open>The key a trial made, the signature it made with it, and what the library said of it.\<close>

definition proved :: "world \<Rightarrow> cref \<Rightarrow> SignatureCapability \<Rightarrow> world \<Rightarrow> bool" where
  "proved w0 a s w \<longleftrightarrow> (\<exists>k sig so ty ctx.
     ran w0 (GenerateKey (Some a) (sc_Key s) (if sc_Curve s \<noteq> [] then [WithGroup (sc_Curve s)] else [])) k w
   \<and> ran w0 (Key_Sign (Some k) probe_msg (Some (signature_options s))) sig w
   \<and> in_force (Some (signature_options s)) so \<and> checkSignOptions ty so = Inr ()
   \<and> verified w0 ctx k so probe_msg sig w)"

lemma lasting_proved [lasting]: "lasting (proved w0 a s)"
  unfolding proved_def by (intro lasting)

lemma adds_Key_Sign [adds]: "adds (Key_Sign k msg opts)"
  unfolding Key_Sign_def sign_in_def in_format_def signOpts_def with_digest_def two_call_def Let_def
  by (rule adds | assumption | simp)+

lemma trial_secures:
  assumes E: "since w0 E"
  shows "secures E (signature_trial s a) (\<lambda>_. proved w0 a s)"
proof -
  let ?gen = "GenerateKey (Some a) (sc_Key s) (if sc_Curve s \<noteq> [] then [WithGroup (sc_Curve s)] else [])"
  let ?sign = "\<lambda>k. Key_Sign (Some k) probe_msg (Some (signature_options s))"
  have gen: "secures E ?gen (\<lambda>k w. E w \<and> ran w0 ?gen k w)" by (rule secures_ran [OF E]) (simp add: adds)
  have sign: "secures F (?sign k) (\<lambda>sig w. F w \<and> ran w0 (?sign k) sig w)" if "since w0 F" for F k
    by (rule secures_ran [OF that adds_Key_Sign])
  have ver: "secures F (Key_Verify (Some k) probe_msg sig (Some (signature_options s)))
      (\<lambda>_ w. F w \<and> (\<exists>so ty ctx. in_force (Some (signature_options s)) so \<and> checkSignOptions ty so = Inr () \<and> verified w0 ctx k so probe_msg sig w))"
    if "since w0 F" for F k sig
    by (rule secures_post [OF secures_keep [OF Key_Verify_secures [OF that] since_lasting [OF that]]]) blast
  have trial: "secures (\<lambda>w. E w \<and> ran w0 ?gen k w)
      (must (?sign k) (\<lambda>sig. Key_Verify (Some k) probe_msg sig (Some (signature_options s)))) (\<lambda>_. proved w0 a s)" for k
  proof (rule secures_must [OF sign])
    fix sig
    show "secures (\<lambda>w. (E w \<and> ran w0 ?gen k w) \<and> ran w0 (?sign k) sig w)
        (Key_Verify (Some k) probe_msg sig (Some (signature_options s))) (\<lambda>_. proved w0 a s)"
      by (rule secures_post [OF ver]) (intro lasting E | (unfold proved_def, blast))+
  qed (intro lasting E)
  show ?thesis
    unfolding signature_trial_def with_temp_def
    by (rule secures_must [OF gen] secures_deferring trial adds lasting)+
qed


text \<open>A library that signs with RSA.\<close>

definition lib_signs :: "event list \<Rightarrow> ccall \<Rightarrow> cret" where
  "lib_signs h c = (case c of
     Do f hs as \<Rightarrow> if f = ''EVP_PKEY_get0_type_name'' then (yes h)\<lparr>rstr := ''RSA''\<rparr>
       else if f = ''EVP_DigestSign'' then (yes h)\<lparr>rlen := 2, rbuf := [1, 2]\<rparr> else yes h
   | _ \<Rightarrow> yes h)"

definition rsa_pss :: SignatureCapability where
  "rsa_pss = p256_sha256\<lparr>sc_Key := ''RSA'', sc_Curve := [], sc_Format := SignatureDER\<rparr>"


end
