(* ===== verification/Mac.thy ===== *)
theory Mac
  imports Digest Names
begin

text \<open>
  mac.go: message authentication codes. A \<open>MAC\<close> keeps its key and its parameter array, so
  that \<open>Reset\<close> can initialise the context again; \<open>Close\<close> releases the array and cleanses the
  key.
\<close>

record mac =
  m_mac :: ptr
  m_ctx :: ptr
  m_key :: "byte list"
  m_p :: "params option"
  m_size :: int
  m_bs :: int
  m_err :: "err option"

text \<open>\<open>init\<close> ends the parameter array on its first run.\<close>

definition MAC_init :: "mac \<Rightarrow> (world, mac \<times> (err + unit)) state" where
  "MAC_init m = (case m_p m of
     None \<Rightarrow> ret (m, Inl (Panic ''nil pointer dereference''))
   | Some p \<Rightarrow> (case p_c p of
       Inl e \<Rightarrow> ret (m, Inl e)
     | Inr (p', ps) \<Rightarrow> do {
         r \<leftarrow> call (Do ''EVP_MAC_init'' [(HMacCtx, m_ctx m)]
           [if m_key m = [] then ANull else ABytes (m_key m), AInt (c_size_t (go_len (m_key m))), AParams ps]);
         if rc r \<noteq> 1 then do { e \<leftarrow> newError ''EVP_MAC_init''; ret (m\<lparr>m_p := Some p'\<rparr>, Inl e) }
         else ret (m\<lparr>m_p := Some p'\<rparr>, Inr ())
       }))"

definition MAC_Close :: "mac option \<Rightarrow> (mac option) go" where
  "MAC_Close m = (case m of None \<Rightarrow> ok None | Some x \<Rightarrow> do {
     (if m_ctx x \<noteq> NULL then free HMacCtx (m_ctx x) else ret ());
     (if m_mac x \<noteq> NULL then free HMac (m_mac x) else ret ());
     (case m_p x of None \<Rightarrow> ret () | Some p \<Rightarrow> drop_params p);
     Zero (m_key x);
     ok (Some (x\<lparr>m_ctx := NULL, m_mac := NULL, m_p := None, m_key := []\<rparr>))
   })"

text \<open>The constructor behind the public ones takes over the array it is given.\<close>

definition buildMAC :: "ptr \<Rightarrow> ptr \<Rightarrow> byte list \<Rightarrow> params \<Rightarrow> mac go" where
  "buildMAC m ctx key p = do {
     (mm, r) \<leftarrow> MAC_init \<lparr>m_mac = m, m_ctx = ctx, m_key = key, m_p = Some p, m_size = 0, m_bs = 0, m_err = None\<rparr>;
     case r of
       Inl e \<Rightarrow> if is_panic e then fail e else must (MAC_Close (Some mm)) (\<lambda>_. fail e)
     | Inr _ \<Rightarrow> do {
         s \<leftarrow> call (Do ''EVP_MAC_CTX_get_mac_size'' [(HMacCtx, ctx)] []);
         b \<leftarrow> call (Do ''EVP_MAC_CTX_get_block_size'' [(HMacCtx, ctx)] []);
         ok (mm\<lparr>m_size := rlen s, m_bs := rlen b\<rparr>)
       }
   }"

definition fetchMAC :: "cref \<Rightarrow> carg \<Rightarrow> string \<Rightarrow> byte list \<Rightarrow> params \<Rightarrow> mac go" where
  "fetchMAC a calg algorithm key p = do {
     cp \<leftarrow> Context_ptr a;
     m \<leftarrow> new HMac ''EVP_MAC_fetch'' [(HLibCtx, cp)] [calg, ANull];
     if m = NULL then do { drop_params p; failE (''EVP_MAC_fetch('' @ algorithm @ '')'') }
     else do {
       ctx \<leftarrow> new HMacCtx ''EVP_MAC_CTX_new'' [(HMac, m)] [];
       if ctx = NULL then do { free HMac m; drop_params p; failE ''EVP_MAC_CTX_new'' }
       else buildMAC m ctx key p
     }
   }"

definition newMAC :: "cref option \<Rightarrow> string \<Rightarrow> byte list \<Rightarrow> params \<Rightarrow> mac go" where
  "newMAC c algorithm key p = (case c of
     None \<Rightarrow> do { drop_params p; fail ErrClosed }
   | Some a \<Rightarrow> do { clearErrors; with_cstr algorithm (\<lambda>calg. fetchMAC a calg algorithm key p) })"

record MACParams =
  mp_Digest :: string
  mp_Cipher :: string
  mp_IV :: "byte list option"
  mp_Custom :: "byte list"
  mp_Size :: int

definition MACParams_build :: "MACParams option \<Rightarrow> unit pstep list" where
  "MACParams_build p = (case p of None \<Rightarrow> [] | Some p \<Rightarrow>
     (if mp_Digest p \<noteq> [] then [UTF8 pKeyDigest (mp_Digest p)] else [])
     @ (if mp_Cipher p \<noteq> [] then [UTF8 pKeyCipher (mp_Cipher p)] else [])
     @ (case mp_IV p of Some iv \<Rightarrow> [Octets pKeyIV iv] | None \<Rightarrow> [])
     @ (if mp_Custom p \<noteq> [] then [Octets pKeyCustom (mp_Custom p)] else [])
     @ (if mp_Size p > 0 then [SizeT pKeySize (mp_Size p)] else []))"

text \<open>An array built and handed over.\<close>

definition handing :: "unit pstep list \<Rightarrow> (params \<Rightarrow> 'a go) \<Rightarrow> 'a go" where
  "handing ss k = do {
     (p, r) \<leftarrow> p_steps ss newParams;
     case r of Inl e \<Rightarrow> fail e | Inr _ \<Rightarrow> k p
   }"

definition NewMAC :: "cref option \<Rightarrow> string \<Rightarrow> byte list \<Rightarrow> MACParams option \<Rightarrow> mac go" where
  "NewMAC c algorithm key p = (case c of None \<Rightarrow> fail ErrClosed | Some _ \<Rightarrow>
     if algorithm = [] then fail (Errorf ''ossl: MAC algorithm name is empty'' [])
     else if (case p of None \<Rightarrow> False | Some q \<Rightarrow> mp_Size q < 0)
     then fail (Errorf ''ossl: MAC output size must not be negative, got %d'' [FInt (mp_Size (the p))])
     else if (case p of None \<Rightarrow> False | Some q \<Rightarrow> mp_Size q > maxOutputLength)
     then fail (Errorf ''ossl: MAC output size %d exceeds the maximum of %d bytes'' [FInt (mp_Size (the p)), FInt maxOutputLength])
     else handing (MACParams_build p) (newMAC c algorithm key))"

definition NewGMAC :: "cref option \<Rightarrow> string \<Rightarrow> byte list \<Rightarrow> byte list \<Rightarrow> mac go" where
  "NewGMAC c cipher key iv = (if iv = [] then fail (Errorf ''ossl: GMAC requires an IV'' [])
     else NewMAC c ''GMAC'' key (Some \<lparr>mp_Digest = [], mp_Cipher = cipher, mp_IV = Some iv, mp_Custom = [], mp_Size = 0\<rparr>))"

definition NewHMAC :: "cref option \<Rightarrow> string \<Rightarrow> byte list \<Rightarrow> mac go" where
  "NewHMAC c digest key = handing [UTF8 pKeyDigest digest] (newMAC c ''HMAC'' key)"

definition NewCMAC :: "cref option \<Rightarrow> string \<Rightarrow> byte list \<Rightarrow> mac go" where
  "NewCMAC c cipher key = handing [UTF8 pKeyCipher cipher] (newMAC c ''CMAC'' key)"

definition NewKMAC :: "cref option \<Rightarrow> int \<Rightarrow> byte list \<Rightarrow> int \<Rightarrow> byte list \<Rightarrow> mac go" where
  "NewKMAC c bits key outLen custom =
     handing ([SizeT pKeySize outLen] @ (if custom \<noteq> [] then [Octets pKeyCustom custom] else []))
       (newMAC c (if bits = 256 then KMAC256 else KMAC128) key)"

section \<open>The methods of \<open>hash.Hash\<close>\<close>

definition MAC_Write :: "mac option \<Rightarrow> byte list \<Rightarrow> (world, mac option \<times> (err + int)) state" where
  "MAC_Write m b = (case m of None \<Rightarrow> ret (None, Inl ErrClosed) | Some x \<Rightarrow>
     if m_ctx x = NULL then ret (m, Inl ErrClosed)
     else if b = [] then ret (m, Inr 0)
     else do {
       r \<leftarrow> call (Do ''EVP_MAC_update'' [(HMacCtx, m_ctx x)] [ABytes b, AInt (c_size_t (go_len b))]);
       if rc r \<noteq> 1 then do { e \<leftarrow> newError ''EVP_MAC_update''; ret (Some (x\<lparr>m_err := Some e\<rparr>), Inl e) }
       else ret (m, Inr (go_len b))
     })"

definition mac_latch :: "mac \<Rightarrow> string \<Rightarrow> 'a \<Rightarrow> (world, mac option \<times> (err + 'a)) state" where
  "mac_latch x op b = do {
     e \<leftarrow> newError op;
     ret (Some (x\<lparr>m_err := Some e\<rparr>), if is_panic e then Inl e else Inr b)
   }"

definition mac_final :: "mac \<Rightarrow> ptr \<Rightarrow> byte list \<Rightarrow> (world, mac option \<times> (err + byte list)) state" where
  "mac_final x dup b = (let size = (if m_size x \<le> 0 then 64 else m_size x) in do {
     r \<leftarrow> call (Do ''EVP_MAC_final'' [(HMacCtx, dup)] [AOut size]);
     if rc r \<noteq> 1 then mac_latch x ''EVP_MAC_final'' b
     else do {
       s \<leftarrow> slice_to (write_at (replicate (nat size) 0) 0 (rbuf r)) (rlen r) (\<lambda>d. ok (b @ d));
       ret (Some x, s)
     }
   })"

definition MAC_Sum :: "mac option \<Rightarrow> byte list \<Rightarrow> (world, mac option \<times> (err + byte list)) state" where
  "MAC_Sum m b = (case m of None \<Rightarrow> ret (None, Inr b) | Some x \<Rightarrow>
     if m_ctx x = NULL then ret (Some (x\<lparr>m_err := Some ErrClosed\<rparr>), Inr b)
     else do {
       dup \<leftarrow> new HMacCtx ''EVP_MAC_CTX_dup'' [(HMacCtx, m_ctx x)] [];
       if dup = NULL then mac_latch x ''EVP_MAC_CTX_dup'' b
       else deferring (free HMacCtx dup) (mac_final x dup b)
     })"

definition MAC_Reset :: "mac option \<Rightarrow> (world, mac option \<times> (err + unit)) state" where
  "MAC_Reset m = (case m of None \<Rightarrow> ret (None, Inr ()) | Some x \<Rightarrow>
     if m_ctx x = NULL then ret (m, Inr ())
     else do {
       (y, r) \<leftarrow> MAC_init x;
       case r of
         Inl e \<Rightarrow> if is_panic e then ret (Some y, Inl e) else ret (Some (y\<lparr>m_err := Some e\<rparr>), Inr ())
       | Inr _ \<Rightarrow> ret (Some y, Inr ())
     })"

definition MAC_Size :: "mac option \<Rightarrow> int" where
  "MAC_Size m = (case m of None \<Rightarrow> 0 | Some x \<Rightarrow> m_size x)"

definition MAC_BlockSize :: "mac option \<Rightarrow> int" where
  "MAC_BlockSize m = (case m of None \<Rightarrow> 0 | Some x \<Rightarrow> m_bs x)"

definition MAC_Err :: "mac option \<Rightarrow> err option" where
  "MAC_Err m = (case m of None \<Rightarrow> Some ErrClosed | Some x \<Rightarrow> m_err x)"

text \<open>\<open>defer m.Close()\<close>; the pointers and the arena of the object do not change in between.\<close>

definition close_mac :: "mac \<Rightarrow> (world, unit) state" where
  "close_mac x = do { MAC_Close (Some x); ret () }"

definition HMACSum :: "string \<Rightarrow> byte list \<Rightarrow> byte list \<Rightarrow> (byte list) go" where
  "HMACSum digest key data = must (NewHMAC (Some Default) digest key) (\<lambda>x. deferring (close_mac x) (do {
     (m, r) \<leftarrow> MAC_Write (Some x) data;
     case r of Inl e \<Rightarrow> fail e | Inr _ \<Rightarrow> do {
       (m, s) \<leftarrow> MAC_Sum m [];
       case s of Inl e \<Rightarrow> fail e | Inr d \<Rightarrow>
         (case MAC_Err m of Some e \<Rightarrow> fail e | None \<Rightarrow> ok d)
     }
   }))"

text \<open>
  \<open>subtle.ConstantTimeCompare\<close>: different lengths are unequal; otherwise the differences of all
  bytes are collected and compared with zero once.
\<close>

definition ConstantTimeCompare :: "byte list \<Rightarrow> byte list \<Rightarrow> int" where
  "ConstantTimeCompare x y = (if length x \<noteq> length y then 0
     else if fold (\<lambda>(a, b) v. v OR (a XOR b)) (zip x y) 0 = 0 then 1 else 0)"

definition EqualMAC :: "byte list \<Rightarrow> byte list \<Rightarrow> bool" where
  "EqualMAC a b \<longleftrightarrow> ConstantTimeCompare a b = 1"

section \<open>Ownership\<close>

text \<open>An array that was built, perhaps ended, and not released: what it points to is in its arena.\<close>

definition arena_ok :: "params \<Rightarrow> bool" where
  "arena_ok p \<longleftrightarrow> \<not> p_freed p \<and> (p_ended p \<longrightarrow> p_list p \<noteq> [])
     \<and> (\<forall>q\<in>set (p_list p). \<forall>h\<in>param_handles q. h \<in># blocks (p_arena p)) \<and> NULL \<notin> set (p_arena p)"

lemma wf_arena_ok: "wf_params p \<Longrightarrow> arena_ok p"
  by (auto simp: wf_params_def arena_ok_def)

lemma p_c_arena:
  assumes "arena_ok p"
  shows "\<exists>p' ps. p_c p = Inr (p', ps) \<and> arena_ok p' \<and> p_arena p' = p_arena p
    \<and> (\<forall>q\<in>set ps. \<forall>h\<in>param_handles q. h \<in># blocks (p_arena p))"
  using assms by (auto simp: p_c_def arena_ok_def Let_def)

definition live_blocks :: "ptr list \<Rightarrow> handle multiset" where
  "live_blocks qs = blocks (filter (\<lambda>q. q \<noteq> NULL) qs)"

definition mac_refs :: "mac \<Rightarrow> handle multiset" where
  "mac_refs x = held HMacCtx (m_ctx x) + held HMac (m_mac x)
     + (case m_p x of None \<Rightarrow> {#} | Some p \<Rightarrow> live_blocks (p_arena p))"

definition mac_closed :: "mac \<Rightarrow> bool" where
  "mac_closed x \<longleftrightarrow> m_ctx x = NULL \<and> m_mac x = NULL \<and> m_p x = None \<and> m_key x = []"

lemma wp_free_live:
  "owned w = M + live_blocks qs \<Longrightarrow> wp (free_all qs) (\<lambda>_ w'. now_owns M w w') w"
proof (induction qs arbitrary: w)
  case Nil
  then show ?case by (simp add: now_owns_def live_blocks_def)
next
  case (Cons q qs)
  show ?case
    unfolding free_all.simps wp_bind wp_free
  proof (rule wp_call, rule wp_mono [OF Cons.IH])
    fix r :: cret
    show "owned (push (Free HMem q) r w) = M + live_blocks qs"
      using Cons.prems by (auto simp: live_blocks_def)
    fix u :: unit and w' assume "now_owns M (push (Free HMem q) r w) w'"
    then show "now_owns M w w'"
      using Cons.prems by (auto simp: now_owns_def live_blocks_def)
  qed
qed

lemma wp_drop_live:
  "owned w = M + live_blocks (p_arena p) \<Longrightarrow> wp (drop_params p) (\<lambda>_ w'. now_owns M w w') w"
  using wp_free_live by (simp add: drop_params_def p_free_def)

lemma wp_free_held:
  "owned w = M + held k p \<Longrightarrow> wp (if p \<noteq> NULL then free k p else ret ()) (\<lambda>_ w'. now_owns M w w') w"
  by (auto simp: now_owns_def held_def intro!: wp_call)

lemma MAC_Close_spec:
  assumes "owned w = M + mac_refs x"
  shows "wp (MAC_Close (Some x)) (\<lambda>r w'. \<exists>y. r = Inr (Some y) \<and> mac_closed y \<and> now_owns M w w') w"
proof -
  let ?P = "case m_p x of None \<Rightarrow> {#} | Some p \<Rightarrow> live_blocks (p_arena p)"
  have drop: "wp (case m_p x of None \<Rightarrow> ret () | Some p \<Rightarrow> drop_params p) (\<lambda>_. now_owns M w) w1"
    if "now_owns (M + ?P) w w1" for w1
    using that by (cases "m_p x")
      (auto intro!: wp_mono [OF wp_drop_live] intro: now_owns_trans simp: now_owns_def)
  have mac: "wp (if m_mac x \<noteq> NULL then free HMac (m_mac x) else ret ()) (\<lambda>_. now_owns (M + ?P) w) w1"
    if "now_owns (M + ?P + held HMac (m_mac x)) w w1" for w1
    by (rule wp_mono [OF wp_free_held]) (use that in \<open>auto intro: now_owns_trans simp: now_owns_def\<close>)
  have zero: "wp (Zero (m_key x)) (\<lambda>_ w'. now_owns M w w') w1" if "now_owns M w w1" for w1
    using that by (auto intro!: vcg simp: keeps_now_owns now_owns_def)
  show ?thesis
    unfolding MAC_Close_def option.case wp_bind
  proof (rule wp_mono [OF wp_free_held [where M = "M + ?P + held HMac (m_mac x)"]])
    show "owned w = M + ?P + held HMac (m_mac x) + held HMacCtx (m_ctx x)"
      using assms by (simp add: mac_refs_def ac_simps)
  qed (rule wp_mono [OF mac], assumption, rule wp_mono [OF drop], assumption,
      rule wp_mono [OF zero], assumption, simp add: mac_closed_def)
qed

interpretation mac: closable MAC_Close mac_closed mac_refs
proof (unfold_locales, goal_cases)
  case (2 x w M)
  from MAC_Close_spec [OF 2(2)] show ?case
    by (rule wp_mono) (auto simp: mac_closed_def mac_refs_def)
next
  case (3 x w)
  then show ?case
    by (auto simp: MAC_Close_def mac_closed_def Zero_def)
qed (simp add: MAC_Close_def)

definition mac_ok :: "mac \<Rightarrow> world \<Rightarrow> bool" where
  "mac_ok x w \<longleftrightarrow> (case m_p x of None \<Rightarrow> m_ctx x = NULL
       | Some p \<Rightarrow> arena_ok p \<and> set_mset (blocks (p_arena p)) \<subseteq> set_mset (owned w))
     \<and> (m_ctx x \<noteq> NULL \<longrightarrow> (HMacCtx, m_ctx x) \<in># owned w)"

lemma arena_ok_c:
  assumes "p_c p = Inr (p', ps)" "arena_ok p"
  shows "arena_ok p'" "p_arena p' = p_arena p" "param_view ps = param_view (p_list p)"
    "\<forall>q\<in>set ps. \<forall>h\<in>param_handles q. h \<in># blocks (p_arena p)"
proof -
  have view: "param_view (xs @ [ParamEnd]) = param_view xs" for xs
    by (induction xs rule: param_view.induct) auto
  show "arena_ok p'" "p_arena p' = p_arena p" "param_view ps = param_view (p_list p)"
    "\<forall>q\<in>set ps. \<forall>h\<in>param_handles q. h \<in># blocks (p_arena p)"
    using assms by (auto simp: p_c_def arena_ok_def Let_def view split: if_splits)
qed

text \<open>The methods keep the references, the context, the key and the arena.\<close>

definition same_mac :: "mac \<Rightarrow> mac \<Rightarrow> bool" where
  "same_mac x y \<longleftrightarrow> m_mac y = m_mac x \<and> m_ctx y = m_ctx x \<and> m_key y = m_key x \<and> mac_refs y = mac_refs x
     \<and> (\<forall>w. mac_ok x w \<longrightarrow> mac_ok y w)"

lemma same_mac_err [simp]: "same_mac x x" "same_mac x (x\<lparr>m_err := e\<rparr>)" "same_mac x (x\<lparr>m_size := s, m_bs := b\<rparr>)"
  by (auto simp: same_mac_def mac_refs_def mac_ok_def split: option.splits)

lemma MAC_init_spec:
  assumes "mac_ok x w" "m_ctx x \<noteq> NULL"
  shows "wp (MAC_init x) (\<lambda>(y, r) w'. keeps w w' \<and> same_mac x y) w"
proof -
  obtain p where p: "m_p x = Some p" "arena_ok p" "set_mset (blocks (p_arena p)) \<subseteq> set_mset (owned w)"
    using assms by (auto simp: mac_ok_def split: option.splits)
  obtain p' ps where c: "p_c p = Inr (p', ps)" using p_c_arena [OF p(2)] by auto
  note ok = arena_ok_c [OF c p(2)]
  have same: "same_mac x (x\<lparr>m_p := Some p'\<rparr>)"
    using p ok by (auto simp: same_mac_def mac_refs_def mac_ok_def)
  have held: "\<forall>q\<in>set ps. \<forall>h\<in>param_handles q. h \<in># owned w" using ok(4) p(3) by blast
  show ?thesis
    using assms p(1) held same by (auto simp: MAC_init_def c mac_ok_def keeps_def intro!: vcg)
qed

lemmas wp_MAC_init [vcg] = wp_mono [OF MAC_init_spec]

definition same_mac_opt :: "mac \<Rightarrow> mac option \<Rightarrow> bool" where
  "same_mac_opt x m \<longleftrightarrow> (case m of None \<Rightarrow> False | Some y \<Rightarrow> same_mac x y)"

lemma same_mac_opt_simps [simp]: "same_mac_opt x (Some y) = same_mac x y"
  by (simp add: same_mac_opt_def)

lemma same_mac_latch: "same_mac x y \<Longrightarrow> same_mac x (y\<lparr>m_err := e\<rparr>)"
  by (auto simp: same_mac_def mac_refs_def mac_ok_def split: option.splits)

lemma mac_latch_spec: "wp (mac_latch x op b) (\<lambda>(m, r) w'. keeps w w' \<and> same_mac_opt x m) w"
  by (auto simp: mac_latch_def intro!: vcg)

lemmas wp_mac_latch [vcg] = wp_mono [OF mac_latch_spec]

lemma mac_methods:
  assumes "mac_ok x w"
  shows "wp (MAC_Write (Some x) b) (\<lambda>(m, r) w'. keeps w w' \<and> same_mac_opt x m) w"
    "wp (MAC_Sum (Some x) b) (\<lambda>(m, r) w'. keeps w w' \<and> same_mac_opt x m) w"
    "wp (MAC_Reset (Some x)) (\<lambda>(m, r) w'. keeps w w' \<and> same_mac_opt x m) w"
proof -
  show "wp (MAC_Write (Some x) b) (\<lambda>(m, r) w'. keeps w w' \<and> same_mac_opt x m) w"
    "wp (MAC_Sum (Some x) b) (\<lambda>(m, r) w'. keeps w w' \<and> same_mac_opt x m) w"
    using assms
    by (auto simp: MAC_Write_def MAC_Sum_def mac_final_def Let_def wp_defs keeps_def mac_ok_def intro!: vcg)
  show "wp (MAC_Reset (Some x)) (\<lambda>(m, r) w'. keeps w w' \<and> same_mac_opt x m) w"
    using assms by (auto simp: MAC_Reset_def intro!: vcg same_mac_latch split: sum.splits)
qed

lemma live_blocks_all: "NULL \<notin> set qs \<Longrightarrow> live_blocks qs = blocks qs"
  by (induction qs) (auto simp: live_blocks_def)

definition mac_wf :: "mac \<Rightarrow> bool" where
  "mac_wf x \<longleftrightarrow> (case m_p x of None \<Rightarrow> m_ctx x = NULL | Some p \<Rightarrow> arena_ok p)"

lemma mac_wf_ok: "mac_wf x \<Longrightarrow> mac_refs x \<subseteq># owned w \<Longrightarrow> mac_ok x w"
  by (auto simp: mac_wf_def mac_ok_def mac_refs_def arena_ok_def live_blocks_all held_def
      split: option.splits if_splits dest!: set_mset_mono)

text \<open>What a constructor promises: the new object and the references it holds, or nothing.\<close>

definition mac_made :: "handle multiset \<Rightarrow> byte list \<Rightarrow> world \<Rightarrow> err + mac \<Rightarrow> world \<Rightarrow> bool" where
  "mac_made M key w r w' \<longleftrightarrow> (case r of
      Inl e \<Rightarrow> is_panic e \<or> now_owns M w w'
    | Inr x \<Rightarrow> now_owns (M + mac_refs x) w w' \<and> m_ctx x \<noteq> NULL \<and> mac_wf x \<and> m_key x = key)"

lemma mac_made_simps [simp]:
  "mac_made M key w (Inl e) w' \<longleftrightarrow> is_panic e \<or> now_owns M w w'"
  "mac_made M key w (Inr x) w'
   \<longleftrightarrow> now_owns (M + mac_refs x) w w' \<and> m_ctx x \<noteq> NULL \<and> mac_wf x \<and> m_key x = key"
  by (simp_all add: mac_made_def)

lemma mac_made_after: "now_owns K w w1 \<Longrightarrow> mac_made M key w1 r w2 \<Longrightarrow> mac_made M key w r w2"
  by (auto simp: mac_made_def intro: now_owns_trans split: sum.splits)

lemma mac_made_free:
  "q \<noteq> NULL \<Longrightarrow> mac_made (add_mset (HMem, q) M) key w r w1 \<Longrightarrow> mac_made M key w r (push (Free HMem q) s w1)"
  by (auto simp: mac_made_def now_owns_def split: sum.splits)

lemma buildMAC_spec:
  assumes "arena_ok p" "m \<noteq> NULL" "ctx \<noteq> NULL"
    and own: "owned w = M + held HMacCtx ctx + held HMac m + blocks (p_arena p)"
  shows "wp (buildMAC m ctx key p) (mac_made M key w) w"
proof -
  let ?x = "\<lparr>m_mac = m, m_ctx = ctx, m_key = key, m_p = Some p, m_size = 0, m_bs = 0, m_err = None\<rparr>"
  have refs: "mac_refs ?x = held HMacCtx ctx + held HMac m + blocks (p_arena p)"
    using assms(1) by (simp add: mac_refs_def live_blocks_all arena_ok_def)
  have "mac_ok ?x w" using assms by (auto simp: mac_ok_def)
  show ?thesis
    unfolding buildMAC_def wp_bind
  proof (rule wp_mono [OF MAC_init_spec [OF \<open>mac_ok ?x w\<close>]], use assms in simp, clarify, goal_cases)
    case (1 y r w1)
    then have y: "mac_refs y = mac_refs ?x" "m_ctx y = ctx" "m_key y = key" "mac_ok y w1" "owned w1 = M + mac_refs y"
      "now_owns (owned w) w w1"
      using own refs \<open>mac_ok ?x w\<close> by (auto simp: same_mac_def keeps_now_owns now_owns_def mac_ok_def split: option.splits)
    show ?case
    proof (cases r)
      case (Inl e)
      then show ?thesis
        using y(6) by (auto intro!: wp_mono [OF MAC_Close_spec [OF y(5)]] intro: now_owns_trans)
    next
      case (Inr u)
      have c: "(HMacCtx, ctx) \<in># owned w1"
        using y(2,4) assms(3) by (auto simp: mac_ok_def split: option.splits)
      have n: "now_owns (M + mac_refs y) w w1" using y(5,6) own by (simp add: now_owns_def)
      have "mac_refs (y\<lparr>m_size := a, m_bs := b\<rparr>) = mac_refs y" "mac_wf (y\<lparr>m_size := a, m_bs := b\<rparr>)" for a b
        using y(4) by (auto simp: mac_refs_def mac_wf_def mac_ok_def split: option.splits)
      then show ?thesis
        using c n y(2,3) assms(3) by (auto simp: Inr now_owns_def intro!: wp_call)
    qed
  qed
qed

lemma fetchMAC_spec:
  assumes p: "arena_ok p" and own: "owned w = M + blocks (p_arena p)"
    and a: "ctx_live a w" and n: "calg = AStr q s" "q = NULL \<or> (HMem, q) \<in># owned w"
  shows "wp (fetchMAC a calg alg key p) (mac_made M key w) w"
proof -
  have N: "NULL \<notin> set (p_arena p)" using p by (simp add: arena_ok_def)
  have drop: "wp (drop_params p) (\<lambda>_ w2. \<forall>w3. keeps w2 w3 \<longrightarrow> now_owns M w w3) w1"
    if "now_owns (M + blocks (p_arena p)) w w1" for w1
    by (rule wp_mono [OF wp_drop_live [where M = M]])
      (use that N in \<open>auto simp: live_blocks_all now_owns_def keeps_def\<close>)
  have build: "wp (buildMAC m ctx key p) (mac_made M key w) w1"
    if "now_owns (M + held HMacCtx ctx + held HMac m + blocks (p_arena p)) w w1" "m \<noteq> NULL" "ctx \<noteq> NULL"
    for m ctx w1
    by (rule wp_mono [OF buildMAC_spec [OF p that(2,3)]])
      (use that in \<open>auto simp: now_owns_def intro: mac_made_after [OF that(1)]\<close>)
  show ?thesis
    unfolding fetchMAC_def
    using a n own by (auto simp: ctx_live_def now_owns_def [of "_ + _"] now_owns_def [of "add_mset _ _"] intro!: wp_call wp_mono [OF drop] build vcg)
qed

lemma newMAC_spec:
  assumes "arena_ok p" "owned w = M + blocks (p_arena p)" "\<And>a. c = Some a \<Longrightarrow> ctx_live a w"
  shows "wp (newMAC c alg key p) (mac_made M key w) w"
proof (cases c)
  case None
  show ?thesis
    unfolding newMAC_def None option.case wp_bind
    by (rule wp_mono [OF wp_drop_live]) (use assms(1,2) in \<open>auto simp: arena_ok_def live_blocks_all\<close>)
next
  case (Some a)
  have fetch: "wp (fetchMAC a (AStr q s) alg key p)
      (\<lambda>r w2. \<forall>s. mac_made M key w r (push (Free HMem q) s w2)) (push (New HMem f [] []) r w1)"
    if "keeps w w1" "q \<noteq> NULL" "rptr r = q" for q s f r w1
  proof (rule wp_mono [OF fetchMAC_spec [where M = "add_mset (HMem, q) M"]])
    fix r2 w2 assume "mac_made (add_mset (HMem, q) M) key (push (New HMem f [] []) r w1) r2 w2"
    moreover have "now_owns (owned (push (New HMem f [] []) r w1)) w (push (New HMem f [] []) r w1)"
      using that by (auto simp: now_owns_def keeps_def)
    ultimately show "\<forall>s. mac_made M key w r2 (push (Free HMem q) s w2)"
      using mac_made_free [OF that(2)] mac_made_after by blast
  qed (use assms that Some in \<open>auto simp: keeps_def ctx_live_def\<close>)
  show ?thesis
    unfolding newMAC_def Some option.case with_cstr_def
    by (auto intro!: vcg wp_mono [OF fetch])
qed

lemma handing_spec:
  assumes "psteps_ok ss" and c: "\<And>a. c = Some a \<Longrightarrow> ctx_live a w"
  shows "wp (handing ss (newMAC c alg key)) (mac_made (owned w) key w) w"
proof -
  obtain kvs where ss: "list_all2 pstep_ok ss kvs" using psteps_ok_all2 [OF assms(1)] by blast
  show ?thesis
  unfolding handing_def wp_bind
  proof (rule wp_p_stepsI [OF ss wf_newParams], goal_cases)
  case (1 p w1)
  then show ?case by simp
next
  case (2 p w1)
  have own: "owned w1 = owned w + blocks (p_arena p)" and n: "now_owns (owned w1) w w1"
    using 2(2) by (auto simp: grows_def now_owns_def)
  have live: "ctx_live a w1" if "c = Some a" for a
    using c [OF that] 2(2) by (auto simp: grows_def ctx_live_def)
  show ?case
    unfolding sum.case prod.case
    by (rule wp_mono [OF newMAC_spec [OF wf_arena_ok [OF 2(1)] own live]], assumption,
        erule mac_made_after [OF n])
  qed
qed

lemma build_oks: "psteps_ok (MACParams_build p)"
  by (simp add: MACParams_build_def split: option.splits)

lemma NewMAC_spec:
  assumes "\<And>a. c = Some a \<Longrightarrow> ctx_live a w"
  shows "wp (NewMAC c alg key p) (mac_made (owned w) key w) w"
    "wp (NewGMAC c cipher key iv) (mac_made (owned w) key w) w"
    "wp (NewHMAC c digest key) (mac_made (owned w) key w) w"
    "wp (NewCMAC c cipher key) (mac_made (owned w) key w) w"
    "wp (NewKMAC c bits key outLen custom) (mac_made (owned w) key w) w"
proof -
  have same: "now_owns (owned w) w w" by (simp add: now_owns_def)
  have M: "wp (NewMAC c alg key p) (mac_made (owned w) key w) w" for alg p
  proof (cases c)
    case (Some a)
    from handing_spec [OF build_oks [of p], of c w alg key] assms Some same show ?thesis
      by (auto simp: NewMAC_def)
  qed (simp add: NewMAC_def same)
  show "wp (NewMAC c alg key p) (mac_made (owned w) key w) w" by (rule M)
  show "wp (NewGMAC c cipher key iv) (mac_made (owned w) key w) w"
    using M same by (simp add: NewGMAC_def)
  show "wp (NewHMAC c digest key) (mac_made (owned w) key w) w"
    unfolding NewHMAC_def by (rule handing_spec [OF _ assms]) simp
  show "wp (NewCMAC c cipher key) (mac_made (owned w) key w) w"
    unfolding NewCMAC_def by (rule handing_spec [OF _ assms]) simp
  show "wp (NewKMAC c bits key outLen custom) (mac_made (owned w) key w) w"
    unfolding NewKMAC_def by (rule handing_spec [OF _ assms]) simp
qed

lemma mac_run_keeps:
  assumes "mac_ok x w"
  shows "wp (stream_run MAC_Write MAC_Sum MAC_Reset ops (Some x)) (\<lambda>_ w'. keeps w w') w"
proof (rule stream_run_keeps [where J = "\<lambda>m w. case m of None \<Rightarrow> False | Some y \<Rightarrow> mac_ok y w"])
  have later: "case m of None \<Rightarrow> False | Some z \<Rightarrow> mac_ok z w'"
    if "mac_ok y w" "keeps w w'" "same_mac_opt y m" for y m w w'
  proof -
    have "mac_ok y w'" using that(1,2) by (auto simp: mac_ok_def keeps_def split: option.splits)
    then show ?thesis using that(3) by (auto simp: same_mac_opt_def same_mac_def split: option.splits)
  qed
  show "wp (MAC_Write m b) (\<lambda>(t, r) w'. keeps w w' \<and> (case t of None \<Rightarrow> False | Some y \<Rightarrow> mac_ok y w')) w"
    "wp (MAC_Sum m b) (\<lambda>(t, r) w'. keeps w w' \<and> (case t of None \<Rightarrow> False | Some y \<Rightarrow> mac_ok y w')) w"
    "wp (MAC_Reset m) (\<lambda>(t, r) w'. keeps w w' \<and> (case t of None \<Rightarrow> False | Some y \<Rightarrow> mac_ok y w')) w"
    if "case m of None \<Rightarrow> False | Some y \<Rightarrow> mac_ok y w" for m b w
    using that
    by (auto split: option.splits intro!: wp_mono [OF mac_methods(1)] wp_mono [OF mac_methods(2)]
        wp_mono [OF mac_methods(3)] dest: later)
qed (use assms in simp)

definition mac_uses :: "stream_op list \<Rightarrow> mac \<Rightarrow> unit go" where
  "mac_uses ops x = do { stream_run MAC_Write MAC_Sum MAC_Reset ops (Some x); ok () }"

text \<open>
  An HMAC made, written to, summed and reset in any order and closed twice leaves the C
  references of the process as they were, its parameter array included; no call uses or
  releases a reference that is not held. Only a panic, which ends the process, may leave
  something behind.
\<close>

theorem MAC_lifecycle:
  assumes "ctx_live c w"
  shows "wp (session (NewHMAC (Some c) digest key) (mac_uses ops) MAC_Close) (balanced w) w"
proof (rule mac.session_balanced [where I = mac_ok])
  show "wp (NewHMAC (Some c) digest key) (\<lambda>r w1. case r of Inl e \<Rightarrow> is_panic e \<or> keeps w w1
      | Inr x \<Rightarrow> gains (mac_refs x) w w1 \<and> \<not> mac_closed x \<and> mac_ok x w1) w"
    by (rule wp_mono [OF NewMAC_spec(3)])
      (use assms in \<open>auto simp: mac_made_def keeps_now_owns now_owns_def gains_def mac_closed_def
        intro!: mac_wf_ok split: sum.splits\<close>)
  show "neutral_op (mac_ok x) (mac_uses ops x)" for x
    by (auto simp: mac_uses_def neutral_op_def intro!: wp_mono [OF mac_run_keeps])
qed

lemma MAC_lifecycle_witness:
  "wp (session (NewHMAC (Some Default) ''SHA2-256'' [1]) (mac_uses [SWrite [2], SSum [], SReset]) MAC_Close)
     (balanced (world_of lib_yes [])) (world_of lib_yes [])"
  by (rule MAC_lifecycle) (simp add: ctx_live_def)

section \<open>Refinement of the abstract stream\<close>

text \<open>
  What the MAC contexts of a library do, as EVP_MAC(3) documents: after the calls \<open>h\<close> the
  context \<open>p\<close> has a key, parameters and a message. \<open>EVP_MAC_init\<close> with a key sets all three, a
  duplicate has the state of the original and is none of the contexts held, and finalising
  writes \<open>G\<close> of the state. A call changes only the context it is made on.
\<close>

type_synonym mac_state = "byte list \<times> (string \<times> pval) list \<times> byte list"

abbreviation "mac_init_call x k ps \<equiv>
  Do ''EVP_MAC_init'' [(HMacCtx, x)] [ABytes k, AInt (c_size_t (go_len k)), AParams ps]"
abbreviation "mac_update_call x b \<equiv> Do ''EVP_MAC_update'' [(HMacCtx, x)] [ABytes b, AInt (c_size_t (go_len b))]"
abbreviation "mac_dup_call x \<equiv> New HMacCtx ''EVP_MAC_CTX_dup'' [(HMacCtx, x)] []"
abbreviation "mac_final_call x n \<equiv> Do ''EVP_MAC_final'' [(HMacCtx, x)] [AOut n]"

definition macs :: "(event list \<Rightarrow> ccall \<Rightarrow> cret) \<Rightarrow> (event list \<Rightarrow> ptr \<Rightarrow> mac_state)
    \<Rightarrow> (byte list \<Rightarrow> (string \<times> pval) list \<Rightarrow> byte list \<Rightarrow> byte list) \<Rightarrow> bool" where
  "macs L st G \<longleftrightarrow> (\<forall>h.
     (\<forall>c q. q \<notin> acts_on c (L h c) \<longrightarrow> st ((c, L h c) # h) q = st h q)
     \<and> (\<forall>x k ps. rc (L h (mac_init_call x k ps)) = 1
          \<and> st ((mac_init_call x k ps, L h (mac_init_call x k ps)) # h) x = (k, param_view ps, []))
     \<and> (\<forall>x b. rc (L h (mac_update_call x b)) = 1
          \<and> st ((mac_update_call x b, L h (mac_update_call x b)) # h) x
            = (case st h x of (k, kvs, m) \<Rightarrow> (k, kvs, m @ b)))
     \<and> (\<forall>x. rptr (L h (mac_dup_call x)) \<noteq> NULL \<and> (HMacCtx, rptr (L h (mac_dup_call x))) \<notin># owned_of h
          \<and> st ((mac_dup_call x, L h (mac_dup_call x)) # h) (rptr (L h (mac_dup_call x))) = st h x)
     \<and> (\<forall>x n. rc (L h (mac_final_call x n)) = 1
          \<and> rbuf (L h (mac_final_call x n)) = (case st h x of (k, kvs, m) \<Rightarrow> G k kvs m)
          \<and> rlen (L h (mac_final_call x n)) = go_len (case st h x of (k, kvs, m) \<Rightarrow> G k kvs m)))"

lemma macsD:
  assumes "macs L st G"
  shows "q \<notin> acts_on c (L h c) \<Longrightarrow> st ((c, L h c) # h) q = st h q"
    and "rc (L h (mac_init_call x k ps)) = 1"
    and "st ((mac_init_call x k ps, L h (mac_init_call x k ps)) # h) x = (k, param_view ps, [])"
    and "rc (L h (mac_update_call x b)) = 1"
    and "st ((mac_update_call x b, L h (mac_update_call x b)) # h) x = (case st h x of (k, kvs, m) \<Rightarrow> (k, kvs, m @ b))"
    and "rptr (L h (mac_dup_call x)) \<noteq> NULL" "(HMacCtx, rptr (L h (mac_dup_call x))) \<notin># owned_of h"
    and "st ((mac_dup_call x, L h (mac_dup_call x)) # h) (rptr (L h (mac_dup_call x))) = st h x"
    and "rc (L h (mac_final_call x n)) = 1"
    and "rbuf (L h (mac_final_call x n)) = (case st h x of (k, kvs, m) \<Rightarrow> G k kvs m)"
    and "rlen (L h (mac_final_call x n)) = go_len (case st h x of (k, kvs, m) \<Rightarrow> G k kvs m)"
  using assms unfolding macs_def by blast+

definition sum_size :: "mac \<Rightarrow> int" where
  "sum_size x = (if m_size x \<le> 0 then 64 else m_size x)"

lemma sum_size_nonneg [simp]: "0 \<le> sum_size x"
  by (simp add: sum_size_def)

text \<open>The context carries the key and the parameters of the object, and its tags fit.\<close>

definition mac_ready :: "(event list \<Rightarrow> ptr \<Rightarrow> mac_state) \<Rightarrow> (byte list \<Rightarrow> (string \<times> pval) list \<Rightarrow> byte list \<Rightarrow> byte list)
    \<Rightarrow> byte list \<Rightarrow> (string \<times> pval) list \<Rightarrow> mac option \<Rightarrow> world \<Rightarrow> bool" where
  "mac_ready st G k kvs m w \<longleftrightarrow> (case m of None \<Rightarrow> False | Some x \<Rightarrow>
     m_ctx x \<noteq> NULL \<and> (HMacCtx, m_ctx x) \<in># owned w \<and> m_key x = k \<and> k \<noteq> []
     \<and> (case m_p x of None \<Rightarrow> False | Some p \<Rightarrow> arena_ok p \<and> param_view (p_list p) = kvs)
     \<and> (\<exists>msg. st (hist w) (m_ctx x) = (k, kvs, msg))
     \<and> (\<forall>msg. go_len (G k kvs msg) \<le> sum_size x) \<and> macs (lib w) st G)"

definition mac_msg :: "(event list \<Rightarrow> ptr \<Rightarrow> mac_state) \<Rightarrow> mac option \<Rightarrow> world \<Rightarrow> byte list" where
  "mac_msg st m w = (case m of None \<Rightarrow> [] | Some x \<Rightarrow> snd (snd (st (hist w) (m_ctx x))))"

interpretation mac: streaming MAC_Write MAC_Sum MAC_Reset "mac_ready st G k kvs" "mac_msg st" "G k kvs"
  for st G k kvs
proof (unfold_locales, goal_cases)
  case (1 m w b)
  then show ?case
    by (auto simp: mac_ready_def mac_msg_def MAC_Write_def wp_call_eq macsD split: option.splits)
next
  case (2 m w b)
  then obtain x where m: "m = Some x" by (auto simp: mac_ready_def split: option.splits)
  with 2 have x: "m_ctx x \<noteq> NULL" "(HMacCtx, m_ctx x) \<in># owned w" and D: "macs (lib w) st G"
    and fits: "\<And>msg. go_len (G k kvs msg) \<le> sum_size x"
    by (auto simp: mac_ready_def)
  obtain msg where s: "st (hist w) (m_ctx x) = (k, kvs, msg)" using 2 m by (auto simp: mac_ready_def)
  have ne: "rptr (lib w (hist w) (mac_dup_call (m_ctx x))) \<noteq> m_ctx x"
    using x(2) macsD(7) [OF D, of "hist w" "m_ctx x"] by (auto simp: owned_def)
  show ?case
    using ne x 2 fits [of msg] unfolding m
    by (simp add: mac_ready_def mac_msg_def MAC_Sum_def mac_final_def wp_call_eq macsD [OF D] s slice_to_def
        flip: sum_size_def)
next
  case (3 m w)
  then obtain x p where m: "m = Some x" and p: "m_p x = Some p" "arena_ok p" "param_view (p_list p) = kvs"
    by (auto simp: mac_ready_def split: option.splits)
  obtain p' ps where c: "p_c p = Inr (p', ps)" using p_c_arena [OF p(2)] by auto
  note ok = arena_ok_c [OF c p(2)]
  have view: "param_view (p_list p') = param_view ps"
    using c by (auto simp: p_c_def Let_def split: if_splits)
  show ?case
    using 3 ok p view unfolding m
    by (auto simp: mac_ready_def mac_msg_def MAC_Reset_def MAC_init_def c wp_call_eq macsD sum_size_def)
qed


text \<open>A library whose tag is the first byte of the key and the first byte of the message.\<close>

fun toy_mac :: "event list \<Rightarrow> ptr \<Rightarrow> mac_state" where
  "toy_mac [] = (\<lambda>_. ([5], [], []))"
| "toy_mac ((Do f ((k, x) # hs) as, r) # h) = (toy_mac h)(x :=
     if f = ''EVP_MAC_init'' then (case as of ABytes k # _ # AParams ps # _ \<Rightarrow> (k, param_view ps, []) | _ \<Rightarrow> toy_mac h x)
     else if f = ''EVP_MAC_update''
     then (case as of ABytes b # _ \<Rightarrow> (case toy_mac h x of (k, kvs, m) \<Rightarrow> (k, kvs, m @ b)) | _ \<Rightarrow> toy_mac h x)
     else toy_mac h x)"
| "toy_mac ((New k f ((k2, x) # hs) as, r) # h) =
     (if f = ''EVP_MAC_CTX_dup'' then (toy_mac h)(rptr r := toy_mac h x) else toy_mac h)"
| "toy_mac (e # h) = toy_mac h"

definition toy_tag :: "byte list \<Rightarrow> (string \<times> pval) list \<Rightarrow> byte list \<Rightarrow> byte list" where
  "toy_tag k kvs m = take 1 k @ take 1 m"

definition lib_mac :: "event list \<Rightarrow> ccall \<Rightarrow> cret" where
  "lib_mac h c = (case c of
     New k f hs as \<Rightarrow> (yes h)\<lparr>rptr := fresh_ptr h\<rparr>
   | Do f hs as \<Rightarrow> if f = ''EVP_MAC_final''
       then let t = (case toy_mac h (snd (hd hs)) of (k, kvs, m) \<Rightarrow> toy_tag k kvs m)
         in (yes h)\<lparr>rbuf := t, rlen := go_len t\<rparr>
       else yes h
   | _ \<Rightarrow> yes h)"

lemma toy_mac_acts: "q \<notin> acts_on c r \<Longrightarrow> toy_mac ((c, r) # h) q = toy_mac h q"
  by (cases "(c, r) # h" rule: toy_mac.cases) auto

lemma lib_mac_macs: "macs lib_mac toy_mac toy_tag"
  unfolding macs_def
  by (auto simp: lib_mac_def toy_mac_acts fresh_ptr_fresh fresh_ptr_pos yes_def Let_def)

definition demo_mac :: mac where
  "demo_mac = \<lparr>m_mac = 2, m_ctx = 3, m_key = [5], m_p = Some \<lparr>p_list = [ParamEnd], p_arena = [], p_ended = True, p_freed = False\<rparr>,
     m_size = 2, m_bs = 64, m_err = None\<rparr>"


section \<open>Comparing tags\<close>

lemma xor_zero: "a XOR b = 0 \<longleftrightarrow> a = (b :: byte)"
  by (metis xor.assoc xor.right_neutral xor_self_eq)

lemma fold_or_zero:
  "fold (\<lambda>(a, b) v. v OR (a XOR b)) ps (v :: byte) = 0 \<longleftrightarrow> v = 0 \<and> (\<forall>(a, b) \<in> set ps. a = b)"
  by (induction ps arbitrary: v) (auto simp: or_eq_0_iff xor_zero)

text \<open>
  \<open>EqualMAC\<close>, the constant-time comparison that collects all differences, is equality of the
  tags; tags of different lengths are different.
\<close>

theorem EqualMAC_iff: "EqualMAC a b \<longleftrightarrow> a = b"
proof -
  have "length a = length b \<Longrightarrow> (\<forall>(x, y) \<in> set (zip a b). x = y) \<longleftrightarrow> a = b"
    by (induction a b rule: list_induct2) auto
  then show ?thesis by (auto simp: EqualMAC_def ConstantTimeCompare_def fold_or_zero)
qed

end
