(* ===== verification/Store.thy ===== *)
theory Store
  imports Asym Cipher_Sym
begin

text \<open>
  store.go: keys loaded from a URI and the listing of what a URI holds. Both iterate over the
  objects of a store until the library reports its end, which it need not ever do.
\<close>

section \<open>Loops\<close>

text \<open>A \<open>for\<close> loop: the body goes on with a new state or leaves with a result.\<close>

definition go_loop :: "('s \<Rightarrow> (world, 's + (err + 'b)) state) \<Rightarrow> 's \<Rightarrow> 'b go" where
  "go_loop body s = State (\<lambda>w. case while_option (\<lambda>(r, w). isl r) (\<lambda>(r, w). run_state (body (projl r)) w) (Inl s, w) of
     None \<Rightarrow> (Inl Diverged, w) | Some (r, w') \<Rightarrow> (projr r, w'))"

lemma wp_go_loop:
  assumes body: "\<And>s w. I s w \<Longrightarrow> wp (body s) (\<lambda>r w'. case r of Inl t \<Rightarrow> I t w' | Inr x \<Rightarrow> Q x w') w"
    and "I s w" "Q (Inl Diverged) w"
  shows "wp (go_loop body s) Q w"
proof (cases "while_option (\<lambda>(r, w). isl r) (\<lambda>(r, w). run_state (body (projl r)) w) (Inl s, w)")
  case None
  with assms(3) show ?thesis by (simp add: wp_def go_loop_def)
next
  case (Some t)
  obtain r w' where t: "t = (r, w')" by force
  have "case t of (r, w') \<Rightarrow> (case r of Inl u \<Rightarrow> I u w' | Inr x \<Rightarrow> Q x w')"
    by (rule while_option_rule [OF _ Some])
      (use assms(2) in \<open>auto split: sum.splits simp: isl_def dest!: body simp: wp_def\<close>)
  moreover have "\<not> isl r" using while_option_stop [OF Some] t by simp
  ultimately show ?thesis
    using Some t by (auto simp: wp_def go_loop_def split: sum.splits)
qed

text \<open>The runs of a loop that end, turn by turn.\<close>

inductive ends :: "('s \<Rightarrow> (world, 's + (err + 'b)) state) \<Rightarrow> 's \<Rightarrow> world \<Rightarrow> err + 'b \<Rightarrow> world \<Rightarrow> bool"
  for body where
  leave: "run_state (body s) w = (Inr x, w') \<Longrightarrow> ends body s w x w'"
| go_on: "run_state (body s) w = (Inl t, w1) \<Longrightarrow> ends body t w1 x w' \<Longrightarrow> ends body s w x w'"

lemma ends_while:
  "ends body s w x w' \<Longrightarrow>
   while_option (\<lambda>(r, w). isl r) (\<lambda>(r, w). run_state (body (projl r)) w) (Inl s, w) = Some (Inr x, w')"
proof (induction rule: ends.induct)
  case (leave s w x w')
  then show ?case by (subst while_option_unfold) (simp add: while_option_unfold)
next
  case (go_on s w t w1 x w')
  then show ?case by (subst while_option_unfold) simp
qed

lemma ends_run: "ends body s w x w' \<Longrightarrow> run_state (go_loop body s) w = (x, w')"
  by (simp add: go_loop_def ends_while)

section \<open>Operations\<close>

definition StoreUnknown :: int where "StoreUnknown = 0"
definition StorePrivateKey :: int where "StorePrivateKey = 1"
definition StorePublicKey :: int where "StorePublicKey = 2"
definition StoreCertificate :: int where "StoreCertificate = 3"

definition StoreObjectType_String :: "int \<Rightarrow> string" where
  "StoreObjectType_String t = (if t = StorePrivateKey then ''private key''
     else if t = StorePublicKey then ''public key''
     else if t = StoreCertificate then ''certificate'' else ''unknown'')"

text \<open>Constants of openssl/store.h.\<close>

definition OSSL_STORE_INFO_NAME :: int where "OSSL_STORE_INFO_NAME = 1"
definition OSSL_STORE_INFO_PUBKEY :: int where "OSSL_STORE_INFO_PUBKEY = 3"
definition OSSL_STORE_INFO_PKEY :: int where "OSSL_STORE_INFO_PKEY = 4"
definition OSSL_STORE_INFO_CERT :: int where "OSSL_STORE_INFO_CERT = 5"

lemmas store_consts = OSSL_STORE_INFO_NAME_def OSSL_STORE_INFO_PUBKEY_def OSSL_STORE_INFO_PKEY_def OSSL_STORE_INFO_CERT_def

definition store_eof :: "ptr \<Rightarrow> (world, bool) state" where
  "store_eof s = do { e \<leftarrow> call (Do ''OSSL_STORE_eof'' [(HStore, s)] []); ret (rc e = 1) }"

text \<open>
  One turn of either loop: the end, an error that is not the end, or an object that is read by
  \<open>rd\<close> and released.
\<close>

definition store_turn ::
  "ptr \<Rightarrow> (err + 'b) \<Rightarrow> (ptr \<Rightarrow> (world, 'c) state) \<Rightarrow> ('c \<Rightarrow> 's + (err + 'b)) \<Rightarrow> (world, 's + (err + 'b)) state" where
  "store_turn s ended rd go_on = do {
     e \<leftarrow> store_eof s;
     if e then ret (Inr ended)
     else do {
       info \<leftarrow> new HStoreInfo ''OSSL_STORE_load'' [(HStore, s)] [];
       if info = NULL then do {
         e \<leftarrow> store_eof s;
         if e then ret (Inr ended) else do { x \<leftarrow> newError ''OSSL_STORE_load''; ret (Inr (Inl x)) }
       }
       else do {
         x \<leftarrow> rd info;
         free HStoreInfo info;
         ret (go_on x)
       }
     }
   }"

definition info_key :: "ptr \<Rightarrow> (world, ptr) state" where
  "info_key info = do {
     t \<leftarrow> call (Do ''OSSL_STORE_INFO_get_type'' [(HStoreInfo, info)] []);
     if rc t = OSSL_STORE_INFO_PKEY then new HPkey ''OSSL_STORE_INFO_get1_PKEY'' [(HStoreInfo, info)] []
     else if rc t = OSSL_STORE_INFO_PUBKEY then new HPkey ''OSSL_STORE_INFO_get1_PUBKEY'' [(HStoreInfo, info)] []
     else ret NULL
   }"

text \<open>The open store both operations iterate over, closed at the end.\<close>

definition with_store :: "cref option \<Rightarrow> string \<Rightarrow> (cref \<Rightarrow> ptr \<Rightarrow> 'a go) \<Rightarrow> 'a go" where
  "with_store c uri m = (case c of None \<Rightarrow> fail ErrClosed | Some a \<Rightarrow>
     if uri = [] then fail (Errorf ''ossl: empty store URI'' [])
     else do {
       clearErrors;
       with_cstr uri (\<lambda>curi. do {
         cp \<leftarrow> Context_ptr a;
         s \<leftarrow> new HStore ''OSSL_STORE_open_ex'' [(HLibCtx, cp)] [curi, ANull, ANull, ANull, ANull, ANull, ANull];
         if s = NULL then failE (''OSSL_STORE_open_ex('' @ uri @ '')'')
         else deferring (free HStore s) (m a s)
       })
     })"

definition key_loop :: "ptr \<Rightarrow> err \<Rightarrow> cref \<Rightarrow> key go" where
  "key_loop s e a = go_loop (\<lambda>u. store_turn s (Inl e) info_key
     (\<lambda>p. if p \<noteq> NULL then Inr (Inr \<lparr>k_pkey = p, k_ctx = Some a\<rparr>) else Inl u)) ()"

definition loadKey :: "cref option \<Rightarrow> string \<Rightarrow> int \<Rightarrow> string \<Rightarrow> key go" where
  "loadKey c uri expect what = with_store c uri (\<lambda>a s. do {
     r \<leftarrow> call (Do ''OSSL_STORE_expect'' [(HStore, s)] [AInt expect]);
     if rc r \<noteq> 1 then failE ''OSSL_STORE_expect''
     else key_loop s (Errorf ''ossl: no %s found at %s'' [FStr what, FStr uri]) a
   })"

definition LoadKey :: "cref option \<Rightarrow> string \<Rightarrow> key go" where
  "LoadKey c uri = loadKey c uri OSSL_STORE_INFO_PKEY ''private key''"

definition LoadPublicKey :: "cref option \<Rightarrow> string \<Rightarrow> key go" where
  "LoadPublicKey c uri = loadKey c uri OSSL_STORE_INFO_PUBKEY ''public key''"

record StoreObject =
  st_Type :: int
  st_Name :: string

definition info_object :: "ptr \<Rightarrow> (world, StoreObject) state" where
  "info_object info = do {
     t \<leftarrow> call (Do ''OSSL_STORE_INFO_get_type'' [(HStoreInfo, info)] []);
     if rc t = OSSL_STORE_INFO_PKEY then ret \<lparr>st_Type = StorePrivateKey, st_Name = []\<rparr>
     else if rc t = OSSL_STORE_INFO_PUBKEY then ret \<lparr>st_Type = StorePublicKey, st_Name = []\<rparr>
     else if rc t = OSSL_STORE_INFO_CERT then ret \<lparr>st_Type = StoreCertificate, st_Name = []\<rparr>
     else if rc t = OSSL_STORE_INFO_NAME then do {
       n \<leftarrow> call (Do ''OSSL_STORE_INFO_get0_NAME'' [(HStoreInfo, info)] []);
       ret \<lparr>st_Type = StoreUnknown, st_Name = rstr n\<rparr>
     }
     else ret \<lparr>st_Type = StoreUnknown, st_Name = []\<rparr>
   }"

definition list_loop :: "ptr \<Rightarrow> (StoreObject list) go" where
  "list_loop s = go_loop (\<lambda>out. store_turn s (Inr out) info_object (\<lambda>x. Inl (out @ [x]))) []"

definition ListStore :: "cref option \<Rightarrow> string \<Rightarrow> (StoreObject list) go" where
  "ListStore c uri = with_store c uri (\<lambda>a s. list_loop s)"

section \<open>Ownership\<close>

lemma wp_store_turn:
  assumes "(HStore, s) \<in># owned w" "s \<noteq> NULL"
    and rd: "\<And>i w1. i \<noteq> NULL \<Longrightarrow> gains {#(HStoreInfo, i)#} w w1 \<Longrightarrow>
      wp (rd i) (\<lambda>x w'. gains (D x + {#(HStoreInfo, i)#}) w w') w1"
    and next_: "\<And>x w'. gains (D x) w w' \<Longrightarrow> Q (go_on x) w'"
    and stop: "\<And>r w'. keeps w w' \<Longrightarrow> r = ended \<or> (\<exists>e. r = Inl e) \<Longrightarrow> Q (Inr r) w'"
  shows "wp (store_turn s ended rd go_on) Q w"
  using assms(1,2) unfolding store_turn_def store_eof_def
  by (auto intro!: vcg stop wp_mono [OF rd] next_ simp: eff_defs)


lemma info_key_spec:
  assumes "i \<noteq> NULL" "gains {#(HStoreInfo, i)#} w w1"
  shows "wp (info_key i) (\<lambda>p w'. gains (held HPkey p + {#(HStoreInfo, i)#}) w w') w1"
  using assms by (auto simp: info_key_def eff_defs held_def intro!: vcg)

lemma info_object_spec:
  assumes "i \<noteq> NULL" "gains {#(HStoreInfo, i)#} w w1"
  shows "wp (info_object i) (\<lambda>x w'. gains ({#} + {#(HStoreInfo, i)#}) w w') w1"
  using assms by (auto simp: info_object_def eff_defs intro!: vcg)

text \<open>The loops run under the assertion that the store is open.\<close>

definition store_open :: "world \<Rightarrow> ptr \<Rightarrow> world \<Rightarrow> bool" where
  "store_open w s w' \<longleftrightarrow> keeps w w' \<and> (HStore, s) \<in># owned w \<and> s \<noteq> NULL"

lemma key_loop_spec:
  assumes "(HStore, s) \<in># owned w" "s \<noteq> NULL"
  shows "wp (key_loop s e a) (key_out a w) w"
  unfolding key_loop_def
proof (rule wp_go_loop [where I = "\<lambda>_. store_open w s"])
  fix u w1 assume o: "store_open w s w1"
  have k: "keeps w w1" using o by (simp add: store_open_def)
  show "wp (store_turn s (Inl e) info_key (\<lambda>p. if p \<noteq> NULL then Inr (Inr \<lparr>k_pkey = p, k_ctx = Some a\<rparr>) else Inl u))
      (\<lambda>r w'. case r of Inl t \<Rightarrow> store_open w s w' | Inr x \<Rightarrow> key_out a w x w') w1"
    by (rule wp_store_turn [OF _ _ info_key_spec])
      (use o k in \<open>auto simp: store_open_def key_out_def key_refs_def eff_defs\<close>)
qed (use assms in \<open>simp_all add: store_open_def\<close>)

lemma list_loop_spec:
  assumes "(HStore, s) \<in># owned w" "s \<noteq> NULL"
  shows "wp (list_loop s) (\<lambda>_ w'. keeps w w') w"
  unfolding list_loop_def
proof (rule wp_go_loop [where I = "\<lambda>_. store_open w s"])
  fix out :: "StoreObject list" and w1 assume o: "store_open w s w1"
  have k: "keeps w w1" using o by (simp add: store_open_def)
  show "wp (store_turn s (Inr out) info_object (\<lambda>x. Inl (out @ [x])))
      (\<lambda>r w'. case r of Inl t \<Rightarrow> store_open w s w' | Inr x \<Rightarrow> keeps w w') w1"
    by (rule wp_store_turn [OF _ _ info_object_spec])
      (use o k in \<open>auto simp: store_open_def eff_defs\<close>)
qed (use assms in \<open>simp_all add: store_open_def\<close>)

text \<open>\<open>R\<close> is what the result holds: nothing beyond it is left once the store is closed.\<close>

lemma with_store_spec:
  assumes live: "\<And>a. c = Some a \<Longrightarrow> ctx_live a w" and R: "\<And>e. R (Inl e) = {#}"
    and m: "\<And>a s w1. c = Some a \<Longrightarrow> s \<noteq> NULL \<Longrightarrow> (HStore, s) \<in># owned w1 \<Longrightarrow>
      wp (m a s) (\<lambda>r w'. gains (R r) w1 w' \<and> P r) w1"
    and P: "\<And>e. P (Inl e)"
  shows "wp (with_store c uri m) (\<lambda>r w'. gains (R r) w w' \<and> P r) w"
proof (cases c)
  case (Some a)
  show ?thesis
    using live [OF Some] R P Some unfolding with_store_def
    by (auto simp: with_cstr_def ctx_live_def eff_defs intro!: vcg wp_mono [OF m [OF Some]])
qed (use R P in \<open>simp add: with_store_def fail_def eff_defs\<close>)

definition key_kept :: "err + key \<Rightarrow> handle multiset" where
  "key_kept r = (case r of Inl _ \<Rightarrow> {#} | Inr k \<Rightarrow> key_refs k)"

lemma loadKey_spec:
  assumes "\<And>a. c = Some a \<Longrightarrow> ctx_live a w"
  shows "wp (loadKey c uri expect what)
    (\<lambda>r w'. gains (key_kept r) w w' \<and> (\<forall>k. r = Inr k \<longrightarrow> k_ctx k = c)) w"
  unfolding loadKey_def
proof (rule with_store_spec [OF assms])
  fix a s w1 assume c: "c = Some a" and s: "s \<noteq> NULL" "(HStore, s) \<in># owned w1"
  have l: "wp (key_loop s e a) (\<lambda>r w'. gains (key_kept r) w w' \<and> (\<forall>k. r = Inr k \<longrightarrow> k_ctx k = c)) w2"
    if "keeps w w2" "(HStore, s) \<in># owned w2" for w w2 e
    by (rule wp_mono [OF key_loop_spec [OF that(2) s(1)]])
      (use that c in \<open>auto simp: key_out_def key_kept_def eff_defs split: sum.splits\<close>)
  have e: "keeps w1 (push (Do f [(HStore, s)] [AInt expect]) r w1)" "(HStore, s) \<in># owned (push (Do f [(HStore, s)] [AInt expect]) r w1)"
    for f r using s by (simp_all add: keeps_def)
  have f: "wp (failE op) (\<lambda>r w'. gains (key_kept r) w1 w' \<and> (\<forall>k. r = Inr k \<longrightarrow> k_ctx k = c)) w2"
    if "keeps w1 w2" for op w2
    using that by (auto simp: key_kept_def eff_defs intro!: vcg)
  show "wp (do {
      r \<leftarrow> call (Do ''OSSL_STORE_expect'' [(HStore, s)] [AInt expect]);
      if rc r \<noteq> 1 then failE ''OSSL_STORE_expect''
      else key_loop s (Errorf ''ossl: no %s found at %s'' [FStr what, FStr uri]) a
    }) (\<lambda>r w'. gains (key_kept r) w1 w' \<and> (\<forall>k. r = Inr k \<longrightarrow> k_ctx k = c)) w1"
    by (auto intro!: wp_call f l e)
qed (simp_all add: key_kept_def)

lemma ListStore_keeps:
  assumes "\<And>a. c = Some a \<Longrightarrow> ctx_live a w"
  shows "wp (ListStore c uri) (\<lambda>_ w'. keeps w w') w"
  unfolding ListStore_def
  by (rule wp_mono [OF with_store_spec [where R = "\<lambda>_. {#}" and P = "\<lambda>_. True", OF assms]])
    (auto intro!: wp_mono [OF list_loop_spec] simp: eff_defs)

section \<open>What is found\<close>

text \<open>
  The documented behaviour of a store: \<open>q\<close> are the objects it still has, \<open>d\<close> is what a loaded
  object says about itself. The end is reported when nothing is left, a load takes the first
  object, the accessors read it, and only loading consumes.
\<close>

record store_item =
  it_type :: int
  it_name :: string
  it_key :: ptr

abbreviation eof_call :: "ptr \<Rightarrow> ccall" where "eof_call s \<equiv> Do ''OSSL_STORE_eof'' [(HStore, s)] []"
abbreviation load_call :: "ptr \<Rightarrow> ccall" where "load_call s \<equiv> New HStoreInfo ''OSSL_STORE_load'' [(HStore, s)] []"
abbreviation info_call :: "string \<Rightarrow> ptr \<Rightarrow> ccall" where "info_call f i \<equiv> Do f [(HStoreInfo, i)] []"
abbreviation get1_call :: "string \<Rightarrow> ptr \<Rightarrow> ccall" where "get1_call f i \<equiv> New HPkey f [(HStoreInfo, i)] []"

definition store_holds ::
  "(event list \<Rightarrow> ccall \<Rightarrow> cret) \<Rightarrow> (event list \<Rightarrow> store_item list) \<Rightarrow> (event list \<Rightarrow> ptr \<Rightarrow> store_item) \<Rightarrow> bool" where
  "store_holds L q d \<longleftrightarrow> (\<forall>h s i n.
     (rc (L h (eof_call s)) = 1 \<longleftrightarrow> q h = []) \<and> q ((eof_call s, L h (eof_call s)) # h) = q h
   \<and> (q h \<noteq> [] \<longrightarrow> rptr (L h (load_call s)) \<noteq> NULL
        \<and> q ((load_call s, L h (load_call s)) # h) = tl (q h)
        \<and> d ((load_call s, L h (load_call s)) # h) (rptr (L h (load_call s))) = hd (q h))
   \<and> rc (L h (info_call ''OSSL_STORE_INFO_get_type'' i)) = it_type (d h i)
   \<and> rstr (L h (info_call ''OSSL_STORE_INFO_get0_NAME'' i)) = it_name (d h i)
   \<and> q ((info_call n i, L h (info_call n i)) # h) = q h
   \<and> d ((info_call n i, L h (info_call n i)) # h) = d h
   \<and> (n = ''OSSL_STORE_INFO_get1_PKEY'' \<or> n = ''OSSL_STORE_INFO_get1_PUBKEY'' \<longrightarrow>
        rptr (L h (get1_call n i)) = it_key (d h i) \<and> q ((get1_call n i, L h (get1_call n i)) # h) = q h)
   \<and> q ((Free HStoreInfo i, L h (Free HStoreInfo i)) # h) = q h)"

text \<open>
  There is memory for a C string, and opening \<open>uri\<close> gives a store of \<open>xs\<close>, of which any kind of
  object may be expected.
\<close>

definition opens ::
  "(event list \<Rightarrow> ccall \<Rightarrow> cret) \<Rightarrow> (event list \<Rightarrow> store_item list) \<Rightarrow> string \<Rightarrow> store_item list \<Rightarrow> bool" where
  "opens L q uri xs \<longleftrightarrow> (\<forall>h hs p as s n.
     rptr (L h (New HMem ''C.CString'' [] [])) \<noteq> NULL
   \<and> rptr (L h (New HStore ''OSSL_STORE_open_ex'' hs (AStr p (c_string uri) # as))) \<noteq> NULL
   \<and> q ((New HStore ''OSSL_STORE_open_ex'' hs (AStr p (c_string uri) # as),
         L h (New HStore ''OSSL_STORE_open_ex'' hs (AStr p (c_string uri) # as))) # h) = xs
   \<and> rc (L h (Do ''OSSL_STORE_expect'' [(HStore, s)] [AInt n])) = 1
   \<and> q ((Do ''OSSL_STORE_expect'' [(HStore, s)] [AInt n], L h (Do ''OSSL_STORE_expect'' [(HStore, s)] [AInt n])) # h) = q h)"

lemma store_holdsD:
  assumes "store_holds L q d"
  shows "rc (L h (eof_call s)) = 1 \<longleftrightarrow> q h = []"
    and "q ((eof_call s, L h (eof_call s)) # h) = q h"
    and "q h \<noteq> [] \<Longrightarrow> rptr (L h (load_call s)) \<noteq> NULL"
    and "q h \<noteq> [] \<Longrightarrow> q ((load_call s, L h (load_call s)) # h) = tl (q h)"
    and "q h \<noteq> [] \<Longrightarrow> d ((load_call s, L h (load_call s)) # h) (rptr (L h (load_call s))) = hd (q h)"
    and "rc (L h (info_call ''OSSL_STORE_INFO_get_type'' i)) = it_type (d h i)"
    and "rstr (L h (info_call ''OSSL_STORE_INFO_get0_NAME'' i)) = it_name (d h i)"
    and "q ((info_call n i, L h (info_call n i)) # h) = q h"
    and "d ((info_call n i, L h (info_call n i)) # h) = d h"
    and "rptr (L h (get1_call ''OSSL_STORE_INFO_get1_PKEY'' i)) = it_key (d h i)"
    and "rptr (L h (get1_call ''OSSL_STORE_INFO_get1_PUBKEY'' i)) = it_key (d h i)"
    and "q ((get1_call ''OSSL_STORE_INFO_get1_PKEY'' i, L h (get1_call ''OSSL_STORE_INFO_get1_PKEY'' i)) # h) = q h"
    and "q ((get1_call ''OSSL_STORE_INFO_get1_PUBKEY'' i, L h (get1_call ''OSSL_STORE_INFO_get1_PUBKEY'' i)) # h) = q h"
    and "q ((Free HStoreInfo i, L h (Free HStoreInfo i)) # h) = q h"
  using assms unfolding store_holds_def by blast+

definition object_of :: "store_item \<Rightarrow> StoreObject" where
  "object_of x = \<lparr>st_Type = (if it_type x = OSSL_STORE_INFO_PKEY then StorePrivateKey
      else if it_type x = OSSL_STORE_INFO_PUBKEY then StorePublicKey
      else if it_type x = OSSL_STORE_INFO_CERT then StoreCertificate else StoreUnknown),
    st_Name = (if it_type x = OSSL_STORE_INFO_NAME then it_name x else [])\<rparr>"

definition is_key :: "store_item \<Rightarrow> bool" where
  "is_key x \<longleftrightarrow> (it_type x = OSSL_STORE_INFO_PKEY \<or> it_type x = OSSL_STORE_INFO_PUBKEY) \<and> it_key x \<noteq> NULL"

text \<open>What a turn does on such a store, for any reader of the object.\<close>

lemma run_store_turn:
  assumes S: "store_holds L q d"
    and rd: "\<And>i w. lib w = L \<Longrightarrow> q (hist w) = xs \<Longrightarrow> d (hist w) i = x \<Longrightarrow>
      \<exists>w'. run_state (rd i) w = (v, w') \<and> lib w' = L \<and> q (hist w') = xs"
    and w: "lib w = L" "q (hist w) = x # xs"
  shows "\<exists>w'. run_state (store_turn s ended rd go_on) w = (go_on v, w') \<and> lib w' = L \<and> q (hist w') = xs"
proof -
  note H = store_holdsD [OF S]
  let ?e = "push (eof_call s) (L (hist w) (eof_call s)) w"
  let ?l = "push (load_call s) (L (hist ?e) (load_call s)) ?e"
  let ?i = "rptr (L (hist ?e) (load_call s))"
  have i: "?i \<noteq> NULL" using w by (intro H) (simp add: H)
  obtain w' where r: "run_state (rd ?i) ?l = (v, w')" and w': "lib w' = L" "q (hist w') = xs"
    using rd [of ?l ?i] w by (auto simp: H)
  show ?thesis
    using i r w w' by (simp add: store_turn_def store_eof_def exec_simps H)
qed

lemma run_store_turn_end:
  assumes "store_holds L q d" "lib w = L" "q (hist w) = []"
  shows "\<exists>w'. run_state (store_turn s ended rd go_on) w = (Inr ended, w')"
  using assms(2,3) by (simp add: store_turn_def store_eof_def exec_simps store_holdsD [OF assms(1)])

lemma run_info_object:
  assumes "store_holds L q d" "lib w = L" "q (hist w) = xs" "d (hist w) i = x"
  shows "\<exists>w'. run_state (info_object i) w = (object_of x, w') \<and> lib w' = L \<and> q (hist w') = xs"
  using assms(2-4)
  by (auto simp: info_object_def object_of_def exec_simps store_consts store_holdsD [OF assms(1)])

lemma run_info_key:
  assumes "store_holds L q d" "lib w = L" "q (hist w) = xs" "d (hist w) i = x"
  shows "\<exists>w'. run_state (info_key i) w = (if is_key x then it_key x else NULL, w') \<and> lib w' = L \<and> q (hist w') = xs"
  using assms(2-4)
  by (auto simp: info_key_def is_key_def exec_simps store_consts store_holdsD [OF assms(1)])

lemma run_object_turn:
  assumes "store_holds L q d" "lib w = L" "q (hist w) = x # xs"
  shows "\<exists>w'. run_state (store_turn s ended info_object g) w = (g (object_of x), w') \<and> lib w' = L \<and> q (hist w') = xs"
  by (rule run_store_turn [OF assms(1) _ assms(2,3)]) (rule run_info_object [OF assms(1)])

lemma run_key_turn:
  assumes "store_holds L q d" "lib w = L" "q (hist w) = x # xs"
  shows "\<exists>w'. run_state (store_turn s ended info_key g) w = (g (if is_key x then it_key x else NULL), w')
    \<and> lib w' = L \<and> q (hist w') = xs"
  by (rule run_store_turn [OF assms(1) _ assms(2,3)]) (rule run_info_key [OF assms(1)])

lemma list_loop_ends:
  assumes "store_holds L q d"
  shows "lib w = L \<Longrightarrow> q (hist w) = xs \<Longrightarrow>
    \<exists>w'. ends (\<lambda>out. store_turn s (Inr out) info_object (\<lambda>x. Inl (out @ [x]))) out w (Inr (out @ map object_of xs)) w'"
proof (induction xs arbitrary: out w)
  case Nil
  then show ?case using run_store_turn_end [OF assms] by (fastforce intro: ends.leave)
next
  case (Cons x xs)
  from run_object_turn [OF assms Cons.prems]
  obtain w1 where "run_state (store_turn s (Inr out) info_object (\<lambda>x. Inl (out @ [x]))) w = (Inl (out @ [object_of x]), w1)"
    and "lib w1 = L" "q (hist w1) = xs" by fast
  then show ?case using Cons.IH [of w1 "out @ [object_of x]"] by (auto intro: ends.go_on)
qed

text \<open>The first key among the objects; \<open>e\<close> when there is none.\<close>

definition first_key :: "err \<Rightarrow> cref \<Rightarrow> store_item list \<Rightarrow> err + key" where
  "first_key e a xs = (case filter is_key xs of [] \<Rightarrow> Inl e | x # _ \<Rightarrow> Inr \<lparr>k_pkey = it_key x, k_ctx = Some a\<rparr>)"

lemma key_loop_ends:
  assumes "store_holds L q d"
  shows "lib w = L \<Longrightarrow> q (hist w) = xs \<Longrightarrow>
    \<exists>w'. ends (\<lambda>u. store_turn s (Inl e) info_key
        (\<lambda>p. if p \<noteq> NULL then Inr (Inr \<lparr>k_pkey = p, k_ctx = Some a\<rparr>) else Inl u)) () w (first_key e a xs) w'"
    (is "_ \<Longrightarrow> _ \<Longrightarrow> \<exists>w'. ends ?b () w _ w'")
proof (induction xs arbitrary: w)
  case Nil
  have "\<exists>w'. run_state (?b ()) w = (Inr (Inl e), w')" by (rule run_store_turn_end [OF assms Nil])
  then show ?case by (auto simp: first_key_def intro: ends.leave)
next
  case (Cons x xs)
  from run_key_turn [OF assms Cons.prems]
  obtain w1 where r: "run_state (?b ()) w = ((\<lambda>p. if p \<noteq> NULL then Inr (Inr \<lparr>k_pkey = p, k_ctx = Some a\<rparr>) else Inl ())
        (if is_key x then it_key x else NULL), w1)"
    and w1: "lib w1 = L" "q (hist w1) = xs" by fast
  show ?case
  proof (cases "is_key x")
    case True
    then have "run_state (?b ()) w = (Inr (first_key e a (x # xs)), w1)"
      using r by (simp add: first_key_def is_key_def)
    then show ?thesis by (intro exI) (rule ends.leave)
  next
    case False
    with r have "run_state (?b ()) w = (Inl (), w1)" by simp
    with Cons.IH [OF w1] False show ?thesis by (auto simp: first_key_def intro: ends.go_on)
  qed
qed

lemma run_list_loop:
  assumes "store_holds L q d" "lib w = L" "q (hist w) = xs"
  shows "fst (run_state (list_loop s) w) = Inr (map object_of xs)"
proof -
  from list_loop_ends [OF assms, of s "[]"] obtain w'
    where "ends (\<lambda>out. store_turn s (Inr out) info_object (\<lambda>x. Inl (out @ [x]))) [] w (Inr (map object_of xs)) w'" by auto
  from ends_run [OF this] show ?thesis by (simp add: list_loop_def)
qed

lemma run_key_loop:
  assumes "store_holds L q d" "lib w = L" "q (hist w) = xs"
  shows "fst (run_state (key_loop s e a) w) = first_key e a xs"
  using key_loop_ends [OF assms, of s e a] ends_run by (fastforce simp: key_loop_def)

lemma run_with_store:
  assumes "opens L q uri xs" "lib w = L" "uri \<noteq> []"
    and m: "\<And>s w. lib w = L \<Longrightarrow> q (hist w) = xs \<Longrightarrow> fst (run_state (m a s) w) = v"
  shows "fst (run_state (with_store (Some a) uri m) w) = v"
proof -
  note opened = assms(1) [unfolded opens_def, rule_format]
  show ?thesis
    using assms(2,3)
    by (simp add: opened m with_store_def with_cstr_def run_clearErrors Context_ptr_def exec_simps case_prod_beta)
qed


lemma run_loadKey:
  assumes "opens (lib w) q uri xs" "store_holds (lib w) q d" "uri \<noteq> []"
  shows "fst (run_state (loadKey (Some a) uri n what) w)
    = first_key (Errorf ''ossl: no %s found at %s'' [FStr what, FStr uri]) a xs"
  unfolding loadKey_def
proof (rule run_with_store [OF assms(1) refl assms(3)])
  fix s and w' :: world assume w': "lib w' = lib w" "q (hist w') = xs"
  note o = assms(1) [unfolded opens_def, rule_format]
  show "fst (run_state (do {
      r \<leftarrow> call (Do ''OSSL_STORE_expect'' [(HStore, s)] [AInt n]);
      if rc r \<noteq> 1 then failE ''OSSL_STORE_expect''
      else key_loop s (Errorf ''ossl: no %s found at %s'' [FStr what, FStr uri]) a
    }) w') = first_key (Errorf ''ossl: no %s found at %s'' [FStr what, FStr uri]) a xs"
    using w' run_key_loop [OF assms(2), of "push (Do ''OSSL_STORE_expect'' [(HStore, s)] [AInt n])
        (lib w (hist w') (Do ''OSSL_STORE_expect'' [(HStore, s)] [AInt n])) w'"]
    by (simp add: exec_simps o)
qed


text \<open>A library with one URI, which holds a directory entry, a certificate, a key that stays in its token, and a key.\<close>

definition some_items :: "store_item list" where
  "some_items = [\<lparr>it_type = OSSL_STORE_INFO_NAME, it_name = ''file:a.pem'', it_key = NULL\<rparr>,
     \<lparr>it_type = OSSL_STORE_INFO_CERT, it_name = ''b'', it_key = NULL\<rparr>,
     \<lparr>it_type = OSSL_STORE_INFO_PKEY, it_name = ''c'', it_key = NULL\<rparr>,
     \<lparr>it_type = OSSL_STORE_INFO_PUBKEY, it_name = [], it_key = 77\<rparr>]"

fun items_left :: "event list \<Rightarrow> store_item list" where
  "items_left [] = []"
| "items_left ((New HStore _ _ _, _) # h) = some_items"
| "items_left ((New HStoreInfo _ _ _, _) # h) = tl (items_left h)"
| "items_left (_ # h) = items_left h"

fun last_item :: "event list \<Rightarrow> store_item" where
  "last_item [] = hd some_items"
| "last_item ((New HStoreInfo _ _ _, _) # h) = hd (items_left h)"
| "last_item (_ # h) = last_item h"

fun lib_store :: "event list \<Rightarrow> ccall \<Rightarrow> cret" where
  "lib_store h (Do f hs as) = (yes h)\<lparr>rc := (if f = ''OSSL_STORE_eof'' then if items_left h = [] then 1 else 0
     else if f = ''OSSL_STORE_INFO_get_type'' then it_type (last_item h) else 1), rstr := it_name (last_item h)\<rparr>"
| "lib_store h (New HPkey f hs as) = (yes h)\<lparr>rptr := it_key (last_item h)\<rparr>"
| "lib_store h c = yes h"

lemma lib_store_ok:
  "opens lib_store items_left uri some_items" "store_holds lib_store items_left (\<lambda>h i. last_item h)"
  by (simp_all add: opens_def store_holds_def yes_def)

lemma some_found:
  "map object_of some_items = [\<lparr>st_Type = StoreUnknown, st_Name = ''file:a.pem''\<rparr>,
     \<lparr>st_Type = StoreCertificate, st_Name = []\<rparr>, \<lparr>st_Type = StorePrivateKey, st_Name = []\<rparr>,
     \<lparr>st_Type = StorePublicKey, st_Name = []\<rparr>]"
  "first_key e a some_items = Inr \<lparr>k_pkey = 77, k_ctx = Some a\<rparr>"
  by (simp_all add: some_items_def object_of_def first_key_def is_key_def store_consts)



end
