(* ===== verification/Nocgo.thy ===== *)
theory Nocgo
  imports Capability Mac Store
begin

text \<open>
  nocgo.go: the whole package when it is built without C. Every operation is a stub; only what
  needs no C keeps working. The constructors name the functions and methods, with the arguments
  their stubs use.
\<close>

text \<open>
  What a stub returns: its error, with zero values beside it; nothing, or a nil error; or a value.
\<close>

datatype stub =
    Fails | Quiet | Text string | Number int | Says bool | Bytes "byte list" | Panics err

definition stub_error :: "stub \<Rightarrow> err option" where
  "stub_error s = (case s of Fails \<Rightarrow> Some ErrUnavailable | Panics e \<Rightarrow> Some e | _ \<Rightarrow> None)"

section \<open>The stubs, section by section\<close>

datatype version_api =
    ApiVersion | ApiBuildVersion | ApiVersionNumber | ApiAtLeast | ApiCheckVersion | ApiConfigDir
  | ApiModulesDir | ApiDefaultFIPSModuleConfig

fun version_stub :: "version_api \<Rightarrow> stub" where
  "version_stub ApiVersion = Text []"
| "version_stub ApiBuildVersion = Text []"
| "version_stub ApiVersionNumber = Number 0"
| "version_stub ApiAtLeast = Says False"
| "version_stub ApiCheckVersion = Fails"
| "version_stub ApiConfigDir = Text []"
| "version_stub ApiModulesDir = Text []"
| "version_stub ApiDefaultFIPSModuleConfig = Text []"

datatype context_api =
    ApiNewContext | ApiNewFIPSContext | ApiContextClose | ApiSetDefaultProperties | ApiLoadConfig
  | ApiEnableFIPS | ApiFIPSEnabled

fun context_stub :: "context_api \<Rightarrow> stub" where
  "context_stub ApiNewContext = Fails"
| "context_stub ApiNewFIPSContext = Fails"
| "context_stub ApiContextClose = Quiet"
| "context_stub ApiSetDefaultProperties = Fails"
| "context_stub ApiLoadConfig = Fails"
| "context_stub ApiEnableFIPS = Fails"
| "context_stub ApiFIPSEnabled = Says False"

datatype provider_api =
    ApiLoadProvider | ApiProviderAvailable | ApiProviders | ApiDigestAvailable | ApiCipherAvailable
  | ApiUnload | ApiSelfTest

fun provider_stub :: "provider_api \<Rightarrow> stub" where
  "provider_stub ApiLoadProvider = Fails"
| "provider_stub ApiProviderAvailable = Says False"
| "provider_stub ApiProviders = Fails"
| "provider_stub ApiDigestAvailable = Says False"
| "provider_stub ApiCipherAvailable = Says False"
| "provider_stub ApiUnload = Quiet"
| "provider_stub ApiSelfTest = Fails"

datatype hash_api =
    ApiNewHash | ApiHashWrite | ApiHashSum "byte list" | ApiSumXOF | ApiHashReset | ApiHashSize
  | ApiHashBlockSize | ApiHashName | ApiIsXOF | ApiHashErr | ApiHashClose | ApiDigest | ApiDigestXOF

fun hash_stub :: "hash_api \<Rightarrow> stub" where
  "hash_stub ApiNewHash = Fails"
| "hash_stub ApiHashWrite = Fails"
| "hash_stub (ApiHashSum b) = Bytes b"
| "hash_stub ApiSumXOF = Fails"
| "hash_stub ApiHashReset = Quiet"
| "hash_stub ApiHashSize = Number 0"
| "hash_stub ApiHashBlockSize = Number 0"
| "hash_stub ApiHashName = Text []"
| "hash_stub ApiIsXOF = Says False"
| "hash_stub ApiHashErr = Fails"
| "hash_stub ApiHashClose = Quiet"
| "hash_stub ApiDigest = Fails"
| "hash_stub ApiDigestXOF = Fails"

datatype mac_api =
    ApiNewHMAC | ApiNewCMAC | ApiNewKMAC | ApiMACWrite | ApiMACSum "byte list" | ApiMACReset
  | ApiMACSize | ApiMACBlockSize | ApiMACErr | ApiMACClose | ApiHMACSum

fun mac_stub :: "mac_api \<Rightarrow> stub" where
  "mac_stub ApiNewHMAC = Fails"
| "mac_stub ApiNewCMAC = Fails"
| "mac_stub ApiNewKMAC = Fails"
| "mac_stub ApiMACWrite = Fails"
| "mac_stub (ApiMACSum b) = Bytes b"
| "mac_stub ApiMACReset = Quiet"
| "mac_stub ApiMACSize = Number 0"
| "mac_stub ApiMACBlockSize = Number 0"
| "mac_stub ApiMACErr = Fails"
| "mac_stub ApiMACClose = Quiet"
| "mac_stub ApiHMACSum = Fails"

datatype kdf_api =
    ApiDeriveKDF | ApiHKDF | ApiHKDFExpand | ApiPBKDF2 | ApiArgon2id

fun kdf_stub :: "kdf_api \<Rightarrow> stub" where
  "kdf_stub ApiDeriveKDF = Fails"
| "kdf_stub ApiHKDF = Fails"
| "kdf_stub ApiHKDFExpand = Fails"
| "kdf_stub ApiPBKDF2 = Fails"
| "kdf_stub ApiArgon2id = Fails"

text \<open>\<open>Seal\<close> has no error to return.\<close>

datatype aead_api =
    ApiNewAEAD | ApiNonceSize | ApiOverhead | ApiAEADName | ApiSeal | ApiSealErr | ApiOpen
  | ApiAEADClose

fun aead_stub :: "aead_api \<Rightarrow> stub" where
  "aead_stub ApiNewAEAD = Fails"
| "aead_stub ApiNonceSize = Number 0"
| "aead_stub ApiOverhead = Number 0"
| "aead_stub ApiAEADName = Text []"
| "aead_stub ApiSeal = Panics ErrUnavailable"
| "aead_stub ApiSealErr = Fails"
| "aead_stub ApiOpen = Fails"
| "aead_stub ApiAEADClose = Quiet"

datatype key_api =
    ApiGenerateKey | ApiKeyType | ApiBits | ApiSecurityBits | ApiKeySize | ApiKeyClose | ApiPublic
  | ApiMarshalPKCS8 | ApiMarshalPKCS8PEM | ApiMarshalSEC1 | ApiMarshalSEC1PEM | ApiMarshalSPKI
  | ApiMarshalSPKIPEM | ApiMarshalRawPrivateKey | ApiMarshalRawPublicKey | ApiParsePKCS8PrivateKey
  | ApiParsePKCS8PrivateKeyPEM | ApiParseSEC1PrivateKey | ApiParseSEC1PrivateKeyPEM
  | ApiParseSPKIPublicKey | ApiParseSPKIPublicKeyPEM | ApiParseRawPrivateKey | ApiParseRawPublicKey

fun key_stub :: "key_api \<Rightarrow> stub" where
  "key_stub ApiGenerateKey = Fails"
| "key_stub ApiKeyType = Text []"
| "key_stub ApiBits = Number 0"
| "key_stub ApiSecurityBits = Number 0"
| "key_stub ApiKeySize = Number 0"
| "key_stub ApiKeyClose = Quiet"
| "key_stub ApiPublic = Fails"
| "key_stub ApiMarshalPKCS8 = Fails"
| "key_stub ApiMarshalPKCS8PEM = Fails"
| "key_stub ApiMarshalSEC1 = Fails"
| "key_stub ApiMarshalSEC1PEM = Fails"
| "key_stub ApiMarshalSPKI = Fails"
| "key_stub ApiMarshalSPKIPEM = Fails"
| "key_stub ApiMarshalRawPrivateKey = Fails"
| "key_stub ApiMarshalRawPublicKey = Fails"
| "key_stub ApiParsePKCS8PrivateKey = Fails"
| "key_stub ApiParsePKCS8PrivateKeyPEM = Fails"
| "key_stub ApiParseSEC1PrivateKey = Fails"
| "key_stub ApiParseSEC1PrivateKeyPEM = Fails"
| "key_stub ApiParseSPKIPublicKey = Fails"
| "key_stub ApiParseSPKIPublicKeyPEM = Fails"
| "key_stub ApiParseRawPrivateKey = Fails"
| "key_stub ApiParseRawPublicKey = Fails"

datatype sign_api =
    ApiSign | ApiVerify | ApiSignDigest | ApiVerifyDigest | ApiNewSigner | ApiNewVerifier
  | ApiSignerWrite | ApiSignerSign | ApiSignerName | ApiSignerClose | ApiVerifierWrite
  | ApiVerifierVerify | ApiVerifierName | ApiVerifierClose

fun sign_stub :: "sign_api \<Rightarrow> stub" where
  "sign_stub ApiSign = Fails"
| "sign_stub ApiVerify = Fails"
| "sign_stub ApiSignDigest = Fails"
| "sign_stub ApiVerifyDigest = Fails"
| "sign_stub ApiNewSigner = Fails"
| "sign_stub ApiNewVerifier = Fails"
| "sign_stub ApiSignerWrite = Fails"
| "sign_stub ApiSignerSign = Fails"
| "sign_stub ApiSignerName = Text []"
| "sign_stub ApiSignerClose = Quiet"
| "sign_stub ApiVerifierWrite = Fails"
| "sign_stub ApiVerifierVerify = Fails"
| "sign_stub ApiVerifierName = Text []"
| "sign_stub ApiVerifierClose = Quiet"

datatype asym_api =
    ApiEncrypt | ApiDecrypt | ApiMaxOAEPPlaintext | ApiEncapsulate | ApiDecapsulate | ApiDerive
  | ApiDeriveSharedKey

fun asym_stub :: "asym_api \<Rightarrow> stub" where
  "asym_stub ApiEncrypt = Fails"
| "asym_stub ApiDecrypt = Fails"
| "asym_stub ApiMaxOAEPPlaintext = Fails"
| "asym_stub ApiEncapsulate = Fails"
| "asym_stub ApiDecapsulate = Fails"
| "asym_stub ApiDerive = Fails"
| "asym_stub ApiDeriveSharedKey = Fails"

datatype store_api =
    ApiLoadKey | ApiLoadPublicKey | ApiListStore

fun store_stub :: "store_api \<Rightarrow> stub" where
  "store_stub ApiLoadKey = Fails"
| "store_stub ApiLoadPublicKey = Fails"
| "store_stub ApiListStore = Fails"

text \<open>A nil slice is no result.\<close>

datatype secure_api =
    ApiInitSecureHeap | ApiDoneSecureHeap | ApiSecureHeapInitialized | ApiSecureHeapUsed
  | ApiNewSecureBuffer | ApiSecureBytes | ApiSecureLen | ApiSecureClose

fun secure_stub :: "secure_api \<Rightarrow> stub" where
  "secure_stub ApiInitSecureHeap = Fails"
| "secure_stub ApiDoneSecureHeap = Fails"
| "secure_stub ApiSecureHeapInitialized = Says False"
| "secure_stub ApiSecureHeapUsed = Number 0"
| "secure_stub ApiNewSecureBuffer = Fails"
| "secure_stub ApiSecureBytes = Quiet"
| "secure_stub ApiSecureLen = Number 0"
| "secure_stub ApiSecureClose = Quiet"

datatype cipher_api =
    ApiNewCipher | ApiIVSize | ApiBlockSize | ApiCipherName | ApiPadding | ApiCipherEncrypt
  | ApiCipherDecrypt | ApiCipherClose | ApiNewKeyWrap | ApiWrapName | ApiWrap | ApiUnwrap
  | ApiWrapClose

fun cipher_stub :: "cipher_api \<Rightarrow> stub" where
  "cipher_stub ApiNewCipher = Fails"
| "cipher_stub ApiIVSize = Number 0"
| "cipher_stub ApiBlockSize = Number 0"
| "cipher_stub ApiCipherName = Text []"
| "cipher_stub ApiPadding = Number PaddingPKCS7"
| "cipher_stub ApiCipherEncrypt = Fails"
| "cipher_stub ApiCipherDecrypt = Fails"
| "cipher_stub ApiCipherClose = Quiet"
| "cipher_stub ApiNewKeyWrap = Fails"
| "cipher_stub ApiWrapName = Text []"
| "cipher_stub ApiWrap = Fails"
| "cipher_stub ApiUnwrap = Fails"
| "cipher_stub ApiWrapClose = Quiet"

datatype more_api =
    ApiNewMAC | ApiNewGMAC | ApiArgon2

fun more_stub :: "more_api \<Rightarrow> stub" where
  "more_stub ApiNewMAC = Fails"
| "more_stub ApiNewGMAC = Fails"
| "more_stub ApiArgon2 = Fails"

datatype rsa_api =
    ApiEncryptPKCS1v15 | ApiDecryptPKCS1v15 | ApiMarshalPKCS1 | ApiMarshalPKCS1PEM
  | ApiParsePKCS1PrivateKey | ApiParsePKCS1PrivateKeyPEM | ApiKeyAlgorithmAvailable

fun rsa_stub :: "rsa_api \<Rightarrow> stub" where
  "rsa_stub ApiEncryptPKCS1v15 = Fails"
| "rsa_stub ApiDecryptPKCS1v15 = Fails"
| "rsa_stub ApiMarshalPKCS1 = Fails"
| "rsa_stub ApiMarshalPKCS1PEM = Fails"
| "rsa_stub ApiParsePKCS1PrivateKey = Fails"
| "rsa_stub ApiParsePKCS1PrivateKeyPEM = Fails"
| "rsa_stub ApiKeyAlgorithmAvailable = Says False"

datatype capability_api =
    ApiSupports | ApiVerifyCapability | ApiCheck Capability | ApiTrial Capability
  | ApiDescribe Capability

fun capability_stub :: "capability_api \<Rightarrow> stub" where
  "capability_stub ApiSupports = Fails"
| "capability_stub ApiVerifyCapability = Fails"
| "capability_stub (ApiCheck x) = Fails"
| "capability_stub (ApiTrial x) = Fails"
| "capability_stub (ApiDescribe x) = Text (case x of CapSignature s \<Rightarrow> sc_Key s | CapAEAD a \<Rightarrow> ac_Cipher a | CapCipher c \<Rightarrow> xc_Cipher c)"

datatype list_api =
    ApiListDigests | ApiListCiphers | ApiListMACs | ApiListKDFs | ApiListCurves | ApiParseDigestName
  | ApiParseCipherName | ApiParseKeyAlgorithm | ApiParseMACName | ApiParseKDFName

fun list_stub :: "list_api \<Rightarrow> stub" where
  "list_stub ApiListDigests = Fails"
| "list_stub ApiListCiphers = Fails"
| "list_stub ApiListMACs = Fails"
| "list_stub ApiListKDFs = Fails"
| "list_stub ApiListCurves = Fails"
| "list_stub ApiParseDigestName = Fails"
| "list_stub ApiParseCipherName = Fails"
| "list_stub ApiParseKeyAlgorithm = Fails"
| "list_stub ApiParseMACName = Fails"
| "list_stub ApiParseKDFName = Fails"

section \<open>What keeps working\<close>

text \<open>The values of the enumerations the file declares again, and their names.\<close>

definition nocgo_schemes :: "int list" where "nocgo_schemes = [0, 1, 2, 3, 4]"
definition nocgo_rsa_paddings :: "int list" where "nocgo_rsa_paddings = [0, 1]"
definition nocgo_salt_lengths :: "int list" where "nocgo_salt_lengths = [0, -1]"
definition nocgo_store_types :: "int list" where "nocgo_store_types = [0, 1, 2, 3]"
definition nocgo_variants :: "int list" where "nocgo_variants = [0, 1, 2]"
definition nocgo_formats :: "int list" where "nocgo_formats = [0, 1]"

definition nocgo_PaddingScheme_String :: "int \<Rightarrow> string" where
  "nocgo_PaddingScheme_String p =
     (if p = nocgo_schemes ! 0 then ''PKCS#7''
      else if p = nocgo_schemes ! 1 then ''none''
      else if p = nocgo_schemes ! 2 then ''ISO/IEC 7816-4''
      else if p = nocgo_schemes ! 3 then ''ANSI X9.23''
      else if p = nocgo_schemes ! 4 then ''zero''
      else ''unknown'')"

definition nocgo_StoreObjectType_String :: "int \<Rightarrow> string" where
  "nocgo_StoreObjectType_String t =
     (if t = nocgo_store_types ! 1 then ''private key''
      else if t = nocgo_store_types ! 2 then ''public key''
      else if t = nocgo_store_types ! 3 then ''certificate''
      else ''unknown'')"

definition nocgo_SignatureFormat_String :: "int \<Rightarrow> string" where
  "nocgo_SignatureFormat_String f = (if f = nocgo_formats ! 1 then ''IEEE P1363'' else ''DER'')"

text \<open>The comparison of tags and the overwriting of a slice.\<close>

definition nocgo_EqualMAC :: "byte list \<Rightarrow> byte list \<Rightarrow> bool" where
  "nocgo_EqualMAC a b = (if length a \<noteq> length b then False
     else fold (\<lambda>i v. v OR (a ! i XOR b ! i)) [0..<length a] 0 = 0)"

definition nocgo_Zero :: "byte list \<Rightarrow> byte list" where
  "nocgo_Zero b = fold (\<lambda>i c. c[i := 0]) [0..<length b] b"

datatype api =
    In_version version_api
  | In_context context_api
  | In_provider provider_api
  | In_hash hash_api
  | In_mac mac_api
  | In_kdf kdf_api
  | In_aead aead_api
  | In_key key_api
  | In_sign sign_api
  | In_asym asym_api
  | In_store store_api
  | In_secure secure_api
  | In_cipher cipher_api
  | In_more more_api
  | In_rsa rsa_api
  | In_capability capability_api
  | In_list list_api

fun nocgo :: "api \<Rightarrow> stub" where
  "nocgo (In_version c) = version_stub c"
| "nocgo (In_context c) = context_stub c"
| "nocgo (In_provider c) = provider_stub c"
| "nocgo (In_hash c) = hash_stub c"
| "nocgo (In_mac c) = mac_stub c"
| "nocgo (In_kdf c) = kdf_stub c"
| "nocgo (In_aead c) = aead_stub c"
| "nocgo (In_key c) = key_stub c"
| "nocgo (In_sign c) = sign_stub c"
| "nocgo (In_asym c) = asym_stub c"
| "nocgo (In_store c) = store_stub c"
| "nocgo (In_secure c) = secure_stub c"
| "nocgo (In_cipher c) = cipher_stub c"
| "nocgo (In_more c) = more_stub c"
| "nocgo (In_rsa c) = rsa_stub c"
| "nocgo (In_capability c) = capability_stub c"
| "nocgo (In_list c) = list_stub c"

section \<open>Properties\<close>

text \<open>What no stub may do: say yes, name something, or make bytes of its own.\<close>

fun harmless_stub :: "api \<Rightarrow> stub \<Rightarrow> bool" where
  "harmless_stub a (Says b) = (\<not> b)"
| "harmless_stub a (Bytes b) = (a = In_hash (ApiHashSum b) \<or> a = In_mac (ApiMACSum b))"
| "harmless_stub a (Text t) = (t = [] \<or> (\<exists>x. a = In_capability (ApiDescribe x)))"
| "harmless_stub a (Number n) = (n = 0)"
| "harmless_stub a (Panics e) = (a = In_aead ApiSeal \<and> e = ErrUnavailable)"
| "harmless_stub a s = True"

text \<open>
  Without C the package fails closed. No function says that something is available, enabled,
  verified or equal to a size; none returns bytes but \<open>Sum\<close>, which hands back what it was given;
  the only panic is \<open>Seal\<close>'s, with \<open>ErrUnavailable\<close>.
\<close>

theorem Nocgo_fails_closed: "harmless_stub a (nocgo a)"
proof (induction a rule: nocgo.induct)
  case (13 c)
  show ?case by (cases c) (simp_all add: scheme_defs)
qed (rename_tac c, case_tac c, simp_all)+

lemma fold_zip_index:
  assumes "length a = length b"
  shows "fold (\<lambda>i v. f v (a ! i) (b ! i)) [0..<length a] v = fold (\<lambda>(x, y) v. f v x y) (zip a b) v"
proof -
  have "zip a b = map (\<lambda>i. (a ! i, b ! i)) [0..<length a]"
    by (rule nth_equalityI) (use assms in simp_all)
  then show ?thesis by (simp only: fold_map comp_def prod.case)
qed

lemma fold_zero:
  "length (fold (\<lambda>i c. c[i := 0]) [0..<n] b) = length b
   \<and> (\<forall>i < length b. fold (\<lambda>i c. c[i := 0]) [0..<n] b ! i = (if i < n then 0 else b ! i))"
  by (induction n) (auto simp: nth_list_update less_Suc_eq)

lemma same_names:
  "nocgo_PaddingScheme_String p = PaddingScheme_String p"
  "nocgo_StoreObjectType_String t = StoreObjectType_String t"
  "nocgo_SignatureFormat_String f = SignatureFormat_String f"
  by (simp_all add: nocgo_PaddingScheme_String_def nocgo_StoreObjectType_String_def nocgo_SignatureFormat_String_def
    PaddingScheme_String_def StoreObjectType_String_def SignatureFormat_String_def nocgo_schemes_def nocgo_store_types_def
    nocgo_formats_def scheme_defs StoreUnknown_def StorePrivateKey_def StorePublicKey_def StoreCertificate_def
    SignatureDER_def SignatureP1363_def)

lemma same_values:
  "nocgo_schemes = [PaddingPKCS7, PaddingNone, PaddingISO7816, PaddingX923, PaddingZero]"
  "nocgo_rsa_paddings = [RSAPSS, RSAPKCS1v15]" "nocgo_salt_lengths = [PSSSaltLengthHash, PSSSaltLengthMax]"
  "nocgo_store_types = [StoreUnknown, StorePrivateKey, StorePublicKey, StoreCertificate]"
  "nocgo_variants = [Argon2ID, Argon2I, Argon2D]" "nocgo_formats = [SignatureDER, SignatureP1363]"
  by (simp_all add: nocgo_schemes_def nocgo_rsa_paddings_def nocgo_salt_lengths_def nocgo_store_types_def nocgo_variants_def
    nocgo_formats_def scheme_defs RSAPSS_def RSAPKCS1v15_def PSSSaltLengthHash_def PSSSaltLengthMax_def StoreUnknown_def
    StorePrivateKey_def StorePublicKey_def StoreCertificate_def Argon2ID_def Argon2I_def Argon2D_def SignatureDER_def
    SignatureP1363_def)

lemma same_loops: "nocgo_EqualMAC a b = EqualMAC a b" "nocgo_Zero c = fst (run_state (Zero c) w)"
proof -
  show "nocgo_EqualMAC a b = EqualMAC a b"
    using fold_zip_index [of a b "\<lambda>v x y. v OR (x XOR y)" 0]
    by (simp add: nocgo_EqualMAC_def EqualMAC_def ConstantTimeCompare_def)
  show "nocgo_Zero c = fst (run_state (Zero c) w)"
    using fold_zero [of "length c" c]
    by (auto simp: nocgo_Zero_def Zero_def exec_simps intro: nth_equalityI)
qed

text \<open>
  C40: the two builds agree on what they both implement: the loops of the build without C compare tags
  and overwrite slices as the comparison of the standard library and the cleansing of OpenSSL do,
  and the enumerations that the file declares again have the same values and the same names.
\<close>

theorem Builds_agree:
  "(nocgo_EqualMAC a b = EqualMAC a b \<and> nocgo_Zero c = fst (run_state (Zero c) w))
   \<and> (nocgo_PaddingScheme_String p = PaddingScheme_String p \<and> nocgo_StoreObjectType_String p = StoreObjectType_String p
      \<and> nocgo_SignatureFormat_String p = SignatureFormat_String p)
   \<and> (nocgo_schemes = [PaddingPKCS7, PaddingNone, PaddingISO7816, PaddingX923, PaddingZero]
      \<and> nocgo_rsa_paddings = [RSAPSS, RSAPKCS1v15] \<and> nocgo_salt_lengths = [PSSSaltLengthHash, PSSSaltLengthMax]
      \<and> nocgo_store_types = [StoreUnknown, StorePrivateKey, StorePublicKey, StoreCertificate]
      \<and> nocgo_variants = [Argon2ID, Argon2I, Argon2D] \<and> nocgo_formats = [SignatureDER, SignatureP1363])"
  by (intro conjI same_loops same_names same_values)

end
